(* ===== verification/BTree.thy ===== *)
theory BTree
  imports Prelude
begin

text \<open>
  \<open>std::collections::BTreeMap\<close> as the sorted association list that its in-order iteration
  yields. \<open>bt_get\<close>, \<open>bt_insert\<close>, \<open>bt_remove\<close> and \<open>bt_contains\<close> are the operations the
  sources call; \<open>values\<close> and \<open>iter\<close> are \<open>map snd\<close> and the list itself. The locale
  \<open>finite_map_laws\<close> states what clients rely on, \<open>bt\<close> interprets it on these definitions.
\<close>

section \<open>Operations\<close>

type_synonym ('k, 'v) btree = "('k \<times> 'v) list"

definition bt_get :: "('k, 'v) btree \<Rightarrow> 'k \<Rightarrow> 'v option" where
  "bt_get m k = map_of m k"

fun bt_insert :: "'k::linorder \<Rightarrow> 'v \<Rightarrow> ('k, 'v) btree \<Rightarrow> ('k, 'v) btree" where
  "bt_insert k v [] = [(k, v)]"
| "bt_insert k v ((k', v') # m) =
     (if k < k' then (k, v) # (k', v') # m
      else if k = k' then (k, v) # m
      else (k', v') # bt_insert k v m)"

definition bt_remove :: "'k \<Rightarrow> ('k, 'v) btree \<Rightarrow> ('k, 'v) btree" where
  "bt_remove k m = filter (\<lambda>e. fst e \<noteq> k) m"

definition bt_contains :: "('k, 'v) btree \<Rightarrow> 'k \<Rightarrow> bool" where
  "bt_contains m k = (bt_get m k \<noteq> None)"

definition bt_sorted :: "('k::linorder, 'v) btree \<Rightarrow> bool" where
  "bt_sorted m = sorted_wrt (<) (map fst m)"

section \<open>The map laws clients rely on\<close>

locale finite_map_laws =
  fixes get :: "'m \<Rightarrow> 'k \<Rightarrow> 'v option"
    and ins :: "'k \<Rightarrow> 'v \<Rightarrow> 'm \<Rightarrow> 'm"
    and rem :: "'k \<Rightarrow> 'm \<Rightarrow> 'm"
  assumes get_ins: "get (ins k v m) = (get m)(k \<mapsto> v)"
    and get_rem: "get (rem k m) = (get m)(k := None)"
begin

lemma get_ins_same: "get (ins k v m) k = Some v"
  by (simp add: get_ins)

lemma get_ins_other: "k' \<noteq> k \<Longrightarrow> get (ins k v m) k' = get m k'"
  by (simp add: get_ins)

lemma get_ins_cases:
  assumes "get (ins k v m) k' = Some w"
  obtains "k' = k" and "w = v" | "k' \<noteq> k" and "get m k' = Some w"
  using assms by (cases "k' = k") (auto simp: get_ins)

text \<open>An invariant of all entries is kept by inserting an entry that satisfies it.\<close>

lemma all_ins:
  assumes "\<And>k' w. get m k' = Some w \<Longrightarrow> P k' w" and "P k v"
    and "get (ins k v m) k' = Some w"
  shows "P k' w"
  using assms by (auto simp: get_ins split: if_splits)

lemma ins_commute: "k \<noteq> k' \<Longrightarrow> get (ins k v (ins k' v' m)) = get (ins k' v' (ins k v m))"
  by (auto simp: get_ins fun_eq_iff)

end

lemma bt_get_insert: "bt_get (bt_insert k v m) = (bt_get m)(k \<mapsto> v)"
  by (induction k v m rule: bt_insert.induct) (auto simp: bt_get_def fun_eq_iff)

lemma bt_get_remove: "bt_get (bt_remove k m) = (bt_get m)(k := None)"
  by (induction m) (auto simp: bt_get_def bt_remove_def fun_eq_iff)

interpretation bt: finite_map_laws bt_get bt_insert bt_remove
  by unfold_locales (simp_all add: bt_get_insert bt_get_remove)

lemmas bt_get_simps [simp] = bt_get_insert bt_get_remove

lemma bt_get_Nil [simp]: "bt_get [] k = None"
  by (simp add: bt_get_def)

section \<open>Order\<close>

lemma set_bt_insert: "set (bt_insert k v m) \<subseteq> insert (k, v) (set m)"
  by (induction k v m rule: bt_insert.induct) auto

lemma keys_bt_insert: "fst ` set (bt_insert k v m) = insert k (fst ` set m)"
  by (induction k v m rule: bt_insert.induct) auto

lemma bt_sorted_Nil [simp]: "bt_sorted []"
  by (simp add: bt_sorted_def)

lemma bt_sorted_Cons [simp]:
  "bt_sorted ((k, v) # m) \<longleftrightarrow> (\<forall>k'\<in>fst ` set m. k < k') \<and> bt_sorted m"
  by (auto simp: bt_sorted_def)

lemma bt_sorted_insert [simp, intro]: "bt_sorted m \<Longrightarrow> bt_sorted (bt_insert k v m)"
  by (induction k v m rule: bt_insert.induct) (auto simp: keys_bt_insert)

lemma bt_sorted_remove [simp, intro]: "bt_sorted m \<Longrightarrow> bt_sorted (bt_remove k m)"
  by (induction m) (auto simp: bt_remove_def)

lemma bt_sorted_distinct: "bt_sorted m \<Longrightarrow> distinct (map fst m)"
  by (simp add: bt_sorted_def strict_sorted_iff)

lemma bt_get_eq_Some: "bt_sorted m \<Longrightarrow> bt_get m k = Some v \<longleftrightarrow> (k, v) \<in> set m"
  by (simp add: bt_get_def map_of_eq_Some_iff bt_sorted_distinct)

lemma bt_get_SomeD: "bt_get m k = Some v \<Longrightarrow> (k, v) \<in> set m"
  by (simp add: bt_get_def map_of_SomeD)

text \<open>Appending a key above all the others is inserting it: rebuilding a map by inserting its
  entries in order gives the map back.\<close>

lemma bt_insert_last: "\<forall>k'\<in>fst ` set m. k' < k \<Longrightarrow> bt_insert k v m = m @ [(k, v)]"
  by (induction k v m rule: bt_insert.induct) auto

lemma bt_sorted_snoc:
  "bt_sorted (m @ [(k, v)]) \<longleftrightarrow> bt_sorted m \<and> (\<forall>k'\<in>fst ` set m. k' < k)"
  by (induction m) auto

lemma fold_bt_insert_sorted:
  "bt_sorted (m @ es) \<Longrightarrow> fold (\<lambda>(k, v). bt_insert k v) es m = m @ es"
proof (induction es arbitrary: m)
  case Nil
  then show ?case by simp
next
  case (Cons e es)
  obtain k v where e: "e = (k, v)" by fastforce
  from Cons.prems e have "\<forall>k'\<in>fst ` set m. k' < k"
    by (auto simp: bt_sorted_def sorted_wrt_append)
  with Cons.IH [of "m @ [e]"] Cons.prems e show ?case
    by (simp add: bt_insert_last)
qed

section \<open>Sums over the entries\<close>

text \<open>The lease pools account for what their leases hold; the sum of a measure over the entries
  moves with an insertion exactly by the entry that changed.\<close>

definition bt_sum :: "('v \<Rightarrow> nat) \<Rightarrow> ('k, 'v) btree \<Rightarrow> nat" where
  "bt_sum f m = sum_list (map (f \<circ> snd) m)"

lemma bt_sum_simps [simp]:
  "bt_sum f [] = 0"
  "bt_sum f ((k, v) # m) = f v + bt_sum f m"
  by (simp_all add: bt_sum_def)

lemma bt_sum_insert_fresh:
  "bt_get m k = None \<Longrightarrow> bt_sum f (bt_insert k v m) = f v + bt_sum f m"
  by (induction k v m rule: bt_insert.induct) (auto simp: bt_get_def split: if_splits)

lemma bt_sum_insert_replace:
  "bt_sorted m \<Longrightarrow> bt_get m k = Some w \<Longrightarrow> bt_sum f (bt_insert k v m) + f w = f v + bt_sum f m"
  by (induction k v m rule: bt_insert.induct)
    (fastforce simp: bt_get_def dest: map_of_SomeD split: if_splits)+

lemma bt_sum_ge: "bt_get m k = Some v \<Longrightarrow> f v \<le> bt_sum f m"
  by (induction m) (auto simp: bt_get_def split: if_splits intro: trans_le_add2)

lemma bt_sum_zero: "\<forall>e\<in>set m. f (snd e) = 0 \<Longrightarrow> bt_sum f m = 0"
  by (induction m) (auto simp: bt_sum_def)

lemma bt_sum_none:
  assumes "bt_sorted m" and "\<And>k v. bt_get m k = Some v \<Longrightarrow> f v = 0"
  shows "bt_sum f m = 0"
  by (rule bt_sum_zero) (use assms in \<open>auto simp: bt_get_eq_Some\<close>)

lemma bt_sum_insert_same:
  "bt_sorted m \<Longrightarrow> bt_get m k = Some w \<Longrightarrow> f v = f w \<Longrightarrow> bt_sum f (bt_insert k v m) = bt_sum f m"
  using bt_sum_insert_replace [of m k w f v] by simp

section \<open>Evolution of a table\<close>

text \<open>\<open>bt_evolves R m m'\<close>: no entry of \<open>m\<close> is lost in \<open>m'\<close>, and each has moved along
  \<open>R\<close>.\<close>

definition bt_evolves :: "('v \<Rightarrow> 'v \<Rightarrow> bool) \<Rightarrow> ('k, 'v) btree \<Rightarrow> ('k, 'v) btree \<Rightarrow> bool" where
  "bt_evolves R m m' \<longleftrightarrow>
     (\<forall>k v. bt_get m k = Some v \<longrightarrow> (\<exists>v'. bt_get m' k = Some v' \<and> R v v'))"

lemma bt_evolves_refl [simp, intro]: "(\<And>v. R v v) \<Longrightarrow> bt_evolves R m m"
  by (auto simp: bt_evolves_def)

lemma bt_evolves_insert [intro]:
  assumes "\<And>v. R v v" and "\<And>v. bt_get m k = Some v \<Longrightarrow> R v w"
  shows "bt_evolves R m (bt_insert k w m)"
  using assms by (auto simp: bt_evolves_def)

lemma bt_evolves_trans:
  assumes "bt_evolves R m m'" "bt_evolves R m' m''"
    and "\<And>a b c. R a b \<Longrightarrow> R b c \<Longrightarrow> R a c"
  shows "bt_evolves R m m''"
  using assms unfolding bt_evolves_def by meson

lemma bt_evolves_get:
  assumes "bt_evolves R m m'" "bt_get m k = Some v"
  obtains v' where "bt_get m' k = Some v'" "R v v'"
  using assms by (auto simp: bt_evolves_def)

end
