(* ===== verification/Bytes.thy ===== *)
theory Bytes
  imports Prelude
begin

text \<open>
  Big-endian integer encodings and the \<open>ByteCursor\<close> of
  \<open>nlos-consensus/src/state_machine.rs\<close>, the reader under the command and snapshot decoders.

  \<open>to_be\<close> and \<open>from_be\<close> are \<open>to_be_bytes\<close> and \<open>from_be_bytes\<close> of the Rust integer
  types. A reader takes a cursor and returns an error or a value with the advanced cursor;
  \<open>rbind\<close> is \<open>let x = cursor.read()?; ...\<close>. The locale \<open>field_codec\<close> is the contract
  between a field's writer and its reader: what was written is read back at any offset, and only
  what the writer produces is accepted.
\<close>

section \<open>Big-endian integers\<close>

primrec le_bytes :: "nat \<Rightarrow> nat \<Rightarrow> byte list" where
  "le_bytes 0 x = []"
| "le_bytes (Suc n) x = of_nat (x mod 256) # le_bytes n (x div 256)"

primrec le_nat :: "byte list \<Rightarrow> nat" where
  "le_nat [] = 0"
| "le_nat (b # bs) = unat b + 256 * le_nat bs"

definition to_be :: "'a::len word \<Rightarrow> byte list" where
  "to_be w = rev (le_bytes (LENGTH('a) div 8) (unat w))"

definition from_be :: "byte list \<Rightarrow> 'a::len word" where
  "from_be bs = of_nat (le_nat (rev bs))"

lemma length_le_bytes [simp]: "length (le_bytes n x) = n"
  by (induction n arbitrary: x) simp_all

lemma length_to_be [simp]: "length (to_be (w :: 'a::len word)) = LENGTH('a) div 8"
  by (simp add: to_be_def)

lemma le_nat_le_bytes: "le_nat (le_bytes n x) = x mod 256 ^ n"
proof (induction n arbitrary: x)
  case 0
  then show ?case by simp
next
  case (Suc n)
  have "le_nat (le_bytes (Suc n) x) = x mod 256 + 256 * (x div 256 mod 256 ^ n)"
    by (simp add: Suc.IH unsigned_of_nat take_bit_eq_mod)
  also have "\<dots> = x mod (256 * 256 ^ n)"
    by (simp add: mod_mult2_eq)
  finally show ?case by simp
qed

lemma le_bytes_le_nat: "le_bytes (length bs) (le_nat bs) = bs"
proof (induction bs)
  case Nil
  then show ?case by simp
next
  case (Cons b bs)
  have "unat b < 256" using unsigned_less [of b] by simp
  then have "(unat b + 256 * le_nat bs) mod 256 = unat b"
    and "(unat b + 256 * le_nat bs) div 256 = le_nat bs" by simp_all
  then show ?case using Cons.IH by simp
qed

lemma le_nat_less: "le_nat bs < 256 ^ length bs"
proof (induction bs)
  case Nil
  then show ?case by simp
next
  case (Cons b bs)
  have "unat b < 256" using unsigned_less [of b] by simp
  with Cons.IH show ?case by simp
qed

lemma from_be_to_be:
  assumes "LENGTH('a::len) = 8 * n"
  shows "from_be (to_be (w :: 'a word)) = w"
proof -
  have "unat w < 256 ^ n"
    using unsigned_less [of w] assms by (simp add: power_mult)
  then show ?thesis
    using assms by (simp add: from_be_def to_be_def le_nat_le_bytes)
qed

lemma to_be_from_be:
  assumes "LENGTH('a::len) = 8 * n" and "length bs = n"
  shows "to_be (from_be bs :: 'a word) = bs"
proof -
  have "le_nat (rev bs) < 2 ^ LENGTH('a)"
    using le_nat_less [of "rev bs"] assms by (simp add: power_mult)
  then have "unat (of_nat (le_nat (rev bs)) :: 'a word) = le_nat (rev bs)"
    by (simp add: unsigned_of_nat take_bit_nat_eq_self)
  then show ?thesis
    using assms le_bytes_le_nat [of "rev bs"] by (simp add: to_be_def from_be_def)
qed

lemma to_be_inject:
  assumes "LENGTH('a::len) = 8 * n"
  shows "to_be (v :: 'a word) = to_be w \<longleftrightarrow> v = w"
  by (metis from_be_to_be [OF assms])

section \<open>The byte cursor\<close>

record ByteCursor =
  cur_bytes :: "byte list"
  cur_pos :: nat

type_synonym ('e, 'a) reader = "ByteCursor \<Rightarrow> ('e, 'a \<times> ByteCursor) result"

definition cursor_new :: "byte list \<Rightarrow> ByteCursor" where
  "cursor_new bs = \<lparr>cur_bytes = bs, cur_pos = 0\<rparr>"

definition cursor_is_empty :: "ByteCursor \<Rightarrow> bool" where
  "cursor_is_empty c = (length (cur_bytes c) \<le> cur_pos c)"

definition rret :: "'a \<Rightarrow> ('e, 'a) reader" where
  "rret x c = Inr (x, c)"

definition rfail :: "'e \<Rightarrow> ('e, 'a) reader" where
  "rfail e c = Inl e"

definition rbind :: "('e, 'a) reader \<Rightarrow> ('a \<Rightarrow> ('e, 'b) reader) \<Rightarrow> ('e, 'b) reader" where
  "rbind p f c = (case p c of Inl e \<Rightarrow> Inl e | Inr (x, c') \<Rightarrow> f x c')"

definition rmap_err :: "('e \<Rightarrow> 'f) \<Rightarrow> ('e, 'a) reader \<Rightarrow> ('f, 'a) reader" where
  "rmap_err g p c = map_err g (p c)"

definition read_slice_or :: "'e \<Rightarrow> nat \<Rightarrow> ('e, byte list) reader" where
  "read_slice_or e len c =
     (let end_pos = cur_pos c + len
      in if end_pos > length (cur_bytes c) then Inl e
         else Inr (take len (drop (cur_pos c) (cur_bytes c)), c\<lparr>cur_pos := end_pos\<rparr>))"

text \<open>\<open>cursor_at pre rest\<close> is a cursor that has consumed \<open>pre\<close> and has \<open>rest\<close> left.\<close>

definition cursor_at :: "byte list \<Rightarrow> byte list \<Rightarrow> ByteCursor" where
  "cursor_at pre rest = \<lparr>cur_bytes = pre @ rest, cur_pos = length pre\<rparr>"

lemma cursor_new_at: "cursor_new bs = cursor_at [] bs"
  by (simp add: cursor_new_def cursor_at_def)

lemma cursor_is_empty_at [simp]: "cursor_is_empty (cursor_at pre rest) \<longleftrightarrow> rest = []"
  by (simp add: cursor_is_empty_def cursor_at_def)

lemma cursor_at_inject [simp]:
  "cursor_at pre rest = cursor_at pre' rest' \<longleftrightarrow> pre = pre' \<and> rest = rest'"
  by (auto simp: cursor_at_def)

lemma rret_apply [simp]: "rret x c = Inr (x, c)"
  by (simp add: rret_def)

lemma rfail_apply [simp]: "rfail e c = Inl e"
  by (simp add: rfail_def)

lemma rbind_Inr [simp]: "p c = Inr (x, c') \<Longrightarrow> rbind p f c = f x c'"
  by (simp add: rbind_def)

lemma rbind_Inl [simp]: "p c = Inl e \<Longrightarrow> rbind p f c = Inl e"
  by (simp add: rbind_def)

lemma rbind_eq_Inr:
  "rbind p f c = Inr r \<longleftrightarrow> (\<exists>x c'. p c = Inr (x, c') \<and> f x c' = Inr r)"
  by (auto simp: rbind_def split: sum.splits)

lemma rbindE:
  assumes "rbind p f c = Inr r"
  obtains x c' where "p c = Inr (x, c')" and "f x c' = Inr r"
  using assms by (auto simp: rbind_eq_Inr)

lemma rmap_err_eq_Inr [simp]: "rmap_err g p c = Inr r \<longleftrightarrow> p c = Inr r"
  by (simp add: rmap_err_def)

lemma read_slice_at [simp]:
  "read_slice_or e n (cursor_at pre bs) =
     (if n \<le> length bs then Inr (take n bs, cursor_at (pre @ take n bs) (drop n bs)) else Inl e)"
  by (auto simp: read_slice_or_def cursor_at_def Let_def)

section \<open>The contract between a writer and a reader\<close>

locale readable =
  fixes enc :: "'a \<Rightarrow> byte list" and rd :: "('e, 'a) reader" and wf :: "'a \<Rightarrow> bool"
  assumes rd_enc: "wf x \<Longrightarrow> rd (cursor_at pre (enc x @ rest)) = Inr (x, cursor_at (pre @ enc x) rest)"
begin

lemma rd_enc_end: "wf x \<Longrightarrow> rd (cursor_at pre (enc x)) = Inr (x, cursor_at (pre @ enc x) [])"
  using rd_enc [of x pre "[]"] by simp

lemma enc_prefix_free:
  assumes "wf x" "wf y" "enc x @ r = enc y @ s"
  shows "x = y \<and> r = s"
proof -
  have "Inr (x, cursor_at ([] @ enc x) r) = rd (cursor_at [] (enc x @ r))"
    by (rule rd_enc [OF assms(1), symmetric])
  also have "\<dots> = Inr (y, cursor_at ([] @ enc y) s)"
    unfolding assms(3) by (rule rd_enc [OF assms(2)])
  finally show ?thesis by simp
qed

lemma bind_enc:
  "wf x \<Longrightarrow> rbind rd f (cursor_at pre (enc x @ rest)) = f x (cursor_at (pre @ enc x) rest)"
  by (simp add: rbind_def rd_enc)

lemma bind_enc_end:
  "wf x \<Longrightarrow> rbind rd f (cursor_at pre (enc x)) = f x (cursor_at (pre @ enc x) [])"
  by (simp add: rbind_def rd_enc_end)

text \<open>Mapping the reader's error changes nothing of what is read.\<close>

lemma map_err_bind:
  "wf x \<Longrightarrow> rbind (rmap_err g rd) f (cursor_at pre (enc x @ rest)) = f x (cursor_at (pre @ enc x) rest)"
  by (simp add: rbind_def rmap_err_def rd_enc)

lemma map_err_bind_end:
  "wf x \<Longrightarrow> rbind (rmap_err g rd) f (cursor_at pre (enc x)) = f x (cursor_at (pre @ enc x) [])"
  by (simp add: rbind_def rmap_err_def rd_enc_end)

end

locale field_codec = readable +
  assumes rd_canonical: "rd (cursor_at pre bs) = Inr (x, c) \<Longrightarrow>
      wf x \<and> (\<exists>rest. bs = enc x @ rest \<and> c = cursor_at (pre @ enc x) rest)"
begin

lemma rd_canonicalE:
  assumes "rd (cursor_at pre bs) = Inr (x, c)"
  obtains rest where "wf x" "bs = enc x @ rest" "c = cursor_at (pre @ enc x) rest"
  using rd_canonical [OF assms] by blast

lemma bindE:
  assumes "rbind rd f (cursor_at pre bs) = Inr r"
  obtains x rest where "wf x" "bs = enc x @ rest" "f x (cursor_at (pre @ enc x) rest) = Inr r"
  using assms by (auto simp: rbind_eq_Inr dest: rd_canonical)

lemma map_err_bindE:
  assumes "rbind (rmap_err g rd) f (cursor_at pre bs) = Inr r"
  obtains x rest where "wf x" "bs = enc x @ rest" "f x (cursor_at (pre @ enc x) rest) = Inr r"
  using assms by (auto simp: rbind_eq_Inr dest: rd_canonical)

end

section \<open>Codecs for integers\<close>

lemma be_codec:
  assumes "LENGTH('a::len) = 8 * n"
  shows "field_codec (to_be :: 'a word \<Rightarrow> byte list)
    (rbind (read_slice_or e n) (\<lambda>s. rret (from_be s))) (\<lambda>_. True)"
proof
  fix x :: "'a word" and pre rest
  show "rbind (read_slice_or e n) (\<lambda>s. rret (from_be s)) (cursor_at pre (to_be x @ rest)) =
    Inr (x, cursor_at (pre @ to_be x) rest)"
    using assms by (simp add: rbind_def from_be_to_be)
next
  fix pre bs c and x :: "'a word"
  assume "rbind (read_slice_or e n) (\<lambda>s. rret (from_be s)) (cursor_at pre bs) = Inr (x, c)"
  then have len: "n \<le> length bs" and x: "x = from_be (take n bs)"
    and c: "c = cursor_at (pre @ take n bs) (drop n bs)"
    by (auto simp: rbind_def split: if_splits)
  have "to_be x = take n bs"
    unfolding x by (rule to_be_from_be [OF assms]) (simp add: len)
  then show "True \<and> (\<exists>rest. bs = to_be x @ rest \<and> c = cursor_at (pre @ to_be x) rest)"
    using c by (metis append_take_drop_id)
qed

lemma nonzero_codec:
  assumes "field_codec enc rd (\<lambda>_. True)"
  shows "field_codec enc (rbind rd (\<lambda>v. if v = (0 :: 'a::zero) then rfail e else rret v)) (\<lambda>v. v \<noteq> 0)"
proof -
  note bind = readable.bind_enc [OF field_codec.axioms(1) [OF assms]] and canon = field_codec.bindE [OF assms]
  show ?thesis
    by unfold_locales (auto simp: bind split: if_splits elim!: canon)
qed

end
