(* ===== verification/Commands.thy ===== *)
theory Commands
  imports Bytes
begin

text \<open>
  The four control-plane command families of \<open>nlos-consensus/src/state_machine.rs\<close>, their
  canonical binary body, and the checksummed wire frame of a proposal.

  The data types follow the source's enums, constructor by constructor; \<open>NonZeroU64\<close> and its
  newtypes (\<open>Generation\<close>, \<open>CellEpoch\<close>, \<open>CellFencingToken\<close>) are \<open>u64\<close> values whose
  non-zeroness is part of \<open>command_typed\<close>. SHA-256 comes from the \<open>sha2\<close> crate and is the
  parameter \<open>sha\<close> of every definition that hashes; no property of it is assumed here.
\<close>

section \<open>Identifiers\<close>

type_synonym CellIdentity = bytes16
type_synonym ControlDomainId = bytes16
type_synonym PrincipalId = bytes16
type_synonym IdempotencyKey = bytes16
type_synonym QuotaLeaseId = bytes16
type_synonym CapacityLeaseId = bytes16
type_synonym DeviceId = bytes16
type_synonym ExclusiveDeviceLeaseId = bytes16
type_synonym TaskId = bytes16
type_synonym TaskAuthorityAssignmentId = bytes16
type_synonym ReceiptId = bytes16
type_synonym NonZeroU64 = u64
type_synonym Generation = u64
type_synonym CellEpoch = u64
type_synonym CellFencingToken = u64
type_synonym sha256_fn = "byte list \<Rightarrow> bytes32"

datatype SocketAddr =
    SocketV4 u32 u16 \<comment> \<open>ip, port\<close>
  | SocketV6 bytes16 u16 u32 u32 \<comment> \<open>ip, port, flowinfo, scope id\<close>

section \<open>Command families and the scope guard\<close>

datatype CommandFamilyCode = CellDirectory | RootLeasePool | TaskAuthorityShard | ControlPlaneAudit

fun family_as_u8 :: "CommandFamilyCode \<Rightarrow> byte" where
  "family_as_u8 CellDirectory = 1"
| "family_as_u8 RootLeasePool = 2"
| "family_as_u8 TaskAuthorityShard = 3"
| "family_as_u8 ControlPlaneAudit = 4"

datatype ForbiddenDataPlaneKind =
    TaskExecutionMutation
  | FiberScheduleEvent
  | TopicMessagePublish
  | SemanticEventAppend
  | ArtifactBulkPayload
  | UnknownNonControlFamily byte

fun forbidden_wire_tag :: "ForbiddenDataPlaneKind \<Rightarrow> byte" where
  "forbidden_wire_tag TaskExecutionMutation = 0x81"
| "forbidden_wire_tag FiberScheduleEvent = 0x82"
| "forbidden_wire_tag TopicMessagePublish = 0x83"
| "forbidden_wire_tag SemanticEventAppend = 0x84"
| "forbidden_wire_tag ArtifactBulkPayload = 0x85"
| "forbidden_wire_tag (UnknownNonControlFamily tag) = tag"

record RejectDataPlanePayload =
  rej_kind :: ForbiddenDataPlaneKind
  rej_wire_tag :: byte
  rej_reason :: string

datatype ScopeViolationError =
    ScopeRejectDataPlanePayload RejectDataPlanePayload
  | MalformedWireHeader
  | TruncatedPayload
  | TrailingBytes
  | InvalidNominalField string
  | PayloadChecksumMismatch

definition from_wire_tag :: "byte \<Rightarrow> (RejectDataPlanePayload, CommandFamilyCode) result" where
  "from_wire_tag tag =
     (if tag = 1 then Inr CellDirectory
      else if tag = 2 then Inr RootLeasePool
      else if tag = 3 then Inr TaskAuthorityShard
      else if tag = 4 then Inr ControlPlaneAudit
      else if tag = 0x81 then Inl \<lparr>rej_kind = TaskExecutionMutation, rej_wire_tag = tag,
        rej_reason = ''[CONS-SCOPE-001] high-frequency Task/CommitPermit data-plane mutation is forbidden in control-plane consensus''\<rparr>
      else if tag = 0x82 then Inl \<lparr>rej_kind = FiberScheduleEvent, rej_wire_tag = tag,
        rej_reason = ''[CONS-SCOPE-001] Fiber/Worker scheduling hot-path payload is forbidden in control-plane consensus''\<rparr>
      else if tag = 0x83 then Inl \<lparr>rej_kind = TopicMessagePublish, rej_wire_tag = tag,
        rej_reason = ''[CONS-SCOPE-001] Topic/Channel message ordering is forbidden in control-plane consensus''\<rparr>
      else if tag = 0x84 then Inl \<lparr>rej_kind = SemanticEventAppend, rej_wire_tag = tag,
        rej_reason = ''[CONS-SCOPE-001] SemanticEvent data-plane append is forbidden in control-plane consensus''\<rparr>
      else if tag = 0x85 then Inl \<lparr>rej_kind = ArtifactBulkPayload, rej_wire_tag = tag,
        rej_reason = ''[CONS-SCOPE-001] Artifact content/revision data-plane payload is forbidden in control-plane consensus''\<rparr>
      else Inl \<lparr>rej_kind = UnknownNonControlFamily tag, rej_wire_tag = tag,
        rej_reason = ''[CONS-SCOPE-001] non-control-plane wire tag is forbidden in nlos-consensus''\<rparr>)"

section \<open>Commands\<close>

datatype CellDirectoryCommand =
    UpsertCellEndpoint CellIdentity ControlDomainId PrincipalId Generation CellEpoch u64
      "SocketAddr option"
  \<comment> \<open>cell, control domain, principal, boot generation, epoch, heartbeat sequence, endpoint hint\<close>
  | AdvanceTrustPolicyEpoch u64 bytes32 \<comment> \<open>new trust epoch, policy digest\<close>
  | DecommissionCell CellIdentity CellEpoch \<comment> \<open>cell, fenced epoch\<close>

datatype QuotaLeaseDisposition = LeaseActive | LeaseClosed | LeaseQuarantined

fun disposition_as_u8 :: "QuotaLeaseDisposition \<Rightarrow> byte" where
  "disposition_as_u8 LeaseActive = 1"
| "disposition_as_u8 LeaseClosed = 2"
| "disposition_as_u8 LeaseQuarantined = 3"

definition disposition_from_u8 :: "byte \<Rightarrow> QuotaLeaseDisposition option" where
  "disposition_from_u8 v =
     (if v = 1 then Some LeaseActive else if v = 2 then Some LeaseClosed
      else if v = 3 then Some LeaseQuarantined else None)"

datatype DeviceHeadState = DeviceFree | DeviceActive | DeviceQuarantined

fun device_state_as_u8 :: "DeviceHeadState \<Rightarrow> byte" where
  "device_state_as_u8 DeviceFree = 1"
| "device_state_as_u8 DeviceActive = 2"
| "device_state_as_u8 DeviceQuarantined = 3"

definition device_state_from_u8 :: "byte \<Rightarrow> DeviceHeadState option" where
  "device_state_from_u8 v =
     (if v = 1 then Some DeviceFree else if v = 2 then Some DeviceActive
      else if v = 3 then Some DeviceQuarantined else None)"

datatype RootLeasePoolCommand =
    RegisterQuotaPool bytes16 u64 \<comment> \<open>budget root, initial available\<close>
  | AllocateQuotaLease QuotaLeaseId bytes16 CellIdentity Generation u64 CellEpoch
      CellFencingToken bytes16
  \<comment> \<open>lease, budget root, holder, boot generation, face value, epoch, token, fence scope\<close>
  | SettleOrQuarantineQuotaLease QuotaLeaseId QuotaLeaseDisposition u64 u64 CellEpoch
      CellFencingToken
  \<comment> \<open>lease, disposition, returned, quarantined, new epoch, new token\<close>
  | AllocateCapacityLease CapacityLeaseId bytes16 u64 CellIdentity Generation u64 NonZeroU64
      CellFencingToken
  \<comment> \<open>lease, pool, pool total, target, boot generation, amount, capacity epoch, token\<close>
  | TransitionExclusiveDeviceHead DeviceId ExclusiveDeviceLeaseId NonZeroU64
      "CellIdentity option" CellFencingToken DeviceHeadState bool
  \<comment> \<open>device, lease, exclusivity epoch, holder, token, new state, reset and zeroization proof\<close>

datatype TaskAuthorityShardCommand =
    AssignInitialAuthority TaskAuthorityAssignmentId TaskId Generation bytes16 CellIdentity
      NonZeroU64 u64 u64 bytes32
  \<comment> \<open>assignment, task, generation, shard, home, authority term, control epoch, registry
      generation, registry root\<close>
  | RecordCompletedTakeover ReceiptId TaskId Generation TaskAuthorityAssignmentId
      TaskAuthorityAssignmentId NonZeroU64 NonZeroU64 CellIdentity u64 u64 bytes32 bytes32
      "bytes32 option"
  \<comment> \<open>receipt, task, generation, old assignment, new assignment, frozen old term, new term, new
      home, new control epoch, new registry generation, new registry root, fence set root,
      quarantined effect root\<close>

datatype ControlPlaneAuditCommand =
    AnchorMigrationIntent bytes16 CellIdentity CellIdentity CellEpoch bytes32
  \<comment> \<open>intent, source, target, epoch, intent digest\<close>
  | AnchorReconciliationCheckpoint CellIdentity Generation CellEpoch NonZeroU64 bytes32
  \<comment> \<open>cell, boot generation, epoch, checkpoint sequence, digest\<close>

datatype ControlPlaneCommand =
    CellDirectoryMutation CellDirectoryCommand
  | RootLeasePoolMutation RootLeasePoolCommand
  | TaskAuthorityShardMutation TaskAuthorityShardCommand
  | ControlPlaneAuditAnchor ControlPlaneAuditCommand

fun family_code :: "ControlPlaneCommand \<Rightarrow> CommandFamilyCode" where
  "family_code (CellDirectoryMutation _) = CellDirectory"
| "family_code (RootLeasePoolMutation _) = RootLeasePool"
| "family_code (TaskAuthorityShardMutation _) = TaskAuthorityShard"
| "family_code (ControlPlaneAuditAnchor _) = ControlPlaneAudit"

record ControlPlaneProposal =
  idempotency_key :: IdempotencyKey
  command :: ControlPlaneCommand

section \<open>Encoding\<close>

definition bool_u8 :: "bool \<Rightarrow> byte" where
  "bool_u8 b = (if b then 1 else 0)"

definition bool_from_u8 :: "byte \<Rightarrow> bool option" where
  "bool_from_u8 v = (if v = 0 then Some False else if v = 1 then Some True else None)"

definition encode_opt :: "('a \<Rightarrow> byte list) \<Rightarrow> 'a option \<Rightarrow> byte list" where
  "encode_opt enc x = (case x of Some a \<Rightarrow> 1 # enc a | None \<Rightarrow> [0])"

fun encode_socket_addr_opt :: "SocketAddr option \<Rightarrow> byte list" where
  "encode_socket_addr_opt None = [0]"
| "encode_socket_addr_opt (Some (SocketV4 ip port)) = 4 # to_be ip @ to_be port"
| "encode_socket_addr_opt (Some (SocketV6 ip port flowinfo scope_id)) = 6 # to_be ip @ to_be port"

fun encode_cell_directory :: "CellDirectoryCommand \<Rightarrow> byte list" where
  "encode_cell_directory (UpsertCellEndpoint cell domain principal_id boot_gen epoch hb hint) =
     1 # to_be cell @ to_be domain @ to_be principal_id @ to_be boot_gen @ to_be epoch @ to_be hb @
     encode_socket_addr_opt hint"
| "encode_cell_directory (AdvanceTrustPolicyEpoch new_trust_epoch policy_digest) =
     2 # to_be new_trust_epoch @ to_be policy_digest"
| "encode_cell_directory (DecommissionCell cell fenced_epoch) =
     3 # to_be cell @ to_be fenced_epoch"

fun encode_root_lease_pool :: "RootLeasePoolCommand \<Rightarrow> byte list" where
  "encode_root_lease_pool (RegisterQuotaPool budget_root initial_available) =
     1 # to_be budget_root @ to_be initial_available"
| "encode_root_lease_pool (AllocateQuotaLease lease_id budget_root holder boot_gen face epoch
       token scope) =
     2 # to_be lease_id @ to_be budget_root @ to_be holder @ to_be boot_gen @ to_be face @
     to_be epoch @ to_be token @ to_be scope"
| "encode_root_lease_pool (SettleOrQuarantineQuotaLease lease_id disposition returned quarantined
       new_epoch new_token) =
     3 # to_be lease_id @ disposition_as_u8 disposition # to_be returned @ to_be quarantined @
     to_be new_epoch @ to_be new_token"
| "encode_root_lease_pool (AllocateCapacityLease lease_id pool_id pool_total target boot_gen amount
       epoch token) =
     4 # to_be lease_id @ to_be pool_id @ to_be pool_total @ to_be target @ to_be boot_gen @
     to_be amount @ to_be epoch @ to_be token"
| "encode_root_lease_pool (TransitionExclusiveDeviceHead device lease_id epoch holder token
       new_state proof_flag) =
     5 # to_be device @ to_be lease_id @ to_be epoch @ encode_opt to_be holder @ to_be token @
     [device_state_as_u8 new_state, bool_u8 proof_flag]"

fun encode_task_authority :: "TaskAuthorityShardCommand \<Rightarrow> byte list" where
  "encode_task_authority (AssignInitialAuthority assignment task gen shard home auth_term
       control_epoch registry_gen registry_root) =
     1 # to_be assignment @ to_be task @ to_be gen @ to_be shard @ to_be home @ to_be auth_term @
     to_be control_epoch @ to_be registry_gen @ to_be registry_root"
| "encode_task_authority (RecordCompletedTakeover receipt task gen old_assignment new_assignment
       old_term new_term new_home new_epoch new_registry_gen new_registry_root fence_root
       effect_root) =
     2 # to_be receipt @ to_be task @ to_be gen @ to_be old_assignment @ to_be new_assignment @
     to_be old_term @ to_be new_term @ to_be new_home @ to_be new_epoch @
     to_be new_registry_gen @ to_be new_registry_root @ to_be fence_root @
     encode_opt to_be effect_root"

fun encode_audit :: "ControlPlaneAuditCommand \<Rightarrow> byte list" where
  "encode_audit (AnchorMigrationIntent intent source target epoch digest) =
     1 # to_be intent @ to_be source @ to_be target @ to_be epoch @ to_be digest"
| "encode_audit (AnchorReconciliationCheckpoint cell boot_gen epoch seq digest) =
     2 # to_be cell @ to_be boot_gen @ to_be epoch @ to_be seq @ to_be digest"

fun encode_command :: "ControlPlaneCommand \<Rightarrow> byte list" where
  "encode_command (CellDirectoryMutation cmd) = encode_cell_directory cmd"
| "encode_command (RootLeasePoolMutation cmd) = encode_root_lease_pool cmd"
| "encode_command (TaskAuthorityShardMutation cmd) = encode_task_authority cmd"
| "encode_command (ControlPlaneAuditAnchor cmd) = encode_audit cmd"

definition encode_command_body :: "ControlPlaneProposal \<Rightarrow> byte list" where
  "encode_command_body p = encode_command (command p)"

definition ascii :: "string \<Rightarrow> byte list" where
  "ascii s = map of_char s"

definition proposal_digest :: "sha256_fn \<Rightarrow> ControlPlaneProposal \<Rightarrow> bytes32" where
  "proposal_digest sha p =
     (let body = encode_command_body p
      in sha (ascii ''llmos/consensus/proposal/v1'' @ [family_as_u8 (family_code (command p))] @
              to_be (idempotency_key p) @ to_be (of_nat (length body) :: u64) @ body))"

section \<open>Reading fields\<close>

definition read_slice :: "nat \<Rightarrow> (ScopeViolationError, byte list) reader" where
  "read_slice len = read_slice_or TruncatedPayload len"

definition read_u8 :: "(ScopeViolationError, byte) reader" where
  "read_u8 = rbind (read_slice 1) (\<lambda>s. rret (hd s))"

definition read_u64 :: "(ScopeViolationError, u64) reader" where
  "read_u64 = rbind (read_slice 8) (\<lambda>s. rret (from_be s))"

definition read_nonzero_u64 :: "string \<Rightarrow> (ScopeViolationError, NonZeroU64) reader" where
  "read_nonzero_u64 field =
     rbind read_u64 (\<lambda>v. if v = 0 then rfail (InvalidNominalField field) else rret v)"

definition read_generation :: "string \<Rightarrow> (ScopeViolationError, Generation) reader" where
  "read_generation field = read_nonzero_u64 field"

definition read_cell_epoch :: "string \<Rightarrow> (ScopeViolationError, CellEpoch) reader" where
  "read_cell_epoch field =
     rbind read_u64 (\<lambda>v. if v = 0 then rfail (InvalidNominalField field) else rret v)"

definition read_fencing_token :: "string \<Rightarrow> (ScopeViolationError, CellFencingToken) reader" where
  "read_fencing_token field =
     rbind read_u64 (\<lambda>v. if v = 0 then rfail (InvalidNominalField field) else rret v)"

definition read_16 :: "(ScopeViolationError, bytes16) reader" where
  "read_16 = rbind (read_slice 16) (\<lambda>s. rret (from_be s))"

definition read_32 :: "(ScopeViolationError, bytes32) reader" where
  "read_32 = rbind (read_slice 32) (\<lambda>s. rret (from_be s))"

definition read_cell_id :: "(ScopeViolationError, CellIdentity) reader" where
  "read_cell_id = rbind read_16 rret"

definition read_socket_addr_opt :: "(ScopeViolationError, SocketAddr option) reader" where
  "read_socket_addr_opt = rbind read_u8 (\<lambda>tag.
     if tag = 0 then rret None
     else if tag = 4 then
       rbind (read_slice 4) (\<lambda>ip. rbind (read_slice 2) (\<lambda>port.
         rret (Some (SocketV4 (from_be ip) (from_be port)))))
     else if tag = 6 then
       rbind read_16 (\<lambda>ip. rbind (read_slice 2) (\<lambda>port.
         rret (Some (SocketV6 ip (from_be port) 0 0))))
     else rfail (InvalidNominalField ''SocketAddr family tag''))"

text \<open>The two shapes of an enum-valued field: a raw byte looked up in a partial table, and an
  option behind a presence byte.\<close>

definition read_via :: "(byte \<Rightarrow> 'a option) \<Rightarrow> ScopeViolationError \<Rightarrow> (ScopeViolationError, 'a) reader" where
  "read_via from_u8 err =
     rbind read_u8 (\<lambda>raw. case from_u8 raw of None \<Rightarrow> rfail err | Some v \<Rightarrow> rret v)"

definition read_option ::
  "ScopeViolationError \<Rightarrow> (ScopeViolationError, 'a) reader \<Rightarrow> (ScopeViolationError, 'a option) reader" where
  "read_option err rd =
     rbind read_u8 (\<lambda>t. if t = 0 then rret None
       else if t = 1 then rbind rd (\<lambda>x. rret (Some x))
       else rfail err)"

section \<open>Decoding\<close>

definition decode_cell_directory :: "byte \<Rightarrow> (ScopeViolationError, CellDirectoryCommand) reader" where
  "decode_cell_directory sub_tag =
     (if sub_tag = 1 then
        rbind read_cell_id (\<lambda>cell. rbind read_16 (\<lambda>domain. rbind read_16 (\<lambda>principal_id.
        rbind (read_generation ''node_boot_generation'') (\<lambda>boot_gen.
        rbind (read_cell_epoch ''epoch'') (\<lambda>epoch. rbind read_u64 (\<lambda>hb.
        rbind read_socket_addr_opt (\<lambda>hint.
        rret (UpsertCellEndpoint cell domain principal_id boot_gen epoch hb hint))))))))
      else if sub_tag = 2 then
        rbind read_u64 (\<lambda>new_trust_epoch. rbind read_32 (\<lambda>policy_digest.
        rret (AdvanceTrustPolicyEpoch new_trust_epoch policy_digest)))
      else if sub_tag = 3 then
        rbind read_cell_id (\<lambda>cell. rbind (read_cell_epoch ''fenced_epoch'') (\<lambda>fenced_epoch.
        rret (DecommissionCell cell fenced_epoch)))
      else rfail (InvalidNominalField ''CellDirectory sub-tag''))"

definition decode_root_lease_pool :: "byte \<Rightarrow> (ScopeViolationError, RootLeasePoolCommand) reader" where
  "decode_root_lease_pool sub_tag =
     (if sub_tag = 1 then
        rbind read_16 (\<lambda>budget_root. rbind read_u64 (\<lambda>initial.
        rret (RegisterQuotaPool budget_root initial)))
      else if sub_tag = 2 then
        rbind read_16 (\<lambda>lease_id. rbind read_16 (\<lambda>budget_root. rbind read_cell_id (\<lambda>holder.
        rbind (read_generation ''node_boot_generation'') (\<lambda>boot_gen. rbind read_u64 (\<lambda>face.
        rbind (read_cell_epoch ''epoch'') (\<lambda>epoch.
        rbind (read_fencing_token ''fencing_token'') (\<lambda>token. rbind read_16 (\<lambda>scope.
        rret (AllocateQuotaLease lease_id budget_root holder boot_gen face epoch token scope)))))))))
      else if sub_tag = 3 then
        rbind read_16 (\<lambda>lease_id.
        rbind (read_via disposition_from_u8 (InvalidNominalField ''QuotaLeaseDisposition''))
          (\<lambda>disposition.
        rbind read_u64 (\<lambda>returned. rbind read_u64 (\<lambda>quarantined.
        rbind (read_cell_epoch ''new_epoch'') (\<lambda>new_epoch.
        rbind (read_fencing_token ''new_fencing_token'') (\<lambda>new_token.
        rret (SettleOrQuarantineQuotaLease lease_id disposition returned quarantined
          new_epoch new_token)))))))
      else if sub_tag = 4 then
        rbind read_16 (\<lambda>lease_id. rbind read_16 (\<lambda>pool_id. rbind read_u64 (\<lambda>pool_total.
        rbind read_cell_id (\<lambda>target.
        rbind (read_generation ''target_boot_generation'') (\<lambda>boot_gen. rbind read_u64 (\<lambda>amount.
        rbind (read_nonzero_u64 ''capacity_epoch'') (\<lambda>epoch.
        rbind (read_fencing_token ''fencing_token'') (\<lambda>token.
        rret (AllocateCapacityLease lease_id pool_id pool_total target boot_gen amount epoch token)))))))))
      else if sub_tag = 5 then
        rbind read_16 (\<lambda>device. rbind read_16 (\<lambda>lease_id.
        rbind (read_nonzero_u64 ''exclusivity_epoch'') (\<lambda>epoch.
        rbind (read_option (InvalidNominalField ''holder_cell option tag'') read_cell_id) (\<lambda>holder.
        rbind (read_fencing_token ''fencing_token'') (\<lambda>token.
        rbind (read_via device_state_from_u8 (InvalidNominalField ''ReplicatedDeviceHeadState''))
          (\<lambda>new_state.
        rbind (read_via bool_from_u8 (InvalidNominalField ''has_reset_zeroization_proof bool''))
          (\<lambda>proof_flag.
        rret (TransitionExclusiveDeviceHead device lease_id epoch holder token new_state
          proof_flag))))))))
      else rfail (InvalidNominalField ''RootLeasePool sub-tag''))"

definition decode_task_authority :: "byte \<Rightarrow> (ScopeViolationError, TaskAuthorityShardCommand) reader" where
  "decode_task_authority sub_tag =
     (if sub_tag = 1 then
        rbind read_16 (\<lambda>assignment. rbind read_16 (\<lambda>task.
        rbind (read_generation ''task_generation'') (\<lambda>gen. rbind read_16 (\<lambda>shard.
        rbind read_cell_id (\<lambda>home. rbind (read_nonzero_u64 ''authority_term'') (\<lambda>auth_term.
        rbind read_u64 (\<lambda>control_epoch. rbind read_u64 (\<lambda>registry_gen. rbind read_32 (\<lambda>registry_root.
        rret (AssignInitialAuthority assignment task gen shard home auth_term control_epoch
          registry_gen registry_root))))))))))
      else if sub_tag = 2 then
        rbind read_16 (\<lambda>receipt. rbind read_16 (\<lambda>task.
        rbind (read_generation ''task_generation'') (\<lambda>gen. rbind read_16 (\<lambda>old_assignment.
        rbind read_16 (\<lambda>new_assignment.
        rbind (read_nonzero_u64 ''frozen_old_authority_term'') (\<lambda>old_term.
        rbind (read_nonzero_u64 ''new_authority_term'') (\<lambda>new_term. rbind read_cell_id (\<lambda>new_home.
        rbind read_u64 (\<lambda>new_epoch. rbind read_u64 (\<lambda>new_registry_gen.
        rbind read_32 (\<lambda>new_registry_root. rbind read_32 (\<lambda>fence_root.
        rbind (read_option (InvalidNominalField ''outstanding_effect_quarantine_root option tag'') read_32)
          (\<lambda>effect_root.
        rret (RecordCompletedTakeover receipt task gen old_assignment new_assignment old_term
          new_term new_home new_epoch new_registry_gen new_registry_root fence_root
          effect_root))))))))))))))
      else rfail (InvalidNominalField ''TaskAuthorityShard sub-tag''))"

definition decode_audit :: "byte \<Rightarrow> (ScopeViolationError, ControlPlaneAuditCommand) reader" where
  "decode_audit sub_tag =
     (if sub_tag = 1 then
        rbind read_16 (\<lambda>intent. rbind read_cell_id (\<lambda>source. rbind read_cell_id (\<lambda>target.
        rbind (read_cell_epoch ''epoch'') (\<lambda>epoch. rbind read_32 (\<lambda>digest.
        rret (AnchorMigrationIntent intent source target epoch digest))))))
      else if sub_tag = 2 then
        rbind read_cell_id (\<lambda>cell. rbind (read_generation ''node_boot_generation'') (\<lambda>boot_gen.
        rbind (read_cell_epoch ''epoch'') (\<lambda>epoch. rbind (read_nonzero_u64 ''checkpoint_seq'') (\<lambda>seq.
        rbind read_32 (\<lambda>digest.
        rret (AnchorReconciliationCheckpoint cell boot_gen epoch seq digest))))))
      else rfail (InvalidNominalField ''ControlPlaneAudit sub-tag''))"

fun decode_command :: "CommandFamilyCode \<Rightarrow> byte \<Rightarrow> (ScopeViolationError, ControlPlaneCommand) reader" where
  "decode_command CellDirectory sub_tag =
     rbind (decode_cell_directory sub_tag) (\<lambda>c. rret (CellDirectoryMutation c))"
| "decode_command RootLeasePool sub_tag =
     rbind (decode_root_lease_pool sub_tag) (\<lambda>c. rret (RootLeasePoolMutation c))"
| "decode_command TaskAuthorityShard sub_tag =
     rbind (decode_task_authority sub_tag) (\<lambda>c. rret (TaskAuthorityShardMutation c))"
| "decode_command ControlPlaneAudit sub_tag =
     rbind (decode_audit sub_tag) (\<lambda>c. rret (ControlPlaneAuditAnchor c))"

definition decode_command_body ::
  "CommandFamilyCode \<Rightarrow> IdempotencyKey \<Rightarrow> byte list \<Rightarrow> (ScopeViolationError, ControlPlaneProposal) result" where
  "decode_command_body family key body =
     (case rbind read_u8 (decode_command family) (cursor_new body) of
        Inl e \<Rightarrow> Inl e
      | Inr (cmd, cursor) \<Rightarrow>
          if \<not> cursor_is_empty cursor then Inl TrailingBytes
          else Inr \<lparr>idempotency_key = key, command = cmd\<rparr>)"

section \<open>The wire frame\<close>

definition WIRE_MAGIC :: "byte list" where
  "WIRE_MAGIC = ascii ''NLOSCP01''"

definition encode_wire :: "sha256_fn \<Rightarrow> ControlPlaneProposal \<Rightarrow> byte list" where
  "encode_wire sha p =
     (let body = encode_command_body p;
          frame = WIRE_MAGIC @ [family_as_u8 (family_code (command p))] @
            to_be (idempotency_key p) @ to_be (of_nat (length body) :: u32) @ body
      in frame @ to_be (sha frame))"

definition decode_wire :: "sha256_fn \<Rightarrow> byte list \<Rightarrow> (ScopeViolationError, ControlPlaneProposal) result" where
  "decode_wire sha bytes =
     (if length bytes < 8 + 1 + 16 + 4 + 32 then Inl TruncatedPayload
      else if take 8 bytes \<noteq> WIRE_MAGIC then Inl MalformedWireHeader
      else case from_wire_tag (bytes ! 8) of
        Inl rej \<Rightarrow> Inl (ScopeRejectDataPlanePayload rej)
      | Inr family \<Rightarrow>
          let payload_end = length bytes - 32
          in if drop payload_end bytes \<noteq> to_be (sha (take payload_end bytes))
             then Inl PayloadChecksumMismatch
             else let key = from_be (take 16 (drop 9 bytes));
                      body_len = unat (from_be (take 4 (drop 25 bytes)) :: u32)
                  in if 29 + body_len \<noteq> payload_end then Inl TrailingBytes
                     else decode_command_body family key (drop 29 (take payload_end bytes)))"

definition encode_forbidden_data_plane_wire_probe ::
  "sha256_fn \<Rightarrow> ForbiddenDataPlaneKind \<Rightarrow> IdempotencyKey \<Rightarrow> byte list \<Rightarrow> byte list" where
  "encode_forbidden_data_plane_wire_probe sha kind key raw_body =
     (let len_u32 = (if length raw_body < 2 ^ 32 then of_nat (length raw_body) else - 1 :: u32);
          frame = WIRE_MAGIC @ [forbidden_wire_tag kind] @ to_be key @ to_be len_u32 @ raw_body
      in frame @ to_be (sha frame))"

end
