(* ===== verification/ControlPlane.thy ===== *)
theory ControlPlane
  imports BTree Commands
begin

text \<open>
  The replicated control-plane state machine of \<open>nlos-consensus/src/state_machine.rs\<close>: the
  materialized records, \<open>ControlPlaneStateMachine\<close> with its twelve tables, and
  \<open>apply_committed_entry\<close> with one definition per command.

  A command handler returns the new state and the rejection, if any. \<open>assert!\<close> and
  \<open>expect\<close> are the values of \<open>ApplyPanic\<close>, so that not panicking is a theorem.
\<close>

section \<open>Materialized records\<close>

record ReplicatedCellDirectoryEntry =
  ce_cell :: CellIdentity
  ce_control_domain_id :: ControlDomainId
  ce_principal_id :: PrincipalId
  ce_node_boot_generation :: Generation
  ce_epoch :: CellEpoch
  ce_heartbeat_seq :: u64
  ce_endpoint_hint :: "SocketAddr option"
  ce_decommissioned :: bool
  ce_updated_at_commit_index :: NonZeroU64

record ReplicatedQuotaLeaseEntry =
  ql_lease_id :: QuotaLeaseId
  ql_budget_root :: bytes16
  ql_holder_cell :: CellIdentity
  ql_node_boot_generation :: Generation
  ql_face_value :: u64
  ql_returned_amount :: u64
  ql_quarantined_amount :: u64
  ql_epoch :: CellEpoch
  ql_fencing_token :: CellFencingToken
  ql_fence_scope :: bytes16
  ql_disposition :: QuotaLeaseDisposition
  ql_committed_at_index :: NonZeroU64

record ReplicatedCapacityLeaseEntry =
  cl_capacity_lease_id :: CapacityLeaseId
  cl_pool_id :: bytes16
  cl_target_cell :: CellIdentity
  cl_target_boot_generation :: Generation
  cl_amount :: u64
  cl_capacity_epoch :: NonZeroU64
  cl_fencing_token :: CellFencingToken
  cl_committed_at_index :: NonZeroU64

record ReplicatedDeviceHeadEntry =
  dh_device_id :: DeviceId
  dh_device_lease_id :: ExclusiveDeviceLeaseId
  dh_exclusivity_epoch :: NonZeroU64
  dh_holder_cell :: "CellIdentity option"
  dh_fencing_token :: CellFencingToken
  dh_state :: DeviceHeadState
  dh_committed_at_index :: NonZeroU64

record CommittedTaskAuthorityAssignment =
  ta_assignment_id :: TaskAuthorityAssignmentId
  ta_task_id :: TaskId
  ta_task_generation :: Generation
  ta_authority_shard :: bytes16
  ta_home_cell :: CellIdentity
  ta_authority_term :: NonZeroU64
  ta_control_epoch :: u64
  ta_participant_registry_generation :: u64
  ta_participant_registry_root :: bytes32
  ta_consensus_commit_index :: NonZeroU64
  ta_consensus_term :: NonZeroU64

record CommittedTaskAuthorityTakeover =
  tk_takeover_receipt_id :: ReceiptId
  tk_task_id :: TaskId
  tk_task_generation :: Generation
  tk_old_assignment_id :: TaskAuthorityAssignmentId
  tk_new_assignment_id :: TaskAuthorityAssignmentId
  tk_frozen_old_authority_term :: NonZeroU64
  tk_new_authority_term :: NonZeroU64
  tk_new_home_cell :: CellIdentity
  tk_new_control_epoch :: u64
  tk_exact_fence_set_root :: bytes32
  tk_outstanding_effect_quarantine_root :: "bytes32 option"
  tk_consensus_commit_index :: NonZeroU64
  tk_consensus_term :: NonZeroU64

record ReplicatedMigrationAnchor =
  ma_intent_id :: bytes16
  ma_source_cell :: CellIdentity
  ma_target_cell :: CellIdentity
  ma_epoch :: CellEpoch
  ma_intent_digest :: bytes32
  ma_consensus_commit_index :: NonZeroU64

record ReplicatedCheckpointAnchor =
  ck_cell :: CellIdentity
  ck_node_boot_generation :: Generation
  ck_epoch :: CellEpoch
  ck_checkpoint_seq :: NonZeroU64
  ck_checkpoint_digest :: bytes32
  ck_consensus_commit_index :: NonZeroU64

datatype ControlPlaneDomainRejection =
    IdempotencyKeyPayloadConflict
  | StaleCellRoutingVersion
  | StaleTrustPolicyEpoch
  | InsufficientOrInvalidPoolBalance
  | NonMonotonicFencingToken
  | InvalidLeaseSettlement
  | DeviceExclusivityViolation
  | TaskAuthorityCasConflict
  | AuditAnchorConflict

datatype AppliedProposalOutcome =
    Applied NonZeroU64 bool \<comment> \<open>commit index, idempotent replay\<close>
  | DomainRejected NonZeroU64 ControlPlaneDomainRejection

record DedupRecord =
  dr_proposal_digest :: bytes32
  dr_committed_index :: NonZeroU64
  dr_rejection :: "ControlPlaneDomainRejection option"

record QuotaPoolBalance =
  qp_available :: u64
  qp_leased_active :: u64
  qp_quarantined :: u64

record CapacityPoolBalance =
  cp_total_capacity :: u64
  cp_committed :: u64

section \<open>The state machine\<close>

record ControlPlaneStateMachine =
  last_applied_index :: u64
  last_applied_term :: u64
  authority_receipt_high_water :: u64
  trust_policy_epoch :: u64
  trust_policy_digest :: bytes32
  cells :: "(CellIdentity, ReplicatedCellDirectoryEntry) btree"
  quota_pools :: "(bytes16, QuotaPoolBalance) btree"
  quota_leases :: "(QuotaLeaseId, ReplicatedQuotaLeaseEntry) btree"
  capacity_pools :: "(bytes16, CapacityPoolBalance) btree"
  capacity_leases :: "(CapacityLeaseId, ReplicatedCapacityLeaseEntry) btree"
  device_heads :: "(DeviceId, ReplicatedDeviceHeadEntry) btree"
  fence_scope_high_water :: "(bytes16, CellFencingToken) btree"
  task_shards :: "(TaskId \<times> Generation, CommittedTaskAuthorityAssignment) btree"
  takeover_receipts :: "(ReceiptId, CommittedTaskAuthorityTakeover) btree"
  migration_anchors :: "(bytes16, ReplicatedMigrationAnchor) btree"
  checkpoint_anchors :: "(CellIdentity \<times> u64, ReplicatedCheckpointAnchor) btree"
  dedup_table :: "(IdempotencyKey, DedupRecord) btree"

definition sm_new :: ControlPlaneStateMachine where
  "sm_new = \<lparr>last_applied_index = 0, last_applied_term = 0, authority_receipt_high_water = 0,
     trust_policy_epoch = 0, trust_policy_digest = 0, cells = [], quota_pools = [],
     quota_leases = [], capacity_pools = [], capacity_leases = [], device_heads = [],
     fence_scope_high_water = [], task_shards = [], takeover_receipts = [],
     migration_anchors = [], checkpoint_anchors = [], dedup_table = []\<rparr>"

definition cell_entry :: "ControlPlaneStateMachine \<Rightarrow> CellIdentity \<Rightarrow> ReplicatedCellDirectoryEntry option" where
  "cell_entry s cell = bt_get (cells s) cell"

definition quota_pool_available :: "ControlPlaneStateMachine \<Rightarrow> bytes16 \<Rightarrow> u64 option" where
  "quota_pool_available s root = map_option qp_available (bt_get (quota_pools s) root)"

definition quota_pool_quarantined :: "ControlPlaneStateMachine \<Rightarrow> bytes16 \<Rightarrow> u64 option" where
  "quota_pool_quarantined s root = map_option qp_quarantined (bt_get (quota_pools s) root)"

definition quota_lease :: "ControlPlaneStateMachine \<Rightarrow> QuotaLeaseId \<Rightarrow> ReplicatedQuotaLeaseEntry option" where
  "quota_lease s lease_id = bt_get (quota_leases s) lease_id"

definition device_head :: "ControlPlaneStateMachine \<Rightarrow> DeviceId \<Rightarrow> ReplicatedDeviceHeadEntry option" where
  "device_head s device = bt_get (device_heads s) device"

definition task_authority_assignment ::
  "ControlPlaneStateMachine \<Rightarrow> TaskId \<Rightarrow> Generation \<Rightarrow> CommittedTaskAuthorityAssignment option" where
  "task_authority_assignment s task gen = bt_get (task_shards s) (task, gen)"

definition takeover_receipt ::
  "ControlPlaneStateMachine \<Rightarrow> ReceiptId \<Rightarrow> CommittedTaskAuthorityTakeover option" where
  "takeover_receipt s receipt = bt_get (takeover_receipts s) receipt"

definition migration_anchor ::
  "ControlPlaneStateMachine \<Rightarrow> bytes16 \<Rightarrow> ReplicatedMigrationAnchor option" where
  "migration_anchor s intent = bt_get (migration_anchors s) intent"

definition checkpoint_anchor ::
  "ControlPlaneStateMachine \<Rightarrow> CellIdentity \<Rightarrow> u64 \<Rightarrow> ReplicatedCheckpointAnchor option" where
  "checkpoint_anchor s cell seq = bt_get (checkpoint_anchors s) (cell, seq)"

section \<open>Command handlers\<close>

type_synonym handler_result = "ControlPlaneStateMachine \<times> ControlPlaneDomainRejection option"

datatype ApplyPanic =
    LogIndexNotIncreasing \<comment> \<open>\<open>assert!(log_index.get() > self.last_applied_index)\<close>\<close>
  | BudgetRootMissing \<comment> \<open>\<open>expect("registered budget_root")\<close>\<close>

subsection \<open>Cell directory\<close>

fun apply_cell_directory ::
  "NonZeroU64 \<Rightarrow> CellDirectoryCommand \<Rightarrow> ControlPlaneStateMachine \<Rightarrow> handler_result" where
  "apply_cell_directory log_index
     (UpsertCellEndpoint cell domain principal_id boot_gen epoch hb hint) s =
     (if (case bt_get (cells s) cell of
            Some prev \<Rightarrow> ce_decommissioned prev \<or>
              (boot_gen, epoch, hb) \<le>
                (ce_node_boot_generation prev, ce_epoch prev, ce_heartbeat_seq prev)
          | None \<Rightarrow> False)
      then (s, Some StaleCellRoutingVersion)
      else (s\<lparr>cells := bt_insert cell
              \<lparr>ce_cell = cell, ce_control_domain_id = domain, ce_principal_id = principal_id,
               ce_node_boot_generation = boot_gen, ce_epoch = epoch, ce_heartbeat_seq = hb,
               ce_endpoint_hint = hint, ce_decommissioned = False,
               ce_updated_at_commit_index = log_index\<rparr> (cells s)\<rparr>, None))"
| "apply_cell_directory log_index (AdvanceTrustPolicyEpoch new_trust_epoch policy_digest) s =
     (if new_trust_epoch \<le> trust_policy_epoch s then (s, Some StaleTrustPolicyEpoch)
      else (s\<lparr>trust_policy_epoch := new_trust_epoch, trust_policy_digest := policy_digest\<rparr>, None))"
| "apply_cell_directory log_index (DecommissionCell cell fenced_epoch) s =
     (case bt_get (cells s) cell of
        None \<Rightarrow> (s, Some StaleCellRoutingVersion)
      | Some entry \<Rightarrow>
          if fenced_epoch < ce_epoch entry then (s, Some StaleCellRoutingVersion)
          else (s\<lparr>cells := bt_insert cell (entry\<lparr>ce_epoch := fenced_epoch, ce_endpoint_hint := None,
                  ce_decommissioned := True, ce_updated_at_commit_index := log_index\<rparr>) (cells s)\<rparr>,
                None))"

subsection \<open>Root lease pools\<close>

definition apply_register_quota_pool ::
  "bytes16 \<Rightarrow> u64 \<Rightarrow> ControlPlaneStateMachine \<Rightarrow> handler_result" where
  "apply_register_quota_pool budget_root initial s =
     (if bt_contains (quota_pools s) budget_root
      then (s, Some InsufficientOrInvalidPoolBalance)
      else (s\<lparr>quota_pools := bt_insert budget_root
              \<lparr>qp_available = initial, qp_leased_active = 0, qp_quarantined = 0\<rparr>
              (quota_pools s)\<rparr>, None))"

definition token_stale :: "ControlPlaneStateMachine \<Rightarrow> bytes16 \<Rightarrow> CellFencingToken \<Rightarrow> bool" where
  "token_stale s scope token =
     (case bt_get (fence_scope_high_water s) scope of
        Some prev_tok \<Rightarrow> token \<le> prev_tok | None \<Rightarrow> False)"

definition apply_allocate_quota_lease ::
  "NonZeroU64 \<Rightarrow> QuotaLeaseId \<Rightarrow> bytes16 \<Rightarrow> CellIdentity \<Rightarrow> Generation \<Rightarrow> u64 \<Rightarrow> CellEpoch \<Rightarrow>
   CellFencingToken \<Rightarrow> bytes16 \<Rightarrow> ControlPlaneStateMachine \<Rightarrow> handler_result" where
  "apply_allocate_quota_lease log_index lease_id budget_root holder boot_gen face epoch token
     scope s =
     (if bt_contains (quota_leases s) lease_id \<or> face = 0
      then (s, Some InsufficientOrInvalidPoolBalance)
      else if token_stale s scope token then (s, Some NonMonotonicFencingToken)
      else case bt_get (quota_pools s) budget_root of
        None \<Rightarrow> (s, Some InsufficientOrInvalidPoolBalance)
      | Some pool \<Rightarrow>
          if qp_available pool < face then (s, Some InsufficientOrInvalidPoolBalance)
          else
            let pool' = pool\<lparr>qp_available := qp_available pool - face,
                  qp_leased_active := saturating_add (qp_leased_active pool) face\<rparr>
            in (s\<lparr>quota_pools := bt_insert budget_root pool' (quota_pools s),
                  fence_scope_high_water := bt_insert scope token (fence_scope_high_water s),
                  quota_leases := bt_insert lease_id
                    \<lparr>ql_lease_id = lease_id, ql_budget_root = budget_root,
                     ql_holder_cell = holder, ql_node_boot_generation = boot_gen,
                     ql_face_value = face, ql_returned_amount = 0, ql_quarantined_amount = 0,
                     ql_epoch = epoch, ql_fencing_token = token, ql_fence_scope = scope,
                     ql_disposition = LeaseActive, ql_committed_at_index = log_index\<rparr>
                    (quota_leases s)\<rparr>, None))"

definition apply_settle_quota_lease ::
  "NonZeroU64 \<Rightarrow> QuotaLeaseId \<Rightarrow> QuotaLeaseDisposition \<Rightarrow> u64 \<Rightarrow> u64 \<Rightarrow> CellEpoch \<Rightarrow>
   CellFencingToken \<Rightarrow> ControlPlaneStateMachine \<Rightarrow> (ApplyPanic, handler_result) result" where
  "apply_settle_quota_lease log_index lease_id disposition returned quarantined new_epoch
     new_token s =
     (case bt_get (quota_leases s) lease_id of
        None \<Rightarrow> Inr (s, Some InvalidLeaseSettlement)
      | Some existing \<Rightarrow>
          if ql_disposition existing \<noteq> LeaseActive \<or> disposition = LeaseActive
          then Inr (s, Some InvalidLeaseSettlement)
          else if new_epoch < ql_epoch existing then Inr (s, Some InvalidLeaseSettlement)
          else if token_stale s (ql_fence_scope existing) new_token
          then Inr (s, Some NonMonotonicFencingToken)
          else case checked_add returned quarantined of
            None \<Rightarrow> Inr (s, Some InvalidLeaseSettlement)
          | Some total_accounted \<Rightarrow>
              if total_accounted > ql_face_value existing
              then Inr (s, Some InvalidLeaseSettlement)
              else if disposition = LeaseQuarantined \<and> returned \<noteq> 0
              then Inr (s, Some InvalidLeaseSettlement)
              else case bt_get (quota_pools s) (ql_budget_root existing) of
                None \<Rightarrow> Inl BudgetRootMissing
              | Some pool \<Rightarrow>
                  let pool' = pool
                    \<lparr>qp_leased_active := saturating_sub (qp_leased_active pool) (ql_face_value existing),
                     qp_available := saturating_add (qp_available pool) returned,
                     qp_quarantined := saturating_add (qp_quarantined pool) quarantined\<rparr>
                  in Inr (s\<lparr>quota_pools := bt_insert (ql_budget_root existing) pool' (quota_pools s),
                       fence_scope_high_water :=
                         bt_insert (ql_fence_scope existing) new_token (fence_scope_high_water s),
                       quota_leases := bt_insert lease_id
                         (existing\<lparr>ql_disposition := disposition, ql_returned_amount := returned,
                           ql_quarantined_amount := quarantined, ql_epoch := new_epoch,
                           ql_fencing_token := new_token, ql_committed_at_index := log_index\<rparr>)
                         (quota_leases s)\<rparr>, None))"

definition apply_allocate_capacity_lease ::
  "NonZeroU64 \<Rightarrow> CapacityLeaseId \<Rightarrow> bytes16 \<Rightarrow> u64 \<Rightarrow> CellIdentity \<Rightarrow> Generation \<Rightarrow> u64 \<Rightarrow>
   NonZeroU64 \<Rightarrow> CellFencingToken \<Rightarrow> ControlPlaneStateMachine \<Rightarrow> handler_result" where
  "apply_allocate_capacity_lease log_index lease_id pool_id pool_total target boot_gen amount
     capacity_epoch token s =
     (if bt_contains (capacity_leases s) lease_id \<or> amount = 0
      then (s, Some InsufficientOrInvalidPoolBalance)
      else
        let pool = (case bt_get (capacity_pools s) pool_id of
              Some p \<Rightarrow> p | None \<Rightarrow> \<lparr>cp_total_capacity = pool_total, cp_committed = 0\<rparr>);
            s1 = (if bt_contains (capacity_pools s) pool_id then s
              else s\<lparr>capacity_pools := bt_insert pool_id pool (capacity_pools s)\<rparr>)
        in if cp_total_capacity pool \<noteq> pool_total
           then (s1, Some InsufficientOrInvalidPoolBalance)
           else case checked_add (cp_committed pool) amount of
             None \<Rightarrow> (s1, Some InsufficientOrInvalidPoolBalance)
           | Some new_committed \<Rightarrow>
               if new_committed > cp_total_capacity pool
               then (s1, Some InsufficientOrInvalidPoolBalance)
               else (s1\<lparr>capacity_pools := bt_insert pool_id (pool\<lparr>cp_committed := new_committed\<rparr>)
                         (capacity_pools s1),
                       capacity_leases := bt_insert lease_id
                         \<lparr>cl_capacity_lease_id = lease_id, cl_pool_id = pool_id,
                          cl_target_cell = target, cl_target_boot_generation = boot_gen,
                          cl_amount = amount, cl_capacity_epoch = capacity_epoch,
                          cl_fencing_token = token, cl_committed_at_index = log_index\<rparr>
                         (capacity_leases s1)\<rparr>, None))"

fun device_transition_allowed :: "DeviceHeadState \<Rightarrow> DeviceHeadState \<Rightarrow> bool \<Rightarrow> bool" where
  "device_transition_allowed DeviceFree DeviceActive has_proof = True"
| "device_transition_allowed DeviceActive DeviceQuarantined has_proof = True"
| "device_transition_allowed DeviceActive DeviceFree has_proof = has_proof"
| "device_transition_allowed DeviceQuarantined DeviceFree has_proof = has_proof"
| "device_transition_allowed _ _ has_proof = False"

definition apply_device_transition ::
  "NonZeroU64 \<Rightarrow> DeviceId \<Rightarrow> ExclusiveDeviceLeaseId \<Rightarrow> NonZeroU64 \<Rightarrow> CellIdentity option \<Rightarrow>
   CellFencingToken \<Rightarrow> DeviceHeadState \<Rightarrow> bool \<Rightarrow> ControlPlaneStateMachine \<Rightarrow> handler_result" where
  "apply_device_transition log_index device lease_id epoch holder token new_state has_proof s =
     (if new_state = DeviceActive \<and> holder = None then (s, Some DeviceExclusivityViolation)
      else if new_state \<noteq> DeviceActive \<and> holder \<noteq> None then (s, Some DeviceExclusivityViolation)
      else if (case bt_get (device_heads s) device of
          Some prev \<Rightarrow> epoch \<le> dh_exclusivity_epoch prev \<or> token \<le> dh_fencing_token prev \<or>
            \<not> device_transition_allowed (dh_state prev) new_state has_proof
        | None \<Rightarrow> new_state \<noteq> DeviceActive)
      then (s, Some DeviceExclusivityViolation)
      else (s\<lparr>device_heads := bt_insert device
              \<lparr>dh_device_id = device, dh_device_lease_id = lease_id,
               dh_exclusivity_epoch = epoch, dh_holder_cell = holder,
               dh_fencing_token = token, dh_state = new_state,
               dh_committed_at_index = log_index\<rparr> (device_heads s)\<rparr>, None))"

fun apply_root_lease_pool ::
  "NonZeroU64 \<Rightarrow> RootLeasePoolCommand \<Rightarrow> ControlPlaneStateMachine \<Rightarrow> (ApplyPanic, handler_result) result" where
  "apply_root_lease_pool log_index (RegisterQuotaPool budget_root initial) s =
     Inr (apply_register_quota_pool budget_root initial s)"
| "apply_root_lease_pool log_index (AllocateQuotaLease lease_id budget_root holder boot_gen face
     epoch token scope) s =
     Inr (apply_allocate_quota_lease log_index lease_id budget_root holder boot_gen face epoch
       token scope s)"
| "apply_root_lease_pool log_index (SettleOrQuarantineQuotaLease lease_id disposition returned
     quarantined new_epoch new_token) s =
     apply_settle_quota_lease log_index lease_id disposition returned quarantined new_epoch
       new_token s"
| "apply_root_lease_pool log_index (AllocateCapacityLease lease_id pool_id pool_total target
     boot_gen amount capacity_epoch token) s =
     Inr (apply_allocate_capacity_lease log_index lease_id pool_id pool_total target boot_gen
       amount capacity_epoch token s)"
| "apply_root_lease_pool log_index (TransitionExclusiveDeviceHead device lease_id epoch holder
     token new_state has_proof) s =
     Inr (apply_device_transition log_index device lease_id epoch holder token new_state
       has_proof s)"

subsection \<open>Task authority shards\<close>

fun apply_task_authority ::
  "NonZeroU64 \<Rightarrow> NonZeroU64 \<Rightarrow> TaskAuthorityShardCommand \<Rightarrow> ControlPlaneStateMachine \<Rightarrow> handler_result" where
  "apply_task_authority log_index cterm (AssignInitialAuthority assignment task gen shard home
     auth_term control_epoch registry_gen registry_root) s =
     (if bt_contains (task_shards s) (task, gen) then (s, Some TaskAuthorityCasConflict)
      else (s\<lparr>task_shards := bt_insert (task, gen)
              \<lparr>ta_assignment_id = assignment, ta_task_id = task, ta_task_generation = gen,
               ta_authority_shard = shard, ta_home_cell = home, ta_authority_term = auth_term,
               ta_control_epoch = control_epoch,
               ta_participant_registry_generation = registry_gen,
               ta_participant_registry_root = registry_root,
               ta_consensus_commit_index = log_index, ta_consensus_term = cterm\<rparr>
              (task_shards s)\<rparr>, None))"
| "apply_task_authority log_index cterm (RecordCompletedTakeover receipt task gen old_assignment
     new_assignment old_term new_term new_home new_epoch new_registry_gen new_registry_root
     fence_root effect_root) s =
     (if bt_contains (takeover_receipts s) receipt \<or> new_term \<le> old_term \<or>
         old_assignment = new_assignment
      then (s, Some TaskAuthorityCasConflict)
      else case bt_get (task_shards s) (task, gen) of
        None \<Rightarrow> (s, Some TaskAuthorityCasConflict)
      | Some current \<Rightarrow>
          if ta_assignment_id current \<noteq> old_assignment \<or> ta_authority_term current \<noteq> old_term \<or>
             new_epoch \<le> ta_control_epoch current \<or>
             new_registry_gen \<le> ta_participant_registry_generation current
          then (s, Some TaskAuthorityCasConflict)
          else (s\<lparr>task_shards := bt_insert (task, gen)
                  \<lparr>ta_assignment_id = new_assignment, ta_task_id = task, ta_task_generation = gen,
                   ta_authority_shard = ta_authority_shard current, ta_home_cell = new_home,
                   ta_authority_term = new_term, ta_control_epoch = new_epoch,
                   ta_participant_registry_generation = new_registry_gen,
                   ta_participant_registry_root = new_registry_root,
                   ta_consensus_commit_index = log_index, ta_consensus_term = cterm\<rparr>
                  (task_shards s),
                takeover_receipts := bt_insert receipt
                  \<lparr>tk_takeover_receipt_id = receipt, tk_task_id = task, tk_task_generation = gen,
                   tk_old_assignment_id = old_assignment, tk_new_assignment_id = new_assignment,
                   tk_frozen_old_authority_term = old_term, tk_new_authority_term = new_term,
                   tk_new_home_cell = new_home, tk_new_control_epoch = new_epoch,
                   tk_exact_fence_set_root = fence_root,
                   tk_outstanding_effect_quarantine_root = effect_root,
                   tk_consensus_commit_index = log_index, tk_consensus_term = cterm\<rparr>
                  (takeover_receipts s)\<rparr>, None))"

subsection \<open>Audit anchors\<close>

fun apply_audit ::
  "NonZeroU64 \<Rightarrow> ControlPlaneAuditCommand \<Rightarrow> ControlPlaneStateMachine \<Rightarrow> handler_result" where
  "apply_audit log_index (AnchorMigrationIntent intent source target epoch digest) s =
     (if bt_contains (migration_anchors s) intent \<or> source = target
      then (s, Some AuditAnchorConflict)
      else (s\<lparr>migration_anchors := bt_insert intent
              \<lparr>ma_intent_id = intent, ma_source_cell = source, ma_target_cell = target,
               ma_epoch = epoch, ma_intent_digest = digest,
               ma_consensus_commit_index = log_index\<rparr> (migration_anchors s)\<rparr>, None))"
| "apply_audit log_index (AnchorReconciliationCheckpoint cell boot_gen epoch seq digest) s =
     (if bt_contains (checkpoint_anchors s) (cell, seq) then (s, Some AuditAnchorConflict)
      else if seq > 1 \<and>
        (case bt_get (checkpoint_anchors s) (cell, seq - 1) of
           Some prev \<Rightarrow> (boot_gen, epoch) < (ck_node_boot_generation prev, ck_epoch prev)
         | None \<Rightarrow> False)
      then (s, Some AuditAnchorConflict)
      else (s\<lparr>checkpoint_anchors := bt_insert (cell, seq)
              \<lparr>ck_cell = cell, ck_node_boot_generation = boot_gen, ck_epoch = epoch,
               ck_checkpoint_seq = seq, ck_checkpoint_digest = digest,
               ck_consensus_commit_index = log_index\<rparr> (checkpoint_anchors s)\<rparr>, None))"

section \<open>Applying a committed entry\<close>

fun apply_inner ::
  "NonZeroU64 \<Rightarrow> NonZeroU64 \<Rightarrow> ControlPlaneCommand \<Rightarrow> ControlPlaneStateMachine \<Rightarrow>
   (ApplyPanic, handler_result) result" where
  "apply_inner log_index cterm (CellDirectoryMutation cmd) s = Inr (apply_cell_directory log_index cmd s)"
| "apply_inner log_index cterm (RootLeasePoolMutation cmd) s = apply_root_lease_pool log_index cmd s"
| "apply_inner log_index cterm (TaskAuthorityShardMutation cmd) s =
     Inr (apply_task_authority log_index cterm cmd s)"
| "apply_inner log_index cterm (ControlPlaneAuditAnchor cmd) s = Inr (apply_audit log_index cmd s)"

definition apply_committed_entry ::
  "sha256_fn \<Rightarrow> NonZeroU64 \<Rightarrow> NonZeroU64 \<Rightarrow> ControlPlaneProposal \<Rightarrow> ControlPlaneStateMachine \<Rightarrow>
   (ApplyPanic, ControlPlaneStateMachine \<times> AppliedProposalOutcome) result" where
  "apply_committed_entry sha log_index cterm p s0 =
     (if \<not> log_index > last_applied_index s0 then Inl LogIndexNotIncreasing
      else
        let s = s0\<lparr>last_applied_index := log_index, last_applied_term := cterm\<rparr>;
            prop_digest = proposal_digest sha p
        in case bt_get (dedup_table s) (idempotency_key p) of
             Some existing \<Rightarrow>
               if dr_proposal_digest existing = prop_digest
               then Inr (s, case dr_rejection existing of
                   None \<Rightarrow> Applied (dr_committed_index existing) True
                 | Some reason \<Rightarrow> DomainRejected (dr_committed_index existing) reason)
               else Inr (s, DomainRejected log_index IdempotencyKeyPayloadConflict)
           | None \<Rightarrow>
               result_bind (apply_inner log_index cterm (command p) s) (\<lambda>(s1, rejection).
                 let s2 = s1\<lparr>dedup_table := bt_insert (idempotency_key p)
                       \<lparr>dr_proposal_digest = prop_digest, dr_committed_index = log_index,
                        dr_rejection = rejection\<rparr> (dedup_table s1)\<rparr>
                 in case rejection of
                      None \<Rightarrow> Inr (s2\<lparr>authority_receipt_high_water :=
                          saturating_add (authority_receipt_high_water s2) 1\<rparr>,
                        Applied log_index False)
                    | Some reason \<Rightarrow> Inr (s2, DomainRejected log_index reason)))"

end
