(* ===== verification/Snapshot.thy ===== *)
theory Snapshot
  imports ControlPlane
begin

text \<open>
  The canonical state body, the state root digest and the self-verifying snapshot of
  \<open>nlos-consensus/src/state_machine.rs\<close>. Each table is a count followed by its rows in key
  order; the decoder inserts the rows it reads into an empty map. \<open>None\<close> from an encoder is
  the \<open>expect\<close> on a length that does not fit \<open>u32\<close>.
\<close>

section \<open>Errors and tagged values\<close>

datatype SnapshotCodecError =
    InvalidMagic
  | SnapTruncated
  | SnapTrailingBytes
  | CorruptField string
  | ChecksumMismatch

fun rejection_as_u8 :: "ControlPlaneDomainRejection \<Rightarrow> byte" where
  "rejection_as_u8 IdempotencyKeyPayloadConflict = 1"
| "rejection_as_u8 StaleCellRoutingVersion = 2"
| "rejection_as_u8 StaleTrustPolicyEpoch = 3"
| "rejection_as_u8 InsufficientOrInvalidPoolBalance = 4"
| "rejection_as_u8 NonMonotonicFencingToken = 5"
| "rejection_as_u8 InvalidLeaseSettlement = 6"
| "rejection_as_u8 DeviceExclusivityViolation = 7"
| "rejection_as_u8 TaskAuthorityCasConflict = 8"
| "rejection_as_u8 AuditAnchorConflict = 9"

definition rejection_from_u8 :: "byte \<Rightarrow> ControlPlaneDomainRejection option" where
  "rejection_from_u8 v =
     (if v = 1 then Some IdempotencyKeyPayloadConflict
      else if v = 2 then Some StaleCellRoutingVersion
      else if v = 3 then Some StaleTrustPolicyEpoch
      else if v = 4 then Some InsufficientOrInvalidPoolBalance
      else if v = 5 then Some NonMonotonicFencingToken
      else if v = 6 then Some InvalidLeaseSettlement
      else if v = 7 then Some DeviceExclusivityViolation
      else if v = 8 then Some TaskAuthorityCasConflict
      else if v = 9 then Some AuditAnchorConflict else None)"

section \<open>Row encoders\<close>

definition encode_cell_row :: "CellIdentity \<times> ReplicatedCellDirectoryEntry \<Rightarrow> byte list" where
  "encode_cell_row = (\<lambda>(_, e). to_be (ce_cell e) @ to_be (ce_control_domain_id e) @
     to_be (ce_principal_id e) @ to_be (ce_node_boot_generation e) @ to_be (ce_epoch e) @
     to_be (ce_heartbeat_seq e) @ encode_socket_addr_opt (ce_endpoint_hint e) @
     bool_u8 (ce_decommissioned e) # to_be (ce_updated_at_commit_index e))"

definition encode_quota_pool_row :: "bytes16 \<times> QuotaPoolBalance \<Rightarrow> byte list" where
  "encode_quota_pool_row = (\<lambda>(root, p). to_be root @ to_be (qp_available p) @
     to_be (qp_leased_active p) @ to_be (qp_quarantined p))"

definition encode_quota_lease_row :: "QuotaLeaseId \<times> ReplicatedQuotaLeaseEntry \<Rightarrow> byte list" where
  "encode_quota_lease_row = (\<lambda>(_, l). to_be (ql_lease_id l) @ to_be (ql_budget_root l) @
     to_be (ql_holder_cell l) @ to_be (ql_node_boot_generation l) @ to_be (ql_face_value l) @
     to_be (ql_returned_amount l) @ to_be (ql_quarantined_amount l) @ to_be (ql_epoch l) @
     to_be (ql_fencing_token l) @ to_be (ql_fence_scope l) @
     disposition_as_u8 (ql_disposition l) # to_be (ql_committed_at_index l))"

definition encode_capacity_pool_row :: "bytes16 \<times> CapacityPoolBalance \<Rightarrow> byte list" where
  "encode_capacity_pool_row = (\<lambda>(pool_id, p). to_be pool_id @ to_be (cp_total_capacity p) @
     to_be (cp_committed p))"

definition encode_capacity_lease_row :: "CapacityLeaseId \<times> ReplicatedCapacityLeaseEntry \<Rightarrow> byte list" where
  "encode_capacity_lease_row = (\<lambda>(_, l). to_be (cl_capacity_lease_id l) @ to_be (cl_pool_id l) @
     to_be (cl_target_cell l) @ to_be (cl_target_boot_generation l) @ to_be (cl_amount l) @
     to_be (cl_capacity_epoch l) @ to_be (cl_fencing_token l) @ to_be (cl_committed_at_index l))"

definition encode_device_head_row :: "DeviceId \<times> ReplicatedDeviceHeadEntry \<Rightarrow> byte list" where
  "encode_device_head_row = (\<lambda>(_, d). to_be (dh_device_id d) @ to_be (dh_device_lease_id d) @
     to_be (dh_exclusivity_epoch d) @ encode_opt to_be (dh_holder_cell d) @
     to_be (dh_fencing_token d) @ device_state_as_u8 (dh_state d) #
     to_be (dh_committed_at_index d))"

definition encode_fence_scope_row :: "bytes16 \<times> CellFencingToken \<Rightarrow> byte list" where
  "encode_fence_scope_row = (\<lambda>(scope, tok). to_be scope @ to_be tok)"

definition encode_task_shard_row ::
  "(TaskId \<times> Generation) \<times> CommittedTaskAuthorityAssignment \<Rightarrow> byte list" where
  "encode_task_shard_row = (\<lambda>(_, a). to_be (ta_assignment_id a) @ to_be (ta_task_id a) @
     to_be (ta_task_generation a) @ to_be (ta_authority_shard a) @ to_be (ta_home_cell a) @
     to_be (ta_authority_term a) @ to_be (ta_control_epoch a) @
     to_be (ta_participant_registry_generation a) @ to_be (ta_participant_registry_root a) @
     to_be (ta_consensus_commit_index a) @ to_be (ta_consensus_term a))"

definition encode_takeover_row :: "ReceiptId \<times> CommittedTaskAuthorityTakeover \<Rightarrow> byte list" where
  "encode_takeover_row = (\<lambda>(_, r). to_be (tk_takeover_receipt_id r) @ to_be (tk_task_id r) @
     to_be (tk_task_generation r) @ to_be (tk_old_assignment_id r) @
     to_be (tk_new_assignment_id r) @ to_be (tk_frozen_old_authority_term r) @
     to_be (tk_new_authority_term r) @ to_be (tk_new_home_cell r) @
     to_be (tk_new_control_epoch r) @ to_be (tk_exact_fence_set_root r) @
     encode_opt to_be (tk_outstanding_effect_quarantine_root r) @
     to_be (tk_consensus_commit_index r) @ to_be (tk_consensus_term r))"

definition encode_migration_row :: "bytes16 \<times> ReplicatedMigrationAnchor \<Rightarrow> byte list" where
  "encode_migration_row = (\<lambda>(_, m). to_be (ma_intent_id m) @ to_be (ma_source_cell m) @
     to_be (ma_target_cell m) @ to_be (ma_epoch m) @ to_be (ma_intent_digest m) @
     to_be (ma_consensus_commit_index m))"

definition encode_checkpoint_row ::
  "(CellIdentity \<times> u64) \<times> ReplicatedCheckpointAnchor \<Rightarrow> byte list" where
  "encode_checkpoint_row = (\<lambda>(_, k). to_be (ck_cell k) @ to_be (ck_node_boot_generation k) @
     to_be (ck_epoch k) @ to_be (ck_checkpoint_seq k) @ to_be (ck_checkpoint_digest k) @
     to_be (ck_consensus_commit_index k))"

definition rejection_code :: "ControlPlaneDomainRejection option \<Rightarrow> byte" where
  "rejection_code r = (case r of None \<Rightarrow> 0 | Some reason \<Rightarrow> rejection_as_u8 reason)"

definition encode_dedup_row :: "IdempotencyKey \<times> DedupRecord \<Rightarrow> byte list" where
  "encode_dedup_row = (\<lambda>(key, r). to_be key @ to_be (dr_proposal_digest r) @
     to_be (dr_committed_index r) @
     [rejection_code (dr_rejection r)])"

section \<open>The canonical body, the state root and the snapshot\<close>

definition encode_len :: "nat \<Rightarrow> byte list" where
  "encode_len n = to_be (of_nat n :: u32)"

definition encode_table :: "('k \<times> 'v \<Rightarrow> byte list) \<Rightarrow> ('k, 'v) btree \<Rightarrow> byte list" where
  "encode_table enc_row m = encode_len (length m) @ concat (map enc_row m)"

definition tables_fit :: "ControlPlaneStateMachine \<Rightarrow> bool" where
  "tables_fit s \<longleftrightarrow>
     length (cells s) < 2 ^ 32 \<and> length (quota_pools s) < 2 ^ 32 \<and>
     length (quota_leases s) < 2 ^ 32 \<and> length (capacity_pools s) < 2 ^ 32 \<and>
     length (capacity_leases s) < 2 ^ 32 \<and> length (device_heads s) < 2 ^ 32 \<and>
     length (fence_scope_high_water s) < 2 ^ 32 \<and> length (task_shards s) < 2 ^ 32 \<and>
     length (takeover_receipts s) < 2 ^ 32 \<and> length (migration_anchors s) < 2 ^ 32 \<and>
     length (checkpoint_anchors s) < 2 ^ 32 \<and> length (dedup_table s) < 2 ^ 32"

definition canonical_bytes :: "ControlPlaneStateMachine \<Rightarrow> byte list" where
  "canonical_bytes s =
     to_be (last_applied_index s) @ to_be (last_applied_term s) @
     to_be (authority_receipt_high_water s) @ to_be (trust_policy_epoch s) @
     to_be (trust_policy_digest s) @
     encode_table encode_cell_row (cells s) @
     encode_table encode_quota_pool_row (quota_pools s) @
     encode_table encode_quota_lease_row (quota_leases s) @
     encode_table encode_capacity_pool_row (capacity_pools s) @
     encode_table encode_capacity_lease_row (capacity_leases s) @
     encode_table encode_device_head_row (device_heads s) @
     encode_table encode_fence_scope_row (fence_scope_high_water s) @
     encode_table encode_task_shard_row (task_shards s) @
     encode_table encode_takeover_row (takeover_receipts s) @
     encode_table encode_migration_row (migration_anchors s) @
     encode_table encode_checkpoint_row (checkpoint_anchors s) @
     encode_table encode_dedup_row (dedup_table s)"

definition encode_canonical_state_body :: "ControlPlaneStateMachine \<Rightarrow> byte list option" where
  "encode_canonical_state_body s = (if tables_fit s then Some (canonical_bytes s) else None)"

definition state_root_digest :: "sha256_fn \<Rightarrow> ControlPlaneStateMachine \<Rightarrow> bytes32 option" where
  "state_root_digest sha s =
     map_option (\<lambda>canonical. sha (ascii ''llmos/consensus/state-root/v1'' @
         to_be (of_nat (length canonical) :: u64) @ canonical))
       (encode_canonical_state_body s)"

definition SNAPSHOT_MAGIC :: "byte list" where
  "SNAPSHOT_MAGIC = ascii ''NLOSSN01''"

definition snapshot_checksum :: "sha256_fn \<Rightarrow> byte list \<Rightarrow> byte list" where
  "snapshot_checksum sha payload = to_be (sha (ascii ''llmos/consensus/state-snapshot/v1'' @ payload))"

definition encode_snapshot :: "sha256_fn \<Rightarrow> ControlPlaneStateMachine \<Rightarrow> byte list option" where
  "encode_snapshot sha s =
     (case (encode_canonical_state_body s, state_root_digest sha s) of
        (Some body, Some state_root) \<Rightarrow>
          if length body < 2 ^ 32
          then let out = SNAPSHOT_MAGIC @ to_be state_root @ to_be (of_nat (length body) :: u32) @ body
               in Some (out @ snapshot_checksum sha out)
          else None
      | _ \<Rightarrow> None)"

section \<open>Row readers\<close>

type_synonym 'a snap_reader = "(SnapshotCodecError, 'a) reader"

definition trunc :: "(ScopeViolationError, 'a) reader \<Rightarrow> 'a snap_reader" where
  "trunc rd = rmap_err (\<lambda>_. SnapTruncated) rd"

definition corrupt :: "string \<Rightarrow> (ScopeViolationError, 'a) reader \<Rightarrow> 'a snap_reader" where
  "corrupt field rd = rmap_err (\<lambda>_. CorruptField field) rd"

definition snap_via :: "(byte \<Rightarrow> 'a option) \<Rightarrow> string \<Rightarrow> 'a snap_reader" where
  "snap_via from_u8 field =
     rbind (trunc read_u8) (\<lambda>raw. case from_u8 raw of
       None \<Rightarrow> rfail (CorruptField field) | Some v \<Rightarrow> rret v)"

definition snap_option :: "string \<Rightarrow> (ScopeViolationError, 'a) reader \<Rightarrow> 'a option snap_reader" where
  "snap_option field rd =
     rbind (trunc read_u8) (\<lambda>t. if t = 0 then rret None
       else if t = 1 then rbind (trunc rd) (\<lambda>x. rret (Some x))
       else rfail (CorruptField field))"

definition read_bool :: "string \<Rightarrow> bool snap_reader" where
  "read_bool field =
     rbind (trunc read_u8) (\<lambda>v. if v = 0 then rret False else if v = 1 then rret True
       else rfail (CorruptField field))"

definition read_len :: "nat snap_reader" where
  "read_len = rbind (trunc (read_slice 4)) (\<lambda>raw. rret (unat (from_be raw :: u32)))"

definition read_cell_row :: "(CellIdentity \<times> ReplicatedCellDirectoryEntry) snap_reader" where
  "read_cell_row =
     rbind (corrupt ''cell'' read_cell_id) (\<lambda>cell. rbind (trunc read_16) (\<lambda>domain.
     rbind (trunc read_16) (\<lambda>principal_id.
     rbind (corrupt ''boot_gen'' (read_generation ''boot_gen'')) (\<lambda>boot_gen.
     rbind (corrupt ''epoch'' (read_cell_epoch ''epoch'')) (\<lambda>epoch.
     rbind (trunc read_u64) (\<lambda>hb. rbind (corrupt ''endpoint_hint'' read_socket_addr_opt) (\<lambda>hint.
     rbind (read_bool ''decommissioned'') (\<lambda>decommissioned.
     rbind (corrupt ''updated_at_commit_index'' (read_nonzero_u64 ''updated_at_commit_index'')) (\<lambda>idx.
     rret (cell, \<lparr>ce_cell = cell, ce_control_domain_id = domain, ce_principal_id = principal_id,
       ce_node_boot_generation = boot_gen, ce_epoch = epoch, ce_heartbeat_seq = hb,
       ce_endpoint_hint = hint, ce_decommissioned = decommissioned,
       ce_updated_at_commit_index = idx\<rparr>))))))))))"

definition read_quota_pool_row :: "(bytes16 \<times> QuotaPoolBalance) snap_reader" where
  "read_quota_pool_row =
     rbind (trunc read_16) (\<lambda>root. rbind (trunc read_u64) (\<lambda>available.
     rbind (trunc read_u64) (\<lambda>leased_active. rbind (trunc read_u64) (\<lambda>quarantined.
     rret (root, \<lparr>qp_available = available, qp_leased_active = leased_active,
       qp_quarantined = quarantined\<rparr>)))))"

definition read_quota_lease_row :: "(QuotaLeaseId \<times> ReplicatedQuotaLeaseEntry) snap_reader" where
  "read_quota_lease_row =
     rbind (trunc read_16) (\<lambda>lease_id. rbind (trunc read_16) (\<lambda>root.
     rbind (trunc read_cell_id) (\<lambda>holder.
     rbind (corrupt ''ql.boot_gen'' (read_generation ''boot_gen'')) (\<lambda>boot_gen.
     rbind (trunc read_u64) (\<lambda>face. rbind (trunc read_u64) (\<lambda>returned.
     rbind (trunc read_u64) (\<lambda>quarantined.
     rbind (corrupt ''ql.epoch'' (read_cell_epoch ''ql.epoch'')) (\<lambda>epoch.
     rbind (corrupt ''ql.tok'' (read_fencing_token ''ql.tok'')) (\<lambda>token.
     rbind (trunc read_16) (\<lambda>scope.
     rbind (snap_via disposition_from_u8 ''ql.disposition'') (\<lambda>disposition.
     rbind (corrupt ''ql.idx'' (read_nonzero_u64 ''ql.idx'')) (\<lambda>idx.
     rret (lease_id, \<lparr>ql_lease_id = lease_id, ql_budget_root = root, ql_holder_cell = holder,
       ql_node_boot_generation = boot_gen, ql_face_value = face, ql_returned_amount = returned,
       ql_quarantined_amount = quarantined, ql_epoch = epoch, ql_fencing_token = token,
       ql_fence_scope = scope, ql_disposition = disposition,
       ql_committed_at_index = idx\<rparr>)))))))))))))"

definition read_capacity_pool_row :: "(bytes16 \<times> CapacityPoolBalance) snap_reader" where
  "read_capacity_pool_row =
     rbind (trunc read_16) (\<lambda>pool_id. rbind (trunc read_u64) (\<lambda>pool_total.
     rbind (trunc read_u64) (\<lambda>committed.
     rret (pool_id, \<lparr>cp_total_capacity = pool_total, cp_committed = committed\<rparr>))))"

definition read_capacity_lease_row :: "(CapacityLeaseId \<times> ReplicatedCapacityLeaseEntry) snap_reader" where
  "read_capacity_lease_row =
     rbind (trunc read_16) (\<lambda>lease_id. rbind (trunc read_16) (\<lambda>pool_id.
     rbind (trunc read_cell_id) (\<lambda>target.
     rbind (corrupt ''cl.boot'' (read_generation ''cl.boot'')) (\<lambda>boot_gen.
     rbind (trunc read_u64) (\<lambda>amount.
     rbind (corrupt ''cl.epoch'' (read_nonzero_u64 ''cl.epoch'')) (\<lambda>epoch.
     rbind (corrupt ''cl.tok'' (read_fencing_token ''cl.tok'')) (\<lambda>token.
     rbind (corrupt ''cl.idx'' (read_nonzero_u64 ''cl.idx'')) (\<lambda>idx.
     rret (lease_id, \<lparr>cl_capacity_lease_id = lease_id, cl_pool_id = pool_id,
       cl_target_cell = target, cl_target_boot_generation = boot_gen, cl_amount = amount,
       cl_capacity_epoch = epoch, cl_fencing_token = token,
       cl_committed_at_index = idx\<rparr>)))))))))"

definition read_device_head_row :: "(DeviceId \<times> ReplicatedDeviceHeadEntry) snap_reader" where
  "read_device_head_row =
     rbind (trunc read_16) (\<lambda>device. rbind (trunc read_16) (\<lambda>lease_id.
     rbind (corrupt ''dh.epoch'' (read_nonzero_u64 ''dh.epoch'')) (\<lambda>epoch.
     rbind (snap_option ''dh.holder_cell'' read_cell_id) (\<lambda>holder.
     rbind (corrupt ''dh.tok'' (read_fencing_token ''dh.tok'')) (\<lambda>token.
     rbind (snap_via device_state_from_u8 ''dh.state'') (\<lambda>state.
     rbind (corrupt ''dh.idx'' (read_nonzero_u64 ''dh.idx'')) (\<lambda>idx.
     rret (device, \<lparr>dh_device_id = device, dh_device_lease_id = lease_id,
       dh_exclusivity_epoch = epoch, dh_holder_cell = holder, dh_fencing_token = token,
       dh_state = state, dh_committed_at_index = idx\<rparr>))))))))"

definition read_fence_scope_row :: "(bytes16 \<times> CellFencingToken) snap_reader" where
  "read_fence_scope_row =
     rbind (trunc read_16) (\<lambda>scope.
     rbind (corrupt ''fs.tok'' (read_fencing_token ''fs.tok'')) (\<lambda>tok. rret (scope, tok)))"

definition read_task_shard_row ::
  "((TaskId \<times> Generation) \<times> CommittedTaskAuthorityAssignment) snap_reader" where
  "read_task_shard_row =
     rbind (trunc read_16) (\<lambda>assignment. rbind (trunc read_16) (\<lambda>task.
     rbind (corrupt ''ts.gen'' (read_generation ''ts.gen'')) (\<lambda>gen.
     rbind (trunc read_16) (\<lambda>shard. rbind (trunc read_cell_id) (\<lambda>home.
     rbind (corrupt ''ts.term'' (read_nonzero_u64 ''ts.term'')) (\<lambda>auth_term.
     rbind (trunc read_u64) (\<lambda>control_epoch. rbind (trunc read_u64) (\<lambda>registry_gen.
     rbind (trunc read_32) (\<lambda>registry_root.
     rbind (corrupt ''ts.cidx'' (read_nonzero_u64 ''ts.cidx'')) (\<lambda>cidx.
     rbind (corrupt ''ts.cterm'' (read_nonzero_u64 ''ts.cterm'')) (\<lambda>cterm.
     rret ((task, gen), \<lparr>ta_assignment_id = assignment, ta_task_id = task,
       ta_task_generation = gen, ta_authority_shard = shard, ta_home_cell = home,
       ta_authority_term = auth_term, ta_control_epoch = control_epoch,
       ta_participant_registry_generation = registry_gen,
       ta_participant_registry_root = registry_root, ta_consensus_commit_index = cidx,
       ta_consensus_term = cterm\<rparr>))))))))))))"

definition read_takeover_row :: "(ReceiptId \<times> CommittedTaskAuthorityTakeover) snap_reader" where
  "read_takeover_row =
     rbind (trunc read_16) (\<lambda>receipt. rbind (trunc read_16) (\<lambda>task.
     rbind (corrupt ''tr.gen'' (read_generation ''tr.gen'')) (\<lambda>gen.
     rbind (trunc read_16) (\<lambda>old_assignment. rbind (trunc read_16) (\<lambda>new_assignment.
     rbind (corrupt ''tr.old_term'' (read_nonzero_u64 ''tr.old_term'')) (\<lambda>old_term.
     rbind (corrupt ''tr.new_term'' (read_nonzero_u64 ''tr.new_term'')) (\<lambda>new_term.
     rbind (trunc read_cell_id) (\<lambda>new_home. rbind (trunc read_u64) (\<lambda>new_epoch.
     rbind (trunc read_32) (\<lambda>fence_root.
     rbind (snap_option ''tr.quarantine_opt'' read_32) (\<lambda>effect_root.
     rbind (corrupt ''tr.cidx'' (read_nonzero_u64 ''tr.cidx'')) (\<lambda>cidx.
     rbind (corrupt ''tr.cterm'' (read_nonzero_u64 ''tr.cterm'')) (\<lambda>cterm.
     rret (receipt, \<lparr>tk_takeover_receipt_id = receipt, tk_task_id = task,
       tk_task_generation = gen, tk_old_assignment_id = old_assignment,
       tk_new_assignment_id = new_assignment, tk_frozen_old_authority_term = old_term,
       tk_new_authority_term = new_term, tk_new_home_cell = new_home,
       tk_new_control_epoch = new_epoch, tk_exact_fence_set_root = fence_root,
       tk_outstanding_effect_quarantine_root = effect_root,
       tk_consensus_commit_index = cidx, tk_consensus_term = cterm\<rparr>))))))))))))))"

definition read_migration_row :: "(bytes16 \<times> ReplicatedMigrationAnchor) snap_reader" where
  "read_migration_row =
     rbind (trunc read_16) (\<lambda>intent. rbind (trunc read_cell_id) (\<lambda>source.
     rbind (trunc read_cell_id) (\<lambda>target.
     rbind (corrupt ''ma.epoch'' (read_cell_epoch ''ma.epoch'')) (\<lambda>epoch.
     rbind (trunc read_32) (\<lambda>digest.
     rbind (corrupt ''ma.cidx'' (read_nonzero_u64 ''ma.cidx'')) (\<lambda>cidx.
     rret (intent, \<lparr>ma_intent_id = intent, ma_source_cell = source, ma_target_cell = target,
       ma_epoch = epoch, ma_intent_digest = digest, ma_consensus_commit_index = cidx\<rparr>)))))))"

definition read_checkpoint_row ::
  "((CellIdentity \<times> u64) \<times> ReplicatedCheckpointAnchor) snap_reader" where
  "read_checkpoint_row =
     rbind (trunc read_cell_id) (\<lambda>cell.
     rbind (corrupt ''ca.boot'' (read_generation ''ca.boot'')) (\<lambda>boot_gen.
     rbind (corrupt ''ca.epoch'' (read_cell_epoch ''ca.epoch'')) (\<lambda>epoch.
     rbind (corrupt ''ca.seq'' (read_nonzero_u64 ''ca.seq'')) (\<lambda>seq.
     rbind (trunc read_32) (\<lambda>digest.
     rbind (corrupt ''ca.cidx'' (read_nonzero_u64 ''ca.cidx'')) (\<lambda>cidx.
     rret ((cell, seq), \<lparr>ck_cell = cell, ck_node_boot_generation = boot_gen, ck_epoch = epoch,
       ck_checkpoint_seq = seq, ck_checkpoint_digest = digest,
       ck_consensus_commit_index = cidx\<rparr>)))))))"

definition read_rejection :: "ControlPlaneDomainRejection option snap_reader" where
  "read_rejection =
     rbind (trunc read_u8) (\<lambda>code.
       if code = 0 then rret None
       else case rejection_from_u8 code of
         None \<Rightarrow> rfail (CorruptField ''dd.rejection'') | Some reason \<Rightarrow> rret (Some reason))"

definition read_dedup_row :: "(IdempotencyKey \<times> DedupRecord) snap_reader" where
  "read_dedup_row =
     rbind (trunc read_16) (\<lambda>key. rbind (trunc read_32) (\<lambda>digest.
     rbind (corrupt ''dd.idx'' (read_nonzero_u64 ''dd.idx'')) (\<lambda>idx.
     rbind read_rejection (\<lambda>rejection.
     rret (key, \<lparr>dr_proposal_digest = digest, dr_committed_index = idx,
       dr_rejection = rejection\<rparr>)))))"

section \<open>Decoding\<close>

primrec read_rows :: "('k::linorder \<times> 'v) snap_reader \<Rightarrow> nat \<Rightarrow> ('k, 'v) btree \<Rightarrow> ('k, 'v) btree snap_reader" where
  "read_rows rd 0 m = rret m"
| "read_rows rd (Suc n) m = rbind rd (\<lambda>row. read_rows rd n (bt_insert (fst row) (snd row) m))"

definition read_table :: "('k::linorder \<times> 'v) snap_reader \<Rightarrow> ('k, 'v) btree snap_reader" where
  "read_table rd = rbind read_len (\<lambda>count. read_rows rd count [])"

definition read_state :: "ControlPlaneStateMachine snap_reader" where
  "read_state =
     rbind (trunc read_u64) (\<lambda>idx. rbind (trunc read_u64) (\<lambda>trm.
     rbind (trunc read_u64) (\<lambda>high_water. rbind (trunc read_u64) (\<lambda>trust_epoch.
     rbind (trunc read_32) (\<lambda>trust_digest.
     rbind (read_table read_cell_row) (\<lambda>cs.
     rbind (read_table read_quota_pool_row) (\<lambda>qps.
     rbind (read_table read_quota_lease_row) (\<lambda>qls.
     rbind (read_table read_capacity_pool_row) (\<lambda>cps.
     rbind (read_table read_capacity_lease_row) (\<lambda>cls.
     rbind (read_table read_device_head_row) (\<lambda>dhs.
     rbind (read_table read_fence_scope_row) (\<lambda>fss.
     rbind (read_table read_task_shard_row) (\<lambda>tss.
     rbind (read_table read_takeover_row) (\<lambda>trs.
     rbind (read_table read_migration_row) (\<lambda>mas.
     rbind (read_table read_checkpoint_row) (\<lambda>cas.
     rbind (read_table read_dedup_row) (\<lambda>dds.
     rret \<lparr>last_applied_index = idx, last_applied_term = trm,
       authority_receipt_high_water = high_water, trust_policy_epoch = trust_epoch,
       trust_policy_digest = trust_digest, cells = cs, quota_pools = qps, quota_leases = qls,
       capacity_pools = cps, capacity_leases = cls, device_heads = dhs,
       fence_scope_high_water = fss, task_shards = tss, takeover_receipts = trs,
       migration_anchors = mas, checkpoint_anchors = cas, dedup_table = dds\<rparr>)))))))))))))))))"

definition decode_snapshot :: "sha256_fn \<Rightarrow> byte list \<Rightarrow> (SnapshotCodecError, ControlPlaneStateMachine) result" where
  "decode_snapshot sha bytes =
     (if length bytes < 8 + 32 + 4 + 32 then Inl SnapTruncated
      else if take 8 bytes \<noteq> SNAPSHOT_MAGIC then Inl InvalidMagic
      else
        let payload_end = length bytes - 32
        in if drop payload_end bytes \<noteq> snapshot_checksum sha (take payload_end bytes)
           then Inl ChecksumMismatch
           else let declared_root = from_be (take 32 (drop 8 bytes));
                    body_len = unat (from_be (take 4 (drop 40 bytes)) :: u32)
                in if 44 + body_len \<noteq> payload_end then Inl SnapTrailingBytes
                   else case read_state (cursor_new (drop 44 (take payload_end bytes))) of
                     Inl e \<Rightarrow> Inl e
                   | Inr (reconstructed, c) \<Rightarrow>
                       if \<not> cursor_is_empty c then Inl SnapTrailingBytes
                       else if state_root_digest sha reconstructed \<noteq> Some declared_root
                       then Inl ChecksumMismatch
                       else Inr reconstructed)"

end
