(* ===== verification/CommandCodec.thy ===== *)
theory CommandCodec
  imports Commands
begin

text \<open>
  The command codec: every field reader of \<open>ByteCursor\<close> satisfies the contract
  \<open>field_codec\<close> with the writer the encoder uses, and so do the four family codecs built from
  them. Round trip and canonicality of command bodies and of wire frames follow.
\<close>

section \<open>Field codecs\<close>

lemma read_u8_codec: "field_codec (\<lambda>b. [b]) read_u8 (\<lambda>_. True)"
proof
  fix x pre rest
  show "read_u8 (cursor_at pre ([x] @ rest)) = Inr (x, cursor_at (pre @ [x]) rest)"
    by (simp add: read_u8_def read_slice_def rbind_def)
next
  fix pre bs x c
  assume "read_u8 (cursor_at pre bs) = Inr (x, c)"
  then show "True \<and> (\<exists>rest. bs = [x] @ rest \<and> c = cursor_at (pre @ [x]) rest)"
    by (cases bs) (auto simp: read_u8_def read_slice_def rbind_def split: if_splits)
qed

interpretation u8c: field_codec "\<lambda>b. [b]" read_u8 "\<lambda>_. True"
  by (rule read_u8_codec)

interpretation u64c: field_codec to_be read_u64 "\<lambda>_. True"
  unfolding read_u64_def read_slice_def by (rule be_codec) simp

interpretation b16c: field_codec to_be read_16 "\<lambda>_. True"
  unfolding read_16_def read_slice_def by (rule be_codec) simp

interpretation b32c: field_codec to_be read_32 "\<lambda>_. True"
  unfolding read_32_def read_slice_def by (rule be_codec) simp

interpretation cellc: field_codec to_be read_cell_id "\<lambda>_. True"
proof -
  have "rbind read_16 rret = read_16"
    by (rule ext) (simp add: rbind_def split: sum.splits)
  then show "field_codec to_be read_cell_id (\<lambda>_. True)"
    unfolding read_cell_id_def using b16c.field_codec_axioms by simp
qed

interpretation nz64c: field_codec to_be "read_nonzero_u64 field" "\<lambda>v. v \<noteq> 0" for field
  unfolding read_nonzero_u64_def by (rule nonzero_codec [OF u64c.field_codec_axioms])

interpretation genc: field_codec to_be "read_generation field" "\<lambda>v. v \<noteq> 0" for field
  unfolding read_generation_def by (rule nz64c.field_codec_axioms)

interpretation epochc: field_codec to_be "read_cell_epoch field" "\<lambda>v. v \<noteq> 0" for field
  unfolding read_cell_epoch_def by (rule nonzero_codec [OF u64c.field_codec_axioms])

interpretation tokenc: field_codec to_be "read_fencing_token field" "\<lambda>v. v \<noteq> 0" for field
  unfolding read_fencing_token_def by (rule nonzero_codec [OF u64c.field_codec_axioms])

lemma read_via_codec:
  assumes "\<And>x. from_u8 (as_u8 x) = Some x" and "\<And>b x. from_u8 b = Some x \<Longrightarrow> b = as_u8 x"
  shows "field_codec (\<lambda>x. [as_u8 x]) (read_via from_u8 e) (\<lambda>_. True)"
  unfolding read_via_def
  by unfold_locales
    (auto simp: u8c.bind_enc [simplified] assms(1) split: option.splits
      elim!: u8c.bindE dest!: assms(2))

interpretation dispc: field_codec "\<lambda>d. [disposition_as_u8 d]" "read_via disposition_from_u8 e"
  "\<lambda>_. True" for e
proof (rule read_via_codec)
  show "disposition_from_u8 (disposition_as_u8 d) = Some d" for d
    by (cases d) (simp_all add: disposition_from_u8_def)
  show "b = disposition_as_u8 d" if "disposition_from_u8 b = Some d" for b d
    using that by (auto simp: disposition_from_u8_def split: if_splits)
qed

interpretation devc: field_codec "\<lambda>d. [device_state_as_u8 d]" "read_via device_state_from_u8 e"
  "\<lambda>_. True" for e
proof (rule read_via_codec)
  show "device_state_from_u8 (device_state_as_u8 d) = Some d" for d
    by (cases d) (simp_all add: device_state_from_u8_def)
  show "b = device_state_as_u8 d" if "device_state_from_u8 b = Some d" for b d
    using that by (auto simp: device_state_from_u8_def split: if_splits)
qed

interpretation boolc: field_codec "\<lambda>b. [bool_u8 b]" "read_via bool_from_u8 e" "\<lambda>_. True" for e
proof (rule read_via_codec)
  show "bool_from_u8 (bool_u8 b) = Some b" for b
    by (simp add: bool_from_u8_def bool_u8_def)
  show "v = bool_u8 b" if "bool_from_u8 v = Some b" for v b
    using that by (auto simp: bool_from_u8_def bool_u8_def split: if_splits)
qed

lemma read_option_codec:
  assumes "field_codec enc rd ok"
  shows "field_codec (encode_opt enc) (read_option e rd) (pred_option ok)"
proof -
  note bind = readable.bind_enc [OF field_codec.axioms(1) [OF assms]] and canon = field_codec.bindE [OF assms]
  show ?thesis
    unfolding read_option_def
    by unfold_locales
      (auto simp: encode_opt_def u8c.bind_enc [simplified] bind
        split: option.splits if_splits elim!: u8c.bindE canon)
qed

interpretation cell_optc: field_codec "encode_opt to_be" "read_option e read_cell_id" "\<lambda>_. True" for e
  using read_option_codec [OF cellc.field_codec_axioms] by (simp add: pred_option_def)

interpretation b32_optc: field_codec "encode_opt to_be" "read_option e read_32" "\<lambda>_. True" for e
  using read_option_codec [OF b32c.field_codec_axioms] by (simp add: pred_option_def)

text \<open>The socket address writer drops the flow label and the scope id of an IPv6 address, so the
  contract holds for the addresses that have neither.\<close>

fun endpoint_plain :: "SocketAddr option \<Rightarrow> bool" where
  "endpoint_plain (Some (SocketV6 ip port flowinfo scope_id)) = (flowinfo = 0 \<and> scope_id = 0)"
| "endpoint_plain _ = True"

lemma be_slice_codec:
  "field_codec (to_be :: u32 \<Rightarrow> byte list) (rbind (read_slice 4) (\<lambda>s. rret (from_be s))) (\<lambda>_. True)"
  "field_codec (to_be :: u16 \<Rightarrow> byte list) (rbind (read_slice 2) (\<lambda>s. rret (from_be s))) (\<lambda>_. True)"
  unfolding read_slice_def by (rule be_codec, simp)+

lemma rbind_assoc: "rbind (rbind p f) g = rbind p (\<lambda>x. rbind (f x) g)"
  by (rule ext) (simp add: rbind_def split: sum.splits prod.splits)

lemma rbind_rret: "rbind (rret x) f = f x"
  by (rule ext) (simp add: rbind_def)

lemma read_socket_addr_opt_alt:
  "read_socket_addr_opt = rbind read_u8 (\<lambda>tag.
     if tag = 0 then rret None
     else if tag = 4 then
       rbind (rbind (read_slice 4) (\<lambda>s. rret (from_be s))) (\<lambda>ip.
       rbind (rbind (read_slice 2) (\<lambda>s. rret (from_be s))) (\<lambda>port. rret (Some (SocketV4 ip port))))
     else if tag = 6 then
       rbind read_16 (\<lambda>ip.
       rbind (rbind (read_slice 2) (\<lambda>s. rret (from_be s))) (\<lambda>port. rret (Some (SocketV6 ip port 0 0))))
     else rfail (InvalidNominalField ''SocketAddr family tag''))"
  by (simp only: read_socket_addr_opt_def rbind_assoc rbind_rret)

interpretation addrc: field_codec encode_socket_addr_opt read_socket_addr_opt endpoint_plain
proof
  note bind = u8c.bind_enc [simplified] readable.bind_enc [OF field_codec.axioms(1) [OF be_slice_codec(1)]]
    readable.bind_enc [OF field_codec.axioms(1) [OF be_slice_codec(2)]] b16c.bind_enc
  fix x pre rest
  assume "endpoint_plain x"
  then show "read_socket_addr_opt (cursor_at pre (encode_socket_addr_opt x @ rest)) =
    Inr (x, cursor_at (pre @ encode_socket_addr_opt x) rest)"
    unfolding read_socket_addr_opt_alt
    by (cases x rule: encode_socket_addr_opt.cases) (simp_all add: bind)
next
  note canon = u8c.bindE field_codec.bindE [OF be_slice_codec(1)]
    field_codec.bindE [OF be_slice_codec(2)] b16c.bindE
  fix pre bs x c
  assume "read_socket_addr_opt (cursor_at pre bs) = Inr (x, c)"
  then show "endpoint_plain x \<and> (\<exists>rest. bs = encode_socket_addr_opt x @ rest \<and>
      c = cursor_at (pre @ encode_socket_addr_opt x) rest)"
    unfolding read_socket_addr_opt_alt
    by (auto split: if_splits elim!: canon)
qed

section \<open>Family codecs\<close>

text \<open>What the types of the source guarantee of a command: \<open>NonZeroU64\<close> and its newtypes are
  not zero. The one condition beyond the types is on the endpoint hint.\<close>

fun cell_directory_ok :: "CellDirectoryCommand \<Rightarrow> bool" where
  "cell_directory_ok (UpsertCellEndpoint cell domain principal_id boot_gen epoch hb hint) =
     (boot_gen \<noteq> 0 \<and> epoch \<noteq> 0 \<and> endpoint_plain hint)"
| "cell_directory_ok (AdvanceTrustPolicyEpoch new_trust_epoch policy_digest) = True"
| "cell_directory_ok (DecommissionCell cell fenced_epoch) = (fenced_epoch \<noteq> 0)"

fun root_lease_pool_ok :: "RootLeasePoolCommand \<Rightarrow> bool" where
  "root_lease_pool_ok (RegisterQuotaPool budget_root initial) = True"
| "root_lease_pool_ok (AllocateQuotaLease lease_id budget_root holder boot_gen face epoch token
     scope) = (boot_gen \<noteq> 0 \<and> epoch \<noteq> 0 \<and> token \<noteq> 0)"
| "root_lease_pool_ok (SettleOrQuarantineQuotaLease lease_id disposition returned quarantined
     new_epoch new_token) = (new_epoch \<noteq> 0 \<and> new_token \<noteq> 0)"
| "root_lease_pool_ok (AllocateCapacityLease lease_id pool_id pool_total target boot_gen amount
     epoch token) = (boot_gen \<noteq> 0 \<and> epoch \<noteq> 0 \<and> token \<noteq> 0)"
| "root_lease_pool_ok (TransitionExclusiveDeviceHead device lease_id epoch holder token new_state
     proof_flag) = (epoch \<noteq> 0 \<and> token \<noteq> 0)"

fun task_authority_ok :: "TaskAuthorityShardCommand \<Rightarrow> bool" where
  "task_authority_ok (AssignInitialAuthority assignment task gen shard home auth_term
     control_epoch registry_gen registry_root) = (gen \<noteq> 0 \<and> auth_term \<noteq> 0)"
| "task_authority_ok (RecordCompletedTakeover receipt task gen old_assignment new_assignment
     old_term new_term new_home new_epoch new_registry_gen new_registry_root fence_root
     effect_root) = (gen \<noteq> 0 \<and> old_term \<noteq> 0 \<and> new_term \<noteq> 0)"

fun audit_ok :: "ControlPlaneAuditCommand \<Rightarrow> bool" where
  "audit_ok (AnchorMigrationIntent intent source target epoch digest) = (epoch \<noteq> 0)"
| "audit_ok (AnchorReconciliationCheckpoint cell boot_gen epoch seq digest) =
     (boot_gen \<noteq> 0 \<and> epoch \<noteq> 0 \<and> seq \<noteq> 0)"

fun command_ok :: "ControlPlaneCommand \<Rightarrow> bool" where
  "command_ok (CellDirectoryMutation c) = cell_directory_ok c"
| "command_ok (RootLeasePoolMutation c) = root_lease_pool_ok c"
| "command_ok (TaskAuthorityShardMutation c) = task_authority_ok c"
| "command_ok (ControlPlaneAuditAnchor c) = audit_ok c"

lemmas field_bind =
  u8c.bind_enc [simplified] u8c.bind_enc_end [simplified]
  u64c.bind_enc u64c.bind_enc_end b16c.bind_enc b16c.bind_enc_end
  b32c.bind_enc b32c.bind_enc_end cellc.bind_enc cellc.bind_enc_end
  nz64c.bind_enc nz64c.bind_enc_end genc.bind_enc genc.bind_enc_end
  epochc.bind_enc epochc.bind_enc_end tokenc.bind_enc tokenc.bind_enc_end
  dispc.bind_enc [simplified] devc.bind_enc [simplified] boolc.bind_enc [simplified]
  cell_optc.bind_enc cell_optc.bind_enc_end b32_optc.bind_enc b32_optc.bind_enc_end
  addrc.bind_enc addrc.bind_enc_end

lemmas field_canonE =
  u8c.bindE u64c.bindE b16c.bindE b32c.bindE cellc.bindE nz64c.bindE genc.bindE epochc.bindE
  tokenc.bindE dispc.bindE devc.bindE boolc.bindE cell_optc.bindE b32_optc.bindE addrc.bindE

interpretation cdc: field_codec encode_cell_directory "rbind read_u8 decode_cell_directory"
  cell_directory_ok
proof
  fix x pre rest
  assume "cell_directory_ok x"
  then show "rbind read_u8 decode_cell_directory (cursor_at pre (encode_cell_directory x @ rest)) =
    Inr (x, cursor_at (pre @ encode_cell_directory x) rest)"
    by (cases x) (simp_all add: field_bind decode_cell_directory_def)
next
  fix pre bs x c
  assume "rbind read_u8 decode_cell_directory (cursor_at pre bs) = Inr (x, c)"
  then show "cell_directory_ok x \<and> (\<exists>rest. bs = encode_cell_directory x @ rest \<and>
      c = cursor_at (pre @ encode_cell_directory x) rest)"
    by (auto simp: decode_cell_directory_def split: if_splits elim!: field_canonE)
qed

interpretation rlc: field_codec encode_root_lease_pool "rbind read_u8 decode_root_lease_pool"
  root_lease_pool_ok
proof
  fix x pre rest
  assume "root_lease_pool_ok x"
  then show "rbind read_u8 decode_root_lease_pool (cursor_at pre (encode_root_lease_pool x @ rest)) =
    Inr (x, cursor_at (pre @ encode_root_lease_pool x) rest)"
    by (cases x) (simp_all add: field_bind decode_root_lease_pool_def)
next
  fix pre bs x c
  assume "rbind read_u8 decode_root_lease_pool (cursor_at pre bs) = Inr (x, c)"
  then show "root_lease_pool_ok x \<and> (\<exists>rest. bs = encode_root_lease_pool x @ rest \<and>
      c = cursor_at (pre @ encode_root_lease_pool x) rest)"
    by (auto simp: decode_root_lease_pool_def split: if_splits elim!: field_canonE)
qed

interpretation tac: field_codec encode_task_authority "rbind read_u8 decode_task_authority"
  task_authority_ok
proof
  fix x pre rest
  assume "task_authority_ok x"
  then show "rbind read_u8 decode_task_authority (cursor_at pre (encode_task_authority x @ rest)) =
    Inr (x, cursor_at (pre @ encode_task_authority x) rest)"
    by (cases x) (simp_all add: field_bind decode_task_authority_def)
next
  fix pre bs x c
  assume "rbind read_u8 decode_task_authority (cursor_at pre bs) = Inr (x, c)"
  then show "task_authority_ok x \<and> (\<exists>rest. bs = encode_task_authority x @ rest \<and>
      c = cursor_at (pre @ encode_task_authority x) rest)"
    by (auto simp: decode_task_authority_def split: if_splits elim!: field_canonE)
qed

interpretation auc: field_codec encode_audit "rbind read_u8 decode_audit" audit_ok
proof
  fix x pre rest
  assume "audit_ok x"
  then show "rbind read_u8 decode_audit (cursor_at pre (encode_audit x @ rest)) =
    Inr (x, cursor_at (pre @ encode_audit x) rest)"
    by (cases x) (simp_all add: field_bind decode_audit_def)
next
  fix pre bs x c
  assume "rbind read_u8 decode_audit (cursor_at pre bs) = Inr (x, c)"
  then show "audit_ok x \<and> (\<exists>rest. bs = encode_audit x @ rest \<and>
      c = cursor_at (pre @ encode_audit x) rest)"
    by (auto simp: decode_audit_def split: if_splits elim!: field_canonE)
qed

section \<open>Command bodies\<close>

text \<open>The family codecs joined: the body codec of one family, with its constructor.\<close>

definition family_command_ok :: "CommandFamilyCode \<Rightarrow> ControlPlaneCommand \<Rightarrow> bool" where
  "family_command_ok family cmd \<longleftrightarrow> family_code cmd = family \<and> command_ok cmd"

lemma decode_command_fun:
  "decode_command CellDirectory = (\<lambda>t. rbind (decode_cell_directory t) (\<lambda>c. rret (CellDirectoryMutation c)))"
  "decode_command RootLeasePool = (\<lambda>t. rbind (decode_root_lease_pool t) (\<lambda>c. rret (RootLeasePoolMutation c)))"
  "decode_command TaskAuthorityShard = (\<lambda>t. rbind (decode_task_authority t) (\<lambda>c. rret (TaskAuthorityShardMutation c)))"
  "decode_command ControlPlaneAudit = (\<lambda>t. rbind (decode_audit t) (\<lambda>c. rret (ControlPlaneAuditAnchor c)))"
  by (rule ext, simp)+

lemma wrap_codec:
  assumes "field_codec enc (rbind rd dec) ok"
    and "\<And>c. encode_command (C c) = enc c"
    and "\<And>cmd. family_command_ok family cmd \<longleftrightarrow> (\<exists>c. cmd = C c \<and> ok c)"
  shows "field_codec encode_command (rbind rd (\<lambda>t. rbind (dec t) (\<lambda>c. rret (C c))))
    (family_command_ok family)"
proof -
  note bind = readable.bind_enc [OF field_codec.axioms(1) [OF assms(1)]] and canon = field_codec.bindE [OF assms(1)]
  show ?thesis
    unfolding rbind_assoc [symmetric]
    by unfold_locales (auto simp: assms(2,3) bind elim!: canon)
qed

interpretation cmdc: field_codec encode_command "rbind read_u8 (decode_command family)"
  "family_command_ok family" for family
proof (cases family)
  case CellDirectory
  have "family_command_ok CellDirectory cmd \<longleftrightarrow> (\<exists>c. cmd = CellDirectoryMutation c \<and> cell_directory_ok c)" for cmd
    by (cases cmd) (auto simp: family_command_ok_def)
  then show "field_codec encode_command (rbind read_u8 (decode_command family)) (family_command_ok family)"
    unfolding CellDirectory decode_command_fun
    by (intro wrap_codec [OF cdc.field_codec_axioms]) simp_all
next
  case RootLeasePool
  have "family_command_ok RootLeasePool cmd \<longleftrightarrow> (\<exists>c. cmd = RootLeasePoolMutation c \<and> root_lease_pool_ok c)" for cmd
    by (cases cmd) (auto simp: family_command_ok_def)
  then show "field_codec encode_command (rbind read_u8 (decode_command family)) (family_command_ok family)"
    unfolding RootLeasePool decode_command_fun
    by (intro wrap_codec [OF rlc.field_codec_axioms]) simp_all
next
  case TaskAuthorityShard
  have "family_command_ok TaskAuthorityShard cmd \<longleftrightarrow> (\<exists>c. cmd = TaskAuthorityShardMutation c \<and> task_authority_ok c)" for cmd
    by (cases cmd) (auto simp: family_command_ok_def)
  then show "field_codec encode_command (rbind read_u8 (decode_command family)) (family_command_ok family)"
    unfolding TaskAuthorityShard decode_command_fun
    by (intro wrap_codec [OF tac.field_codec_axioms]) simp_all
next
  case ControlPlaneAudit
  have "family_command_ok ControlPlaneAudit cmd \<longleftrightarrow> (\<exists>c. cmd = ControlPlaneAuditAnchor c \<and> audit_ok c)" for cmd
    by (cases cmd) (auto simp: family_command_ok_def)
  then show "field_codec encode_command (rbind read_u8 (decode_command family)) (family_command_ok family)"
    unfolding ControlPlaneAudit decode_command_fun
    by (intro wrap_codec [OF auc.field_codec_axioms]) simp_all
qed

lemma decode_command_body_iff:
  "decode_command_body family key body = Inr p \<longleftrightarrow>
     idempotency_key p = key \<and> family_code (command p) = family \<and> command_ok (command p) \<and>
     body = encode_command_body p" (is "?lhs \<longleftrightarrow> ?rhs")
proof
  assume ?lhs
  then obtain cmd c where rd: "rbind read_u8 (decode_command family) (cursor_at [] body) = Inr (cmd, c)"
    and "cursor_is_empty c" "p = \<lparr>idempotency_key = key, command = cmd\<rparr>"
    by (auto simp: decode_command_body_def cursor_new_at split: sum.splits if_splits)
  with cmdc.rd_canonical [OF rd] show ?rhs
    by (auto simp: family_command_ok_def encode_command_body_def)
next
  assume rhs: ?rhs
  then have "rbind read_u8 (decode_command family) (cursor_at [] body) =
      Inr (command p, cursor_at body [])"
    using cmdc.rd_enc_end [of family "command p" "[]"]
    by (simp add: family_command_ok_def encode_command_body_def)
  with rhs show ?lhs
    by (cases p) (simp add: decode_command_body_def cursor_new_at)
qed

section \<open>Wire frames\<close>

lemma length_encode_socket_addr_opt: "length (encode_socket_addr_opt a) \<le> 19"
  by (cases a rule: encode_socket_addr_opt.cases) simp_all

lemma length_encode_opt: "(\<And>x. length (enc x) \<le> n) \<Longrightarrow> length (encode_opt enc a) \<le> Suc n"
  by (cases a) (simp_all add: encode_opt_def)

text \<open>The \<open>expect\<close> on the body length never fires: no command is longer than 218 bytes.\<close>

lemma length_encode_command_body: "length (encode_command_body p) \<le> 218"
proof -
  have opt16: "length (encode_opt to_be (a :: bytes16 option)) \<le> 17" for a
    using length_encode_opt [of "to_be :: bytes16 \<Rightarrow> _" 16 a] by simp
  have opt32: "length (encode_opt to_be (a :: bytes32 option)) \<le> 33" for a
    using length_encode_opt [of "to_be :: bytes32 \<Rightarrow> _" 32 a] by simp
  have dir: "length (encode_cell_directory c) \<le> 218" for c
    by (cases c) (auto intro: le_trans [OF length_encode_socket_addr_opt])
  have pool: "length (encode_root_lease_pool c) \<le> 218" for c
    by (cases c) (auto intro: le_trans [OF opt16])
  have shard: "length (encode_task_authority c) \<le> 218" for c
    using opt32 by (cases c) auto
  have audit: "length (encode_audit c) \<le> 218" for c
    by (cases c) simp_all
  show ?thesis
    unfolding encode_command_body_def
    by (cases "command p") (simp_all add: dir pool shard audit)
qed

lemma from_wire_tag_iff: "from_wire_tag tag = Inr family \<longleftrightarrow> tag = family_as_u8 family"
  by (cases family) (auto simp: from_wire_tag_def)

lemma from_wire_tag_forbidden:
  assumes "tag \<notin> {1, 2, 3, 4}"
  shows "\<exists>rej. from_wire_tag tag = Inl rej \<and> rej_wire_tag rej = tag \<and>
    rej_kind rej = (if tag = 0x81 then TaskExecutionMutation else if tag = 0x82 then FiberScheduleEvent
      else if tag = 0x83 then TopicMessagePublish else if tag = 0x84 then SemanticEventAppend
      else if tag = 0x85 then ArtifactBulkPayload else UnknownNonControlFamily tag)"
  using assms by (simp add: from_wire_tag_def)

lemma length_WIRE_MAGIC [simp]: "length WIRE_MAGIC = 8"
  by (simp add: WIRE_MAGIC_def ascii_def)

text \<open>The frame, split at the fixed offsets the decoder uses.\<close>

definition wire_frame :: "byte \<Rightarrow> byte list \<Rightarrow> byte list \<Rightarrow> byte list \<Rightarrow> byte list" where
  "wire_frame tag key len body = WIRE_MAGIC @ [tag] @ key @ len @ body"

lemma wire_frame_parts:
  assumes "length key = 16" "length len = 4"
  shows "length (wire_frame tag key len body) = 29 + length body"
    and "take 8 (wire_frame tag key len body @ rest) = WIRE_MAGIC"
    and "(wire_frame tag key len body @ rest) ! 8 = tag"
    and "take 16 (drop 9 (wire_frame tag key len body @ rest)) = key"
    and "take 4 (drop 25 (wire_frame tag key len body @ rest)) = len"
    and "drop 29 (wire_frame tag key len body) = body"
  using assms by (simp_all add: wire_frame_def nth_append)

lemmas wire_frame_parts_end = wire_frame_parts(2-5) [where rest = "[]", simplified]

lemma wire_frame_split:
  assumes "29 \<le> length bs" "take 8 bs = WIRE_MAGIC"
  shows "bs = wire_frame (bs ! 8) (take 16 (drop 9 bs)) (take 4 (drop 25 bs)) (drop 29 bs)"
proof -
  have "bs = take 8 bs @ drop 8 bs" by simp
  also have "drop 8 bs = bs ! 8 # drop 9 bs"
    using assms(1) by (simp add: Cons_nth_drop_Suc [symmetric])
  also have "drop 9 bs = take 16 (drop 9 bs) @ drop 25 bs"
    using append_take_drop_id [of 16 "drop 9 bs"] by simp
  also have "drop 25 bs = take 4 (drop 25 bs) @ drop 29 bs"
    using append_take_drop_id [of 4 "drop 25 bs"] by simp
  finally show ?thesis
    by (simp add: wire_frame_def assms(2))
qed

lemma encode_wire_frame:
  "encode_wire sha p =
     (let frame = wire_frame (family_as_u8 (family_code (command p))) (to_be (idempotency_key p))
        (to_be (of_nat (length (encode_command_body p)) :: u32)) (encode_command_body p)
      in frame @ to_be (sha frame))"
  by (simp add: encode_wire_def wire_frame_def Let_def)

lemma decode_wire_encode_wire:
  assumes "command_ok (command p)"
  shows "decode_wire sha (encode_wire sha p) = Inr p"
proof -
  let ?body = "encode_command_body p"
  let ?key = "to_be (idempotency_key p)" and ?len = "to_be (of_nat (length ?body) :: u32)"
  have "unat (of_nat (length ?body) :: u32) = length ?body"
    using length_encode_command_body [of p] by (simp add: unsigned_of_nat take_bit_nat_eq_self)
  moreover have "from_be ?len = (of_nat (length ?body) :: u32)"
    and "from_be ?key = idempotency_key p"
    by (rule from_be_to_be, simp)+
  moreover have "decode_command_body (family_code (command p)) (idempotency_key p) ?body = Inr p"
    using assms by (simp add: decode_command_body_iff)
  moreover have "from_wire_tag (family_as_u8 (family_code (command p))) = Inr (family_code (command p))"
    by (simp add: from_wire_tag_iff)
  ultimately show ?thesis
    by (simp add: decode_wire_def encode_wire_frame Let_def wire_frame_parts wire_frame_parts_end)
qed

lemma decode_wire_canonical:
  assumes "decode_wire sha bytes = Inr p"
  shows "command_ok (command p) \<and> bytes = encode_wire sha p"
proof -
  define pe where "pe = length bytes - 32"
  define frame where "frame = take pe bytes"
  define body where "body = drop 29 frame"
  from assms obtain family where long: "61 \<le> length bytes"
    and magic: "take 8 bytes = WIRE_MAGIC" and tag: "bytes ! 8 = family_as_u8 family"
    and sum: "drop pe bytes = to_be (sha frame)"
    and len: "29 + unat (from_be (take 4 (drop 25 bytes)) :: u32) = pe"
    and dec: "decode_command_body family (from_be (take 16 (drop 9 bytes))) body = Inr p"
    by (auto simp: decode_wire_def Let_def from_wire_tag_iff pe_def frame_def body_def
        split: if_splits sum.splits)
  have pe: "29 \<le> pe" "pe \<le> length bytes" using long by (simp_all add: pe_def)
  have key16: "take 16 (drop 9 bytes) = to_be (idempotency_key p)"
  proof -
    have "to_be (from_be (take 16 (drop 9 bytes)) :: bytes16) = take 16 (drop 9 bytes)"
      using long by (intro to_be_from_be [where n = 16]) simp_all
    then show ?thesis using dec by (simp add: decode_command_body_iff)
  qed
  have len4: "take 4 (drop 25 bytes) = to_be (of_nat (length body) :: u32)"
  proof -
    have "length body = unat (from_be (take 4 (drop 25 bytes)) :: u32)"
      using len pe by (simp add: body_def frame_def)
    then have "(of_nat (length body) :: u32) = from_be (take 4 (drop 25 bytes))" by simp
    moreover have "to_be (from_be (take 4 (drop 25 bytes)) :: u32) = take 4 (drop 25 bytes)"
      using long by (intro to_be_from_be [where n = 4]) simp_all
    ultimately show ?thesis by simp
  qed
  have "frame = wire_frame (frame ! 8) (take 16 (drop 9 frame)) (take 4 (drop 25 frame)) body"
    unfolding body_def using pe magic by (intro wire_frame_split) (simp_all add: frame_def)
  moreover have "frame ! 8 = bytes ! 8" "take 16 (drop 9 frame) = take 16 (drop 9 bytes)"
    "take 4 (drop 25 frame) = take 4 (drop 25 bytes)"
    using pe by (simp_all add: frame_def drop_take min_def)
  moreover have "bytes = frame @ drop pe bytes" by (simp add: frame_def)
  ultimately show ?thesis
    using dec by (simp add: decode_command_body_iff encode_wire_frame Let_def key16 len4 tag sum)
qed

lemma decode_wire_iff:
  "decode_wire sha bytes = Inr p \<longleftrightarrow> command_ok (command p) \<and> bytes = encode_wire sha p"
  using decode_wire_encode_wire decode_wire_canonical by blast

lemma decode_wire_tag_rejected:
  assumes "61 \<le> length bytes" "take 8 bytes = WIRE_MAGIC" "from_wire_tag (bytes ! 8) = Inl rej"
  shows "decode_wire sha bytes = Inl (ScopeRejectDataPlanePayload rej)"
  using assms by (simp add: decode_wire_def)

lemma probe_frame:
  "\<exists>len. length len = 4 \<and> encode_forbidden_data_plane_wire_probe sha kind key raw =
    (let frame = wire_frame (forbidden_wire_tag kind) (to_be key) len raw in frame @ to_be (sha frame))"
  by (rule exI [of _ "to_be (if length raw < 2 ^ 32 then of_nat (length raw) else - 1 :: u32)"])
    (simp add: encode_forbidden_data_plane_wire_probe_def wire_frame_def Let_def)

text \<open>A directory update with an IPv6 endpoint hint.\<close>

definition upsert_v6 ::
  "IdempotencyKey \<Rightarrow> CellIdentity \<Rightarrow> ControlDomainId \<Rightarrow> PrincipalId \<Rightarrow> Generation \<Rightarrow> CellEpoch \<Rightarrow> u64 \<Rightarrow>
   bytes16 \<Rightarrow> u16 \<Rightarrow> u32 \<Rightarrow> u32 \<Rightarrow> ControlPlaneProposal" where
  "upsert_v6 key cell domain principal_id boot_gen epoch hb ip port flowinfo scope_id =
     \<lparr>idempotency_key = key, command = CellDirectoryMutation
        (UpsertCellEndpoint cell domain principal_id boot_gen epoch hb
          (Some (SocketV6 ip port flowinfo scope_id)))\<rparr>"

section \<open>Properties of the command codec\<close>

text \<open>C7: the wire codec is exact. A byte string decodes to a proposal exactly when the proposal's
  nominal fields are in range (and its IPv6 endpoint hint, if any, has no flow label or scope id,
  which the code does not write) and the byte string is the encoding of the proposal, bit for bit:
  every proposal is read back as written, and no second byte string (no trailing bytes, no other
  option tag, no other length field, no other checksum) is accepted for it.\<close>

theorem decode_wire_exact:
  "decode_wire sha bytes = Inr p \<longleftrightarrow> command_ok (command p) \<and> bytes = encode_wire sha p"
  by (rule decode_wire_iff)

text \<open>C11: the body codec used for the log rows is exact, family by family: a stored body decodes
  under a family code and a key exactly to the proposals of that family and key whose encoding it
  is.\<close>

theorem decode_command_body_exact:
  "decode_command_body family key body = Inr p \<longleftrightarrow>
     idempotency_key p = key \<and> family_code (command p) = family \<and> command_ok (command p) \<and>
     body = encode_command_body p"
  by (rule decode_command_body_iff)

text \<open>C12: a frame carrying a data-plane family tag is refused as a data-plane payload, whatever
  its body, its length and its checksum. The refusal carries the offending tag and the kind of
  payload: for the five known data-plane families the kind that was written, for every other tag
  outside the control-plane families \<open>UnknownNonControlFamily\<close> with that tag (or the known family,
  where the unknown tag is one of the five).\<close>

theorem data_plane_probe_rejected:
  assumes "forbidden_wire_tag kind \<notin> {1, 2, 3, 4}"
  shows "\<exists>rej. decode_wire sha (encode_forbidden_data_plane_wire_probe sha' kind key raw) =
      Inl (ScopeRejectDataPlanePayload rej) \<and>
    rej_wire_tag rej = forbidden_wire_tag kind \<and>
    rej_kind rej = (case kind of
        UnknownNonControlFamily tag \<Rightarrow>
          (if tag = 0x81 then TaskExecutionMutation else if tag = 0x82 then FiberScheduleEvent
           else if tag = 0x83 then TopicMessagePublish else if tag = 0x84 then SemanticEventAppend
           else if tag = 0x85 then ArtifactBulkPayload else UnknownNonControlFamily tag)
      | _ \<Rightarrow> kind)"
proof -
  let ?bytes = "encode_forbidden_data_plane_wire_probe sha' kind key raw"
  obtain rej where rej: "from_wire_tag (forbidden_wire_tag kind) = Inl rej"
    "rej_wire_tag rej = forbidden_wire_tag kind"
    "rej_kind rej = (case kind of
        UnknownNonControlFamily tag \<Rightarrow>
          (if tag = 0x81 then TaskExecutionMutation else if tag = 0x82 then FiberScheduleEvent
           else if tag = 0x83 then TopicMessagePublish else if tag = 0x84 then SemanticEventAppend
           else if tag = 0x85 then ArtifactBulkPayload else UnknownNonControlFamily tag)
      | _ \<Rightarrow> kind)"
    using from_wire_tag_forbidden [OF assms] by (cases kind) auto
  obtain len where len: "length len = 4"
    and bytes: "?bytes = (let frame = wire_frame (forbidden_wire_tag kind) (to_be key) len raw
      in frame @ to_be (sha' frame))"
    using probe_frame by blast
  have "decode_wire sha ?bytes = Inl (ScopeRejectDataPlanePayload rej)"
    by (rule decode_wire_tag_rejected)
      (simp_all add: bytes Let_def len wire_frame_parts wire_frame_parts_end rej(1))
  with rej(2,3) show ?thesis by blast
qed

theorem data_plane_probe_rejected_witness:
  "\<exists>rej. decode_wire (\<lambda>_. 0) (encode_forbidden_data_plane_wire_probe (\<lambda>_. 7) TopicMessagePublish 5 [1, 2]) =
      Inl (ScopeRejectDataPlanePayload rej) \<and>
    rej_wire_tag rej = 0x83 \<and> rej_kind rej = TopicMessagePublish"
  using data_plane_probe_rejected [of TopicMessagePublish "\<lambda>_. 0" "\<lambda>_. 7" 5 "[1, 2]"] by simp

text \<open>C23: the codec does not separate two directory updates whose IPv6 endpoint hints differ only
  in flow label or scope id: their bodies, their wire frames and their digests are equal, although
  the proposals are different, and the decoder returns the one without either.\<close>

theorem endpoint_scope_not_encoded:
  assumes "boot_gen \<noteq> 0" "epoch \<noteq> 0" "(flowinfo, scope_id) \<noteq> (flowinfo', scope_id')"
  shows "let upsert = upsert_v6 key cell domain principal_id boot_gen epoch hb ip port in
    upsert flowinfo scope_id \<noteq> upsert flowinfo' scope_id' \<and>
    encode_command_body (upsert flowinfo scope_id) = encode_command_body (upsert flowinfo' scope_id') \<and>
    encode_wire sha (upsert flowinfo scope_id) = encode_wire sha (upsert flowinfo' scope_id') \<and>
    proposal_digest sha (upsert flowinfo scope_id) = proposal_digest sha (upsert flowinfo' scope_id') \<and>
    decode_wire sha (encode_wire sha (upsert flowinfo scope_id)) = Inr (upsert 0 0)"
proof -
  define upsert where "upsert = upsert_v6 key cell domain principal_id boot_gen epoch hb ip port"
  have body: "encode_command_body (upsert f z) = encode_command_body (upsert 0 0)" for f z
    by (simp add: upsert_def upsert_v6_def encode_command_body_def)
  have "proposal_digest sha (upsert f z) = proposal_digest sha (upsert 0 0)" for f z
    unfolding proposal_digest_def body [of f z] by (simp add: upsert_def upsert_v6_def)
  moreover have wire: "encode_wire sha (upsert f z) = encode_wire sha (upsert 0 0)" for f z
    unfolding encode_wire_def body [of f z] by (simp add: upsert_def upsert_v6_def)
  moreover have "decode_wire sha (encode_wire sha (upsert 0 0)) = Inr (upsert 0 0)"
    using assms(1,2) by (intro decode_wire_encode_wire) (simp add: upsert_def upsert_v6_def)
  moreover have "upsert flowinfo scope_id \<noteq> upsert flowinfo' scope_id'"
    using assms(3) by (simp add: upsert_def upsert_v6_def)
  ultimately show ?thesis
    using body [of flowinfo scope_id] body [of flowinfo' scope_id'] unfolding upsert_def [symmetric] Let_def
    by metis
qed

theorem endpoint_scope_not_encoded_witness:
  "encode_wire (\<lambda>bs. of_nat (length bs)) (upsert_v6 1 2 1 1 3 4 0 5 6 0 7) =
     encode_wire (\<lambda>bs. of_nat (length bs)) (upsert_v6 1 2 1 1 3 4 0 5 6 0 0)"
  using endpoint_scope_not_encoded [of 3 4 0 7 0 0 1 2 1 1 0 5 6 "\<lambda>bs. of_nat (length bs)"]
  by (simp add: Let_def)

end
