(* ===== verification/ControlPlaneInv.thy ===== *)
theory ControlPlaneInv
  imports ControlPlane
begin

text \<open>
  Invariants of the replicated state machine over every sequence of applied entries: quota
  conservation, capacity accounting, fencing tokens, and the monotone evolution of every table.
  \<open>sm_step\<close> is the application of one committed entry, with any index, term and proposal.
\<close>

section \<open>Steps\<close>

definition sm_step :: "sha256_fn \<Rightarrow> ControlPlaneStateMachine \<Rightarrow> ControlPlaneStateMachine \<Rightarrow> bool" where
  "sm_step sha s t \<longleftrightarrow> (\<exists>i cterm p out. apply_committed_entry sha i cterm p s = Inr (t, out))"

text \<open>Everything a step does to the tables is done by one handler, on the state with the new
  applied index; the bookkeeping around it touches the dedup table and the counters.\<close>

definition same_tables :: "ControlPlaneStateMachine \<Rightarrow> ControlPlaneStateMachine \<Rightarrow> bool" where
  "same_tables s t \<longleftrightarrow>
     trust_policy_epoch t = trust_policy_epoch s \<and> trust_policy_digest t = trust_policy_digest s \<and>
     cells t = cells s \<and> quota_pools t = quota_pools s \<and> quota_leases t = quota_leases s \<and>
     capacity_pools t = capacity_pools s \<and> capacity_leases t = capacity_leases s \<and>
     device_heads t = device_heads s \<and> fence_scope_high_water t = fence_scope_high_water s \<and>
     task_shards t = task_shards s \<and> takeover_receipts t = takeover_receipts s \<and>
     migration_anchors t = migration_anchors s \<and> checkpoint_anchors t = checkpoint_anchors s"

lemma apply_committed_entryE:
  assumes "apply_committed_entry sha i cterm p s = Inr (t, out)"
  obtains
    (replay) rec where "bt_get (dedup_table s) (idempotency_key p) = Some rec"
      "dr_proposal_digest rec = proposal_digest sha p" "last_applied_index s < i"
      "t = s\<lparr>last_applied_index := i, last_applied_term := cterm\<rparr>"
      "out = (case dr_rejection rec of None \<Rightarrow> Applied (dr_committed_index rec) True
         | Some reason \<Rightarrow> DomainRejected (dr_committed_index rec) reason)"
  | (conflict) rec where "bt_get (dedup_table s) (idempotency_key p) = Some rec"
      "dr_proposal_digest rec \<noteq> proposal_digest sha p" "last_applied_index s < i"
      "t = s\<lparr>last_applied_index := i, last_applied_term := cterm\<rparr>"
      "out = DomainRejected i IdempotencyKeyPayloadConflict"
  | (fresh) s1 rejection where "bt_get (dedup_table s) (idempotency_key p) = None"
      "last_applied_index s < i"
      "apply_inner i cterm (command p) (s\<lparr>last_applied_index := i, last_applied_term := cterm\<rparr>) =
         Inr (s1, rejection)"
      "t = s1\<lparr>dedup_table := bt_insert (idempotency_key p)
           \<lparr>dr_proposal_digest = proposal_digest sha p, dr_committed_index = i,
            dr_rejection = rejection\<rparr> (dedup_table s1),
         authority_receipt_high_water := (if rejection = None
           then saturating_add (authority_receipt_high_water s1) 1
           else authority_receipt_high_water s1)\<rparr>"
      "out = (case rejection of None \<Rightarrow> Applied i False | Some reason \<Rightarrow> DomainRejected i reason)"
proof (cases "bt_get (dedup_table s) (idempotency_key p)")
  case (Some rec)
  with assms replay conflict show ?thesis
    by (auto simp: apply_committed_entry_def Let_def split: if_splits)
next
  case None
  with assms obtain s1 rejection where
    "apply_inner i cterm (command p) (s\<lparr>last_applied_index := i, last_applied_term := cterm\<rparr>) =
       Inr (s1, rejection)"
    by (auto simp: apply_committed_entry_def Let_def result_bind_eq_Inr split: if_splits)
  with assms None fresh show ?thesis
    by (auto simp: apply_committed_entry_def Let_def split: if_splits option.splits)
qed

text \<open>No handler touches the counters, the applied position or the dedup table.\<close>

lemmas handler_defs = apply_register_quota_pool_def apply_allocate_quota_lease_def
  apply_allocate_capacity_lease_def apply_device_transition_def Let_def

lemma apply_root_lease_pool_frame:
  "apply_root_lease_pool i cmd s = Inr (t, r) \<Longrightarrow>
     dedup_table t = dedup_table s \<and> last_applied_index t = last_applied_index s \<and>
     last_applied_term t = last_applied_term s \<and>
     authority_receipt_high_water t = authority_receipt_high_water s \<and>
     trust_policy_epoch t = trust_policy_epoch s \<and> trust_policy_digest t = trust_policy_digest s \<and>
     cells t = cells s \<and> task_shards t = task_shards s \<and>
     takeover_receipts t = takeover_receipts s \<and> migration_anchors t = migration_anchors s \<and>
     checkpoint_anchors t = checkpoint_anchors s"
  by (cases cmd)
    (auto simp: handler_defs apply_settle_quota_lease_def split: if_splits option.splits)

lemma apply_cell_directory_frame:
  assumes "apply_cell_directory i cmd s = (t, r)"
  shows "\<exists>te td cs. t = s\<lparr>trust_policy_epoch := te, trust_policy_digest := td, cells := cs\<rparr>"
proof -
  have "t = s\<lparr>trust_policy_epoch := trust_policy_epoch t,
      trust_policy_digest := trust_policy_digest t, cells := cells t\<rparr>"
    using assms by (cases cmd) (auto split: if_splits option.splits)
  then show ?thesis by blast
qed

lemma apply_task_authority_frame:
  assumes "apply_task_authority i cterm cmd s = (t, r)"
  shows "\<exists>ts tr. t = s\<lparr>task_shards := ts, takeover_receipts := tr\<rparr>"
proof -
  have "t = s\<lparr>task_shards := task_shards t, takeover_receipts := takeover_receipts t\<rparr>"
    using assms by (cases cmd) (auto split: if_splits option.splits)
  then show ?thesis by blast
qed

lemma apply_audit_frame:
  assumes "apply_audit i cmd s = (t, r)"
  shows "\<exists>ma ck. t = s\<lparr>migration_anchors := ma, checkpoint_anchors := ck\<rparr>"
proof -
  have "t = s\<lparr>migration_anchors := migration_anchors t, checkpoint_anchors := checkpoint_anchors t\<rparr>"
    using assms by (cases cmd) (auto split: if_splits)
  then show ?thesis by blast
qed

lemma apply_inner_counters:
  assumes "apply_inner i cterm cmd s = Inr (t, r)"
  shows "dedup_table t = dedup_table s" "last_applied_index t = last_applied_index s"
    "last_applied_term t = last_applied_term s"
    "authority_receipt_high_water t = authority_receipt_high_water s"
  using assms
  by (cases cmd; auto dest!: apply_root_lease_pool_frame apply_cell_directory_frame
      apply_task_authority_frame apply_audit_frame)+

section \<open>Invariants preserved by the handlers hold along every run\<close>

text \<open>A predicate that ignores the counters, the applied position and the dedup table, and that
  every handler keeps, is kept by every step.\<close>

lemma table_invariant_step:
  assumes cong: "\<And>s t. same_tables s t \<Longrightarrow> P s = P t"
    and handler: "\<And>i cterm cmd s t r. P s \<Longrightarrow> apply_inner i cterm cmd s = Inr (t, r) \<Longrightarrow> P t"
    and "P s" "sm_step sha s t"
  shows "P t"
proof -
  from \<open>sm_step sha s t\<close> obtain i cterm p out
    where "apply_committed_entry sha i cterm p s = Inr (t, out)"
    by (auto simp: sm_step_def)
  then show ?thesis
  proof (cases rule: apply_committed_entryE)
    case (replay rec)
    then have "same_tables s t" by (simp add: same_tables_def)
    with \<open>P s\<close> cong show ?thesis by blast
  next
    case (conflict rec)
    then have "same_tables s t" by (simp add: same_tables_def)
    with \<open>P s\<close> cong show ?thesis by blast
  next
    case (fresh s1 rejection)
    let ?s = "s\<lparr>last_applied_index := i, last_applied_term := cterm\<rparr>"
    have "same_tables s ?s" by (simp add: same_tables_def)
    with \<open>P s\<close> cong have "P ?s" by blast
    then have "P s1" using handler fresh(3) by blast
    moreover have "same_tables s1 t" unfolding fresh(4) by (simp add: same_tables_def)
    ultimately show ?thesis using cong by blast
  qed
qed

section \<open>Quota conservation\<close>

text \<open>What one lease holds of a pool: its face value while active; once settled, the quarantined
  part, and the part that was neither returned nor quarantined, which is consumed.\<close>

definition held_active :: "bytes16 \<Rightarrow> ReplicatedQuotaLeaseEntry \<Rightarrow> nat" where
  "held_active root l =
     (if ql_budget_root l = root \<and> ql_disposition l = LeaseActive then unat (ql_face_value l) else 0)"

definition held_quarantined :: "bytes16 \<Rightarrow> ReplicatedQuotaLeaseEntry \<Rightarrow> nat" where
  "held_quarantined root l =
     (if ql_budget_root l = root \<and> ql_disposition l \<noteq> LeaseActive
      then unat (ql_quarantined_amount l) else 0)"

definition consumed :: "bytes16 \<Rightarrow> ReplicatedQuotaLeaseEntry \<Rightarrow> nat" where
  "consumed root l =
     (if ql_budget_root l = root \<and> ql_disposition l \<noteq> LeaseActive
      then unat (ql_face_value l) - unat (ql_returned_amount l) - unat (ql_quarantined_amount l)
      else 0)"

lemmas held_defs = held_active_def held_quarantined_def consumed_def

definition pool_accounted :: "ControlPlaneStateMachine \<Rightarrow> bytes16 \<Rightarrow> QuotaPoolBalance \<Rightarrow> nat" where
  "pool_accounted s root pool = unat (qp_available pool) + unat (qp_leased_active pool) +
     unat (qp_quarantined pool) + bt_sum (consumed root) (quota_leases s)"

definition pool_ok :: "ControlPlaneStateMachine \<Rightarrow> bytes16 \<Rightarrow> QuotaPoolBalance \<Rightarrow> bool" where
  "pool_ok s root pool \<longleftrightarrow>
     unat (qp_leased_active pool) = bt_sum (held_active root) (quota_leases s) \<and>
     unat (qp_quarantined pool) = bt_sum (held_quarantined root) (quota_leases s) \<and>
     pool_accounted s root pool < 2 ^ 64"

definition quota_inv :: "ControlPlaneStateMachine \<Rightarrow> bool" where
  "quota_inv s \<longleftrightarrow> bt_sorted (quota_leases s) \<and>
     (\<forall>k l. bt_get (quota_leases s) k = Some l \<longrightarrow> bt_contains (quota_pools s) (ql_budget_root l)) \<and>
     (\<forall>root pool. bt_get (quota_pools s) root = Some pool \<longrightarrow> pool_ok s root pool)"

lemma unat_less_64 [simp]: "unat (x :: u64) < 18446744073709551616"
  using unsigned_less [of x] by simp

lemma unat_diff_le: "(b :: u64) \<le> a \<Longrightarrow> unat (a - b) = unat a - unat b"
  by (simp add: unat_sub word_le_nat_alt)

lemma sums_fresh_pool:
  assumes "quota_inv s" "bt_get (quota_pools s) root = None"
  shows "bt_sum (held_active root) (quota_leases s) = 0"
    "bt_sum (held_quarantined root) (quota_leases s) = 0"
    "bt_sum (consumed root) (quota_leases s) = 0"
proof -
  have "bt_sorted (quota_leases s)" using assms by (simp add: quota_inv_def)
  moreover have "ql_budget_root l \<noteq> root" if "bt_get (quota_leases s) k = Some l" for k l
    using assms that unfolding quota_inv_def bt_contains_def by metis
  ultimately show "bt_sum (held_active root) (quota_leases s) = 0"
    "bt_sum (held_quarantined root) (quota_leases s) = 0"
    "bt_sum (consumed root) (quota_leases s) = 0"
    by (auto simp: held_defs intro!: bt_sum_none)
qed

lemma pool_ok_cong:
  "quota_leases s = quota_leases t \<Longrightarrow> pool_ok s = pool_ok t"
  "quota_leases s = quota_leases t \<Longrightarrow> pool_accounted s = pool_accounted t"
  by (simp_all add: fun_eq_iff pool_ok_def pool_accounted_def)

lemma quota_inv_register:
  assumes "quota_inv s" "apply_register_quota_pool root initial s = (t, r)"
  shows "quota_inv t"
proof (cases "bt_contains (quota_pools s) root")
  case True
  with assms show ?thesis by (simp add: apply_register_quota_pool_def)
next
  case False
  with assms(2) have t: "t = s\<lparr>quota_pools := bt_insert root
      \<lparr>qp_available = initial, qp_leased_active = 0, qp_quarantined = 0\<rparr> (quota_pools s)\<rparr>"
    by (simp add: apply_register_quota_pool_def)
  from False have "bt_get (quota_pools s) root = None" by (simp add: bt_contains_def)
  from sums_fresh_pool [OF assms(1) this]
  have new: "pool_ok s root \<lparr>qp_available = initial, qp_leased_active = 0, qp_quarantined = 0\<rparr>"
    by (simp add: pool_ok_def pool_accounted_def)
  have "pool_ok t = pool_ok s" by (rule pool_ok_cong) (simp add: t)
  with assms(1) new show ?thesis
    unfolding quota_inv_def by (auto simp: t bt_contains_def)
qed

text \<open>Granting moves the face value from available to leased; settling moves it from leased to
  available, quarantined and consumed. Neither saturates.\<close>

lemma grant_accounting:
  assumes "quota_inv s" and pool: "bt_get (quota_pools s) root = Some pool"
    and fresh: "bt_get (quota_leases s) lease_id = None" and "face \<le> qp_available pool"
    and l: "ql_budget_root l = root" "ql_disposition l = LeaseActive" "ql_face_value l = face"
  defines "pool' \<equiv> pool\<lparr>qp_available := qp_available pool - face,
    qp_leased_active := saturating_add (qp_leased_active pool) face\<rparr>"
    and "t \<equiv> s\<lparr>quota_leases := bt_insert lease_id l (quota_leases s)\<rparr>"
  shows "pool_ok t root pool'" "pool_accounted t root pool' = pool_accounted s root pool"
proof -
  have ok: "pool_ok s root pool" using assms(1) pool by (simp add: quota_inv_def)
  have avail: "unat (qp_available pool - face) + unat face = unat (qp_available pool)"
    using assms(4) by (simp add: unat_diff_le word_le_nat_alt)
  then have leased: "unat (saturating_add (qp_leased_active pool) face) =
      unat (qp_leased_active pool) + unat face"
    using ok by (simp add: pool_ok_def pool_accounted_def sat_simps)
  show acc: "pool_accounted t root pool' = pool_accounted s root pool"
    using avail leased
    by (simp add: pool_accounted_def t_def pool'_def bt_sum_insert_fresh [OF fresh] consumed_def l)
  have "bt_sum (held_active root) (quota_leases t) =
      unat face + bt_sum (held_active root) (quota_leases s)"
    and "bt_sum (held_quarantined root) (quota_leases t) =
      bt_sum (held_quarantined root) (quota_leases s)"
    by (simp_all add: t_def bt_sum_insert_fresh [OF fresh] held_defs l)
  with ok acc leased show "pool_ok t root pool'"
    by (simp add: pool_ok_def pool'_def)
qed

lemma settle_accounting:
  assumes "quota_inv s" and pool: "bt_get (quota_pools s) root = Some pool"
    and old: "bt_get (quota_leases s) lease_id = Some l0"
    and l0: "ql_budget_root l0 = root" "ql_disposition l0 = LeaseActive"
    and l: "ql_budget_root l = root" "ql_disposition l \<noteq> LeaseActive"
      "ql_face_value l = ql_face_value l0" "ql_returned_amount l = returned"
      "ql_quarantined_amount l = quarantined"
    and le: "unat returned + unat quarantined \<le> unat (ql_face_value l0)"
  defines "pool' \<equiv> pool
     \<lparr>qp_leased_active := saturating_sub (qp_leased_active pool) (ql_face_value l0),
      qp_available := saturating_add (qp_available pool) returned,
      qp_quarantined := saturating_add (qp_quarantined pool) quarantined\<rparr>"
    and "t \<equiv> s\<lparr>quota_leases := bt_insert lease_id l (quota_leases s)\<rparr>"
  shows "pool_ok t root pool'" "pool_accounted t root pool' = pool_accounted s root pool"
proof -
  have srt: "bt_sorted (quota_leases s)" and ok: "pool_ok s root pool"
    using assms(1) pool by (simp_all add: quota_inv_def)
  note replace = bt_sum_insert_replace [OF srt old, where v = l]
  have active: "bt_sum (held_active root) (quota_leases t) + unat (ql_face_value l0) =
      bt_sum (held_active root) (quota_leases s)"
    using replace [of "held_active root"] by (simp add: held_defs l0 l t_def)
  have quar: "bt_sum (held_quarantined root) (quota_leases t) =
      unat quarantined + bt_sum (held_quarantined root) (quota_leases s)"
    using replace [of "held_quarantined root"] by (simp add: held_defs l0 l t_def)
  have cons: "bt_sum (consumed root) (quota_leases t) =
      (unat (ql_face_value l0) - unat returned - unat quarantined) +
      bt_sum (consumed root) (quota_leases s)"
    using replace [of "consumed root"] by (simp add: held_defs l0 l t_def)
  have leased': "unat (qp_leased_active pool') + unat (ql_face_value l0) = unat (qp_leased_active pool)"
    using ok active by (simp add: pool_ok_def pool'_def sat_simps)
  have avail': "unat (qp_available pool') = unat (qp_available pool) + unat returned"
    and quar': "unat (qp_quarantined pool') = unat (qp_quarantined pool) + unat quarantined"
    using ok leased' le by (simp_all add: pool_ok_def pool_accounted_def pool'_def sat_simps)
  show acc: "pool_accounted t root pool' = pool_accounted s root pool"
    using leased' avail' quar' cons le by (simp add: pool_accounted_def)
  show "pool_ok t root pool'"
    using ok acc leased' quar' active quar by (simp add: pool_ok_def)
qed

text \<open>The pools a lease does not draw on do not see it.\<close>

lemma other_pool_unaffected:
  assumes "bt_sorted (quota_leases s)" and "root \<noteq> ql_budget_root l"
    and "\<And>l0. bt_get (quota_leases s) lease_id = Some l0 \<Longrightarrow> ql_budget_root l0 = ql_budget_root l"
  defines "t \<equiv> s\<lparr>quota_leases := bt_insert lease_id l (quota_leases s)\<rparr>"
  shows "pool_ok t root pool = pool_ok s root pool"
    "pool_accounted t root pool = pool_accounted s root pool"
proof -
  have eq: "bt_sum f (quota_leases t) = bt_sum f (quota_leases s)"
    if "f l = 0" "\<And>l0. bt_get (quota_leases s) lease_id = Some l0 \<Longrightarrow> f l0 = 0" for f
    using bt_sum_insert_fresh [of "quota_leases s" lease_id f l]
      bt_sum_insert_replace [OF assms(1), of lease_id _ f l] that
    by (cases "bt_get (quota_leases s) lease_id") (simp_all add: t_def)
  have "bt_sum (held_active root) (quota_leases t) = bt_sum (held_active root) (quota_leases s)"
    "bt_sum (held_quarantined root) (quota_leases t) = bt_sum (held_quarantined root) (quota_leases s)"
    "bt_sum (consumed root) (quota_leases t) = bt_sum (consumed root) (quota_leases s)"
    by (rule eq; use assms(2,3) in \<open>auto simp: held_defs\<close>)+
  then show "pool_ok t root pool = pool_ok s root pool"
    "pool_accounted t root pool = pool_accounted s root pool"
    by (simp_all add: pool_ok_def pool_accounted_def)
qed

text \<open>What an accepted grant and an accepted settlement are.\<close>

lemma allocate_quota_leaseE:
  assumes "apply_allocate_quota_lease i lease_id root holder boot_gen face epoch token scope s = (t, r)"
  obtains (rejected) "t = s" "r \<noteq> None"
  | (granted) pool l where "r = None" "bt_get (quota_leases s) lease_id = None" "face \<noteq> 0"
      "\<not> token_stale s scope token" "bt_get (quota_pools s) root = Some pool"
      "face \<le> qp_available pool"
      "l = \<lparr>ql_lease_id = lease_id, ql_budget_root = root, ql_holder_cell = holder,
        ql_node_boot_generation = boot_gen, ql_face_value = face, ql_returned_amount = 0,
        ql_quarantined_amount = 0, ql_epoch = epoch, ql_fencing_token = token,
        ql_fence_scope = scope, ql_disposition = LeaseActive, ql_committed_at_index = i\<rparr>"
      "t = s\<lparr>quota_pools := bt_insert root (pool\<lparr>qp_available := qp_available pool - face,
            qp_leased_active := saturating_add (qp_leased_active pool) face\<rparr>) (quota_pools s),
          fence_scope_high_water := bt_insert scope token (fence_scope_high_water s),
          quota_leases := bt_insert lease_id l (quota_leases s)\<rparr>"
proof (cases r)
  case (Some reason)
  with assms have "t = s"
    by (auto simp: apply_allocate_quota_lease_def Let_def split: if_splits option.splits)
  with Some rejected show ?thesis by simp
next
  case None
  with assms obtain pool where ok: "bt_get (quota_leases s) lease_id = None" "face \<noteq> 0"
    "\<not> token_stale s scope token" "bt_get (quota_pools s) root = Some pool"
    and le: "\<not> qp_available pool < face"
    by (auto simp: apply_allocate_quota_lease_def bt_contains_def Let_def
        split: if_splits option.splits)
  show ?thesis
    by (rule granted [OF None ok _ refl])
      (use assms ok le in \<open>simp_all add: apply_allocate_quota_lease_def bt_contains_def Let_def\<close>)
qed

lemma settle_quota_leaseE:
  assumes "apply_settle_quota_lease i lease_id disposition returned quarantined new_epoch new_token s =
    Inr (t, r)"
  obtains (rejected) "t = s" "r \<noteq> None"
  | (settled) pool l0 l where "r = None" "bt_get (quota_leases s) lease_id = Some l0"
      "ql_disposition l0 = LeaseActive" "disposition \<noteq> LeaseActive" "ql_epoch l0 \<le> new_epoch"
      "\<not> token_stale s (ql_fence_scope l0) new_token"
      "unat returned + unat quarantined \<le> unat (ql_face_value l0)"
      "disposition = LeaseQuarantined \<longrightarrow> returned = 0"
      "bt_get (quota_pools s) (ql_budget_root l0) = Some pool"
      "l = l0\<lparr>ql_disposition := disposition, ql_returned_amount := returned,
        ql_quarantined_amount := quarantined, ql_epoch := new_epoch,
        ql_fencing_token := new_token, ql_committed_at_index := i\<rparr>"
      "t = s\<lparr>quota_pools := bt_insert (ql_budget_root l0) (pool
            \<lparr>qp_leased_active := saturating_sub (qp_leased_active pool) (ql_face_value l0),
             qp_available := saturating_add (qp_available pool) returned,
             qp_quarantined := saturating_add (qp_quarantined pool) quarantined\<rparr>) (quota_pools s),
          fence_scope_high_water := bt_insert (ql_fence_scope l0) new_token (fence_scope_high_water s),
          quota_leases := bt_insert lease_id l (quota_leases s)\<rparr>"
proof (cases r)
  case (Some reason)
  with assms have "t = s"
    by (auto simp: apply_settle_quota_lease_def Let_def split: if_splits option.splits)
  with Some rejected show ?thesis by simp
next
  case None
  with assms obtain pool l0 total_accounted where
    ok: "bt_get (quota_leases s) lease_id = Some l0"
    "ql_disposition l0 = LeaseActive" "disposition \<noteq> LeaseActive" and ep: "\<not> new_epoch < ql_epoch l0"
    and tok: "\<not> token_stale s (ql_fence_scope l0) new_token"
    and acc: "checked_add returned quarantined = Some total_accounted"
    "\<not> ql_face_value l0 < total_accounted"
    and ok': "disposition = LeaseQuarantined \<longrightarrow> returned = 0"
    "bt_get (quota_pools s) (ql_budget_root l0) = Some pool"
    by (auto simp: apply_settle_quota_lease_def Let_def split: if_splits option.splits)
  have le: "unat returned + unat quarantined \<le> unat (ql_face_value l0)"
    using acc by (simp add: sat_simps word_le_nat_alt not_less)
  have t: "(t, r) = (s\<lparr>quota_pools := bt_insert (ql_budget_root l0) (pool
            \<lparr>qp_leased_active := saturating_sub (qp_leased_active pool) (ql_face_value l0),
             qp_available := saturating_add (qp_available pool) returned,
             qp_quarantined := saturating_add (qp_quarantined pool) quarantined\<rparr>) (quota_pools s),
          fence_scope_high_water := bt_insert (ql_fence_scope l0) new_token (fence_scope_high_water s),
          quota_leases := bt_insert lease_id (l0\<lparr>ql_disposition := disposition,
            ql_returned_amount := returned, ql_quarantined_amount := quarantined,
            ql_epoch := new_epoch, ql_fencing_token := new_token,
            ql_committed_at_index := i\<rparr>) (quota_leases s)\<rparr>, None)"
    using assms ok ep tok acc ok' by (simp add: apply_settle_quota_lease_def Let_def split: if_splits)
  show ?thesis
    by (rule settled [OF None ok _ tok le ok' refl]) (use ep t in simp_all)
qed

text \<open>A state whose quota tables changed by one lease and its pool.\<close>

lemma quota_inv_update:
  assumes inv: "quota_inv s" and l: "ql_budget_root l = root"
    and old: "\<And>l0. bt_get (quota_leases s) k = Some l0 \<Longrightarrow> ql_budget_root l0 = root"
    and here: "pool_ok (s\<lparr>quota_leases := bt_insert k l (quota_leases s)\<rparr>) root pool'"
    and pools: "quota_pools t = bt_insert root pool' (quota_pools s)"
    and leases: "quota_leases t = bt_insert k l (quota_leases s)"
  shows "quota_inv t"
proof -
  let ?u = "s\<lparr>quota_leases := bt_insert k l (quota_leases s)\<rparr>"
  have srt: "bt_sorted (quota_leases s)" using inv by (simp add: quota_inv_def)
  have cong: "pool_ok t = pool_ok ?u" by (rule pool_ok_cong) (simp add: leases)
  have there: "pool_ok ?u root' q" if "root' \<noteq> root" "bt_get (quota_pools s) root' = Some q" for root' q
    using other_pool_unaffected(1) [OF srt, of root' l k q] that inv l old by (simp add: quota_inv_def)
  have "bt_contains (quota_pools t) (ql_budget_root l')" if "bt_get (quota_leases t) k' = Some l'" for k' l'
  proof (cases "k' = k")
    case False
    with that leases inv have "bt_contains (quota_pools s) (ql_budget_root l')"
      by (simp add: quota_inv_def)
    then show ?thesis by (simp add: pools bt_contains_def)
  qed (use that leases l in \<open>simp add: pools bt_contains_def\<close>)
  moreover have "pool_ok t root' q" if "bt_get (quota_pools t) root' = Some q" for root' q
    using that here there [of root' q] by (simp add: cong pools split: if_splits)
  ultimately show ?thesis
    using srt by (simp add: quota_inv_def leases)
qed

lemma quota_inv_allocate:
  assumes inv: "quota_inv s"
    and ap: "apply_allocate_quota_lease i lease_id root holder boot_gen face epoch token scope s = (t, r)"
  shows "quota_inv t"
  using ap
proof (cases rule: allocate_quota_leaseE)
  case rejected
  with inv show ?thesis by simp
next
  case (granted pool l)
  note here = grant_accounting(1) [OF inv granted(5) granted(2) granted(6)]
  show ?thesis
    by (rule quota_inv_update [OF inv _ _ here]) (simp_all add: granted(2,7,8))
qed

lemma quota_inv_settle:
  assumes inv: "quota_inv s"
    and ap: "apply_settle_quota_lease i lease_id disposition returned quarantined new_epoch new_token s =
      Inr (t, r)"
  shows "quota_inv t"
  using ap
proof (cases rule: settle_quota_leaseE)
  case rejected
  with inv show ?thesis by simp
next
  case (settled pool l0 l)
  note here = settle_accounting(1) [OF inv settled(9) settled(2) refl settled(3) _ _ _ _ _ settled(7)]
  show ?thesis
    by (rule quota_inv_update [OF inv _ _ here]) (simp_all add: settled(2,4,10,11))
qed

text \<open>The other commands leave the quota tables alone.\<close>

lemma quota_inv_same:
  "quota_inv s \<Longrightarrow> quota_pools t = quota_pools s \<Longrightarrow> quota_leases t = quota_leases s \<Longrightarrow> quota_inv t"
  using pool_ok_cong(1) [of t s] by (simp add: quota_inv_def)

lemma quota_tables_untouched:
  "apply_allocate_capacity_lease i lease_id pool_id total_cap target boot_gen amount cepoch token s = (t, r) \<Longrightarrow>
     quota_pools t = quota_pools s \<and> quota_leases t = quota_leases s \<and>
     fence_scope_high_water t = fence_scope_high_water s \<and> device_heads t = device_heads s"
  "apply_device_transition i device dlease epoch holder dtoken new_state has_proof s = (t, r) \<Longrightarrow>
     quota_pools t = quota_pools s \<and> quota_leases t = quota_leases s \<and>
     fence_scope_high_water t = fence_scope_high_water s \<and>
     capacity_pools t = capacity_pools s \<and> capacity_leases t = capacity_leases s"
  "apply_cell_directory i cdc s = (t, r) \<Longrightarrow>
     quota_pools t = quota_pools s \<and> quota_leases t = quota_leases s"
  "apply_task_authority i cterm tac s = (t, r) \<Longrightarrow>
     quota_pools t = quota_pools s \<and> quota_leases t = quota_leases s"
  "apply_audit i auc s = (t, r) \<Longrightarrow>
     quota_pools t = quota_pools s \<and> quota_leases t = quota_leases s"
  by (auto simp: handler_defs split: if_splits option.splits
      dest!: apply_cell_directory_frame apply_task_authority_frame apply_audit_frame)

lemma quota_inv_handler:
  assumes "quota_inv s" "apply_inner i cterm cmd s = Inr (t, r)"
  shows "quota_inv t"
proof (cases cmd)
  case (RootLeasePoolMutation c)
  with assms show ?thesis
    by (cases c) (auto intro: quota_inv_register quota_inv_allocate quota_inv_settle
        quota_inv_same [OF assms(1)] dest: quota_tables_untouched)
qed (use assms in \<open>auto intro: quota_inv_same [OF assms(1)] dest: quota_tables_untouched\<close>)

text \<open>What a pool accounts for never changes: no command creates or destroys quota.\<close>

definition conserves :: "ControlPlaneStateMachine \<Rightarrow> ControlPlaneStateMachine \<Rightarrow> bool" where
  "conserves s t \<longleftrightarrow> (\<forall>root pool. bt_get (quota_pools s) root = Some pool \<longrightarrow>
     (\<exists>pool'. bt_get (quota_pools t) root = Some pool' \<and>
        pool_accounted t root pool' = pool_accounted s root pool))"

lemma conserves_same:
  "quota_pools t = quota_pools s \<Longrightarrow> quota_leases t = quota_leases s \<Longrightarrow> conserves s t"
  using pool_ok_cong(2) [of s t] by (simp add: conserves_def)

lemma conserves_trans: "conserves s t \<Longrightarrow> conserves t u \<Longrightarrow> conserves s u"
  unfolding conserves_def by metis

lemma conserves_update:
  assumes inv: "quota_inv s" and l: "ql_budget_root l = root"
    and old: "\<And>l0. bt_get (quota_leases s) k = Some l0 \<Longrightarrow> ql_budget_root l0 = root"
    and pool: "bt_get (quota_pools s) root = Some pool"
    and here: "pool_accounted (s\<lparr>quota_leases := bt_insert k l (quota_leases s)\<rparr>) root pool' =
      pool_accounted s root pool"
    and pools: "quota_pools t = bt_insert root pool' (quota_pools s)"
    and leases: "quota_leases t = bt_insert k l (quota_leases s)"
  shows "conserves s t"
proof -
  let ?u = "s\<lparr>quota_leases := bt_insert k l (quota_leases s)\<rparr>"
  have srt: "bt_sorted (quota_leases s)" using inv by (simp add: quota_inv_def)
  have cong: "pool_accounted t = pool_accounted ?u" by (rule pool_ok_cong) (simp add: leases)
  have "pool_accounted ?u root' q = pool_accounted s root' q" if "root' \<noteq> root" for root' q
    using other_pool_unaffected(2) [OF srt, of root' l k q] that l old by simp
  with here pool show ?thesis
    by (simp add: conserves_def cong pools)
qed

lemma conserves_handler:
  assumes inv: "quota_inv s" and ap: "apply_inner i cterm cmd s = Inr (t, r)"
  shows "conserves s t"
proof -
  have reg: "conserves s t" if "apply_register_quota_pool root initial s = (t, r)" for root initial
    using that pool_ok_cong(2) [of s t]
    by (auto simp: apply_register_quota_pool_def conserves_def bt_contains_def split: if_splits)
  have alloc: "conserves s t"
    if "apply_allocate_quota_lease i lease_id root holder boot_gen face epoch token scope s = (t, r)"
    for lease_id root holder boot_gen face epoch token scope
    using that
  proof (cases rule: allocate_quota_leaseE)
    case (granted pool l)
    note here = grant_accounting(2) [OF inv granted(5) granted(2) granted(6)]
    show ?thesis
      by (rule conserves_update [OF inv _ _ granted(5) here]) (simp_all add: granted(2,7,8))
  qed (simp add: conserves_same)
  have settle: "conserves s t"
    if "apply_settle_quota_lease i lease_id disposition returned quarantined epoch token s = Inr (t, r)"
    for lease_id disposition returned quarantined epoch token
    using that
  proof (cases rule: settle_quota_leaseE)
    case (settled pool l0 l)
    note here = settle_accounting(2) [OF inv settled(9) settled(2) refl settled(3) _ _ _ _ _ settled(7)]
    show ?thesis
      by (rule conserves_update [OF inv _ _ settled(9) here]) (simp_all add: settled(2,4,10,11))
  qed (simp add: conserves_same)
  show ?thesis
  proof (cases cmd)
    case (RootLeasePoolMutation c)
    with ap show ?thesis
      by (cases c) (auto intro: reg alloc settle conserves_same dest: quota_tables_untouched)
  qed (use ap in \<open>auto intro: conserves_same dest: quota_tables_untouched\<close>)
qed

section \<open>Capacity accounting\<close>

definition held_capacity :: "bytes16 \<Rightarrow> ReplicatedCapacityLeaseEntry \<Rightarrow> nat" where
  "held_capacity pool_id l = (if cl_pool_id l = pool_id then unat (cl_amount l) else 0)"

definition capacity_inv :: "ControlPlaneStateMachine \<Rightarrow> bool" where
  "capacity_inv s \<longleftrightarrow> bt_sorted (capacity_leases s) \<and>
     (\<forall>k l. bt_get (capacity_leases s) k = Some l \<longrightarrow> bt_contains (capacity_pools s) (cl_pool_id l)) \<and>
     (\<forall>pool_id pool. bt_get (capacity_pools s) pool_id = Some pool \<longrightarrow>
        unat (cp_committed pool) = bt_sum (held_capacity pool_id) (capacity_leases s) \<and>
        cp_committed pool \<le> cp_total_capacity pool)"

lemma capacity_inv_same:
  "capacity_inv s \<Longrightarrow> capacity_pools t = capacity_pools s \<Longrightarrow> capacity_leases t = capacity_leases s \<Longrightarrow>
     capacity_inv t"
  by (simp add: capacity_inv_def)

lemma capacity_sum_fresh_pool:
  assumes "capacity_inv s" "bt_get (capacity_pools s) pool_id = None"
  shows "bt_sum (held_capacity pool_id) (capacity_leases s) = 0"
proof (rule bt_sum_none)
  show "bt_sorted (capacity_leases s)" using assms by (simp add: capacity_inv_def)
  show "held_capacity pool_id l = 0" if "bt_get (capacity_leases s) k = Some l" for k l
    using assms that unfolding capacity_inv_def held_capacity_def bt_contains_def by metis
qed

text \<open>The pool \<open>entry(pool_id).or_insert(..)\<close> yields, and the state that holds it.\<close>

definition capacity_pool_or_insert ::
  "bytes16 \<Rightarrow> u64 \<Rightarrow> ControlPlaneStateMachine \<Rightarrow> CapacityPoolBalance \<times> ControlPlaneStateMachine" where
  "capacity_pool_or_insert pool_id pool_total s =
     (case bt_get (capacity_pools s) pool_id of
        Some pool \<Rightarrow> (pool, s)
      | None \<Rightarrow> let pool = \<lparr>cp_total_capacity = pool_total, cp_committed = 0\<rparr>
          in (pool, s\<lparr>capacity_pools := bt_insert pool_id pool (capacity_pools s)\<rparr>))"

lemma capacity_inv_or_insert:
  assumes inv: "capacity_inv s" and oi: "capacity_pool_or_insert pool_id pool_total s = (pool, s1)"
  shows "capacity_inv s1" "bt_get (capacity_pools s1) pool_id = Some pool"
    "capacity_leases s1 = capacity_leases s"
proof -
  show "bt_get (capacity_pools s1) pool_id = Some pool" "capacity_leases s1 = capacity_leases s"
    using oi by (auto simp: capacity_pool_or_insert_def Let_def split: option.splits)
  show "capacity_inv s1"
  proof (cases "bt_get (capacity_pools s) pool_id")
    case None
    with capacity_sum_fresh_pool [OF inv None] inv oi show ?thesis
      unfolding capacity_inv_def
      by (auto simp: capacity_pool_or_insert_def Let_def bt_contains_def split: if_splits)
  qed (use oi inv in \<open>simp add: capacity_pool_or_insert_def\<close>)
qed

lemma allocate_capacity_leaseE:
  assumes "apply_allocate_capacity_lease i lease_id pool_id pool_total target boot_gen amount cepoch token s = (t, r)"
  obtains (early) "t = s" "r \<noteq> None"
  | (rejected) pool where "capacity_pool_or_insert pool_id pool_total s = (pool, t)" "r \<noteq> None"
  | (granted) pool s1 new_committed l where "r = None" "bt_get (capacity_leases s) lease_id = None"
      "capacity_pool_or_insert pool_id pool_total s = (pool, s1)"
      "checked_add (cp_committed pool) amount = Some new_committed"
      "new_committed \<le> cp_total_capacity pool"
      "l = \<lparr>cl_capacity_lease_id = lease_id, cl_pool_id = pool_id, cl_target_cell = target,
        cl_target_boot_generation = boot_gen, cl_amount = amount, cl_capacity_epoch = cepoch,
        cl_fencing_token = token, cl_committed_at_index = i\<rparr>"
      "t = s1\<lparr>capacity_pools := bt_insert pool_id (pool\<lparr>cp_committed := new_committed\<rparr>) (capacity_pools s1),
        capacity_leases := bt_insert lease_id l (capacity_leases s1)\<rparr>"
proof -
  obtain pool s1 where oi: "capacity_pool_or_insert pool_id pool_total s = (pool, s1)" by fastforce
  have alt: "apply_allocate_capacity_lease i lease_id pool_id pool_total target boot_gen amount cepoch token s =
     (if bt_contains (capacity_leases s) lease_id \<or> amount = 0
      then (s, Some InsufficientOrInvalidPoolBalance)
      else if cp_total_capacity pool \<noteq> pool_total then (s1, Some InsufficientOrInvalidPoolBalance)
      else case checked_add (cp_committed pool) amount of
        None \<Rightarrow> (s1, Some InsufficientOrInvalidPoolBalance)
      | Some new_committed \<Rightarrow>
          if new_committed > cp_total_capacity pool then (s1, Some InsufficientOrInvalidPoolBalance)
          else (s1\<lparr>capacity_pools := bt_insert pool_id (pool\<lparr>cp_committed := new_committed\<rparr>) (capacity_pools s1),
              capacity_leases := bt_insert lease_id
                \<lparr>cl_capacity_lease_id = lease_id, cl_pool_id = pool_id, cl_target_cell = target,
                 cl_target_boot_generation = boot_gen, cl_amount = amount,
                 cl_capacity_epoch = cepoch, cl_fencing_token = token,
                 cl_committed_at_index = i\<rparr> (capacity_leases s1)\<rparr>, None))"
    using oi
    by (auto simp: apply_allocate_capacity_lease_def capacity_pool_or_insert_def Let_def
        bt_contains_def split: option.splits)
  show ?thesis
  proof (cases r)
    case (Some reason)
    then have "t = s \<or> t = s1"
      using assms unfolding alt by (auto split: if_splits option.splits)
    with Some oi early rejected show ?thesis by blast
  next
    case None
    then obtain new_committed where ok: "bt_get (capacity_leases s) lease_id = None"
      "checked_add (cp_committed pool) amount = Some new_committed"
      and le: "\<not> cp_total_capacity pool < new_committed"
      using assms unfolding alt by (auto simp: bt_contains_def split: if_splits option.splits)
    show ?thesis
      by (rule granted [OF None ok(1) oi ok(2) _ refl])
        (use assms ok le None in \<open>auto simp: alt bt_contains_def split: if_splits\<close>)
  qed
qed

lemma capacity_inv_allocate:
  assumes inv: "capacity_inv s"
    and ap: "apply_allocate_capacity_lease i lease_id pool_id pool_total target boot_gen amount cepoch token s = (t, r)"
  shows "capacity_inv t"
  using ap
proof (cases rule: allocate_capacity_leaseE)
  case early
  with inv show ?thesis by simp
next
  case (rejected pool)
  from capacity_inv_or_insert(1) [OF inv this(1)] show ?thesis .
next
  case (granted pool s1 new_committed l)
  note oi = capacity_inv_or_insert [OF inv granted(3)]
  have fresh: "bt_get (capacity_leases s1) lease_id = None" using granted(2) oi(3) by simp
  have sums: "bt_sum (held_capacity p) (capacity_leases t) =
      held_capacity p l + bt_sum (held_capacity p) (capacity_leases s1)" for p
    by (simp add: granted(7) bt_sum_insert_fresh [OF fresh])
  have here: "unat new_committed = bt_sum (held_capacity pool_id) (capacity_leases t)"
    using oi(1,2) granted(4) sums [of pool_id]
    by (simp add: capacity_inv_def held_capacity_def granted(6) sat_simps)
  have there: "bt_sum (held_capacity p) (capacity_leases t) = bt_sum (held_capacity p) (capacity_leases s1)"
    if "p \<noteq> pool_id" for p
    using sums [of p] that by (simp add: held_capacity_def granted(6))
  have "bt_contains (capacity_pools t) (cl_pool_id l')" if "bt_get (capacity_leases t) k = Some l'" for k l'
    using that oi(1) by (auto simp: granted(6,7) capacity_inv_def bt_contains_def split: if_splits)
  moreover have "bt_sorted (capacity_leases t)" using oi(1) by (simp add: granted(7) capacity_inv_def)
  moreover have "unat (cp_committed q) = bt_sum (held_capacity p) (capacity_leases t) \<and>
      cp_committed q \<le> cp_total_capacity q" if "bt_get (capacity_pools t) p = Some q" for p q
  proof (cases "p = pool_id")
    case True
    with that here granted(5) show ?thesis by (auto simp: granted(7))
  next
    case False
    with that there [OF False] oi(1) show ?thesis by (simp add: granted(7) capacity_inv_def)
  qed
  ultimately show ?thesis by (simp add: capacity_inv_def)
qed

lemma capacity_tables_untouched:
  "apply_register_quota_pool root initial s = (t, r) \<Longrightarrow>
     capacity_pools t = capacity_pools s \<and> capacity_leases t = capacity_leases s"
  "apply_allocate_quota_lease i lease_id root holder boot_gen face epoch token scope s = (t, r) \<Longrightarrow>
     capacity_pools t = capacity_pools s \<and> capacity_leases t = capacity_leases s"
  "apply_settle_quota_lease i lease_id disposition returned quarantined new_epoch new_token s = Inr (t, r) \<Longrightarrow>
     capacity_pools t = capacity_pools s \<and> capacity_leases t = capacity_leases s"
  by (auto simp: apply_register_quota_pool_def split: if_splits
      elim!: allocate_quota_leaseE settle_quota_leaseE)

lemma other_families_capacity:
  "apply_cell_directory i cdc s = (t, r) \<Longrightarrow>
     capacity_pools t = capacity_pools s \<and> capacity_leases t = capacity_leases s"
  "apply_task_authority i cterm tac s = (t, r) \<Longrightarrow>
     capacity_pools t = capacity_pools s \<and> capacity_leases t = capacity_leases s"
  "apply_audit i auc s = (t, r) \<Longrightarrow>
     capacity_pools t = capacity_pools s \<and> capacity_leases t = capacity_leases s"
  by (auto dest!: apply_cell_directory_frame apply_task_authority_frame apply_audit_frame)

lemma capacity_inv_handler:
  assumes "capacity_inv s" "apply_inner i cterm cmd s = Inr (t, r)"
  shows "capacity_inv t"
proof (cases cmd)
  case (RootLeasePoolMutation c)
  with assms show ?thesis
    by (cases c) (auto intro: capacity_inv_allocate capacity_inv_same [OF assms(1)]
        dest: capacity_tables_untouched quota_tables_untouched)
qed (use assms in \<open>auto intro: capacity_inv_same [OF assms(1)] dest: other_families_capacity\<close>)

end
