(* ===== verification/EndpointHints.thy ===== *)
theory EndpointHints
  imports Snapshot CommandCodec ControlPlaneInv
begin

text \<open>
  Neither the wire codec nor the snapshot writes the flow label and the scope id of an IPv6 endpoint
  hint. \<open>plain_proposal\<close> and \<open>plain_sm\<close> are a proposal and a state without them: they have the same
  encodings, digests and roots, and applying the plain proposal to the plain state gives the plain
  form of what the proposal gives on the state.
\<close>

section \<open>Plain proposals and states\<close>

fun plain_hint :: "SocketAddr option \<Rightarrow> SocketAddr option" where
  "plain_hint (Some (SocketV6 ip port flowinfo scope_id)) = Some (SocketV6 ip port 0 0)"
| "plain_hint hint = hint"

definition plain_cell :: "ReplicatedCellDirectoryEntry \<Rightarrow> ReplicatedCellDirectoryEntry" where
  "plain_cell e = e\<lparr>ce_endpoint_hint := plain_hint (ce_endpoint_hint e)\<rparr>"

definition plain_sm :: "ControlPlaneStateMachine \<Rightarrow> ControlPlaneStateMachine" where
  "plain_sm s = s\<lparr>cells := map (apsnd plain_cell) (cells s)\<rparr>"

fun plain_command :: "ControlPlaneCommand \<Rightarrow> ControlPlaneCommand" where
  "plain_command (CellDirectoryMutation (UpsertCellEndpoint cell domain principal_id boot_gen epoch hb hint)) =
     CellDirectoryMutation (UpsertCellEndpoint cell domain principal_id boot_gen epoch hb (plain_hint hint))"
| "plain_command cmd = cmd"

definition plain_proposal :: "ControlPlaneProposal \<Rightarrow> ControlPlaneProposal" where
  "plain_proposal p = p\<lparr>command := plain_command (command p)\<rparr>"

lemma encode_plain_hint [simp]: "encode_socket_addr_opt (plain_hint hint) = encode_socket_addr_opt hint"
  by (cases hint rule: plain_hint.cases) simp_all

lemma plain_hint_id: "endpoint_plain hint \<Longrightarrow> plain_hint hint = hint"
  by (cases hint rule: plain_hint.cases) simp_all

lemma plain_sm_id:
  assumes "list_all (\<lambda>(k, e). endpoint_plain (ce_endpoint_hint e)) (cells s)"
  shows "plain_sm s = s"
proof -
  have "map (apsnd plain_cell) (cells s) = cells s"
    using assms by (intro map_idI) (auto simp: list_all_iff plain_cell_def plain_hint_id)
  then show ?thesis by (simp add: plain_sm_def)
qed

lemma plain_command_cases:
  obtains (upsert) cell domain principal_id boot_gen epoch hb hint where
      "cmd = CellDirectoryMutation (UpsertCellEndpoint cell domain principal_id boot_gen epoch hb hint)"
  | (other) "plain_command cmd = cmd"
  by (cases cmd rule: plain_command.cases) auto

lemma plain_digest [simp]: "proposal_digest sha (plain_proposal p) = proposal_digest sha p"
  by (cases "command p" rule: plain_command_cases)
    (simp_all add: proposal_digest_def plain_proposal_def encode_command_body_def)

lemma plain_canonical_bytes [simp]: "canonical_bytes (plain_sm s) = canonical_bytes s"
proof -
  have "encode_cell_row (apsnd plain_cell r) = encode_cell_row r" for r
    by (cases r) (simp add: encode_cell_row_def plain_cell_def)
  then show ?thesis by (simp add: canonical_bytes_def plain_sm_def encode_table_def comp_def)
qed

lemma plain_encode_snapshot [simp]: "encode_snapshot sha (plain_sm s) = encode_snapshot sha s"
proof -
  have "tables_fit (plain_sm s) = tables_fit s" by (simp add: tables_fit_def plain_sm_def)
  then show ?thesis by (simp add: encode_snapshot_def encode_canonical_state_body_def state_root_digest_def)
qed

lemma bt_get_map_snd: "bt_get (map (apsnd f) m) k = map_option f (bt_get m k)"
  by (induction m) (auto simp: bt_get_def)

lemma bt_insert_map_snd: "bt_insert k (f v) (map (apsnd f) m) = map (apsnd f) (bt_insert k v m)"
  by (induction k v m rule: bt_insert.induct) simp_all

text \<open>Handlers other than the directory's do not look at the directory.\<close>

lemma lease_pool_other_cells:
  "apply_root_lease_pool i c (s\<lparr>cells := x\<rparr>) = map_sum id (apfst (cells_update (\<lambda>_. x))) (apply_root_lease_pool i c s)"
proof (cases c)
  case (SettleOrQuarantineQuotaLease lease_id disposition returned quarantined epoch token)
  then show ?thesis
    by (cases "bt_get (quota_leases s) lease_id"; cases "checked_add returned quarantined")
      (auto simp: apply_settle_quota_lease_def token_stale_def Let_def split: option.split)
qed (simp_all add: handler_defs token_stale_def split: option.split)

lemma authority_other_cells:
  "apply_task_authority i cterm c (s\<lparr>cells := x\<rparr>) = apfst (cells_update (\<lambda>_. x)) (apply_task_authority i cterm c s)"
  by (cases c) (simp_all split: option.split)

lemma audit_other_cells:
  "apply_audit i c (s\<lparr>cells := x\<rparr>) = apfst (cells_update (\<lambda>_. x)) (apply_audit i c s)"
  by (cases c) simp_all

lemma plain_cell_simps:
  "ce_node_boot_generation (plain_cell e) = ce_node_boot_generation e" "ce_epoch (plain_cell e) = ce_epoch e"
  "ce_heartbeat_seq (plain_cell e) = ce_heartbeat_seq e" "ce_decommissioned (plain_cell e) = ce_decommissioned e"
  "plain_cell (e\<lparr>ce_epoch := epoch, ce_endpoint_hint := None, ce_decommissioned := True,
      ce_updated_at_commit_index := i\<rparr>) =
    (plain_cell e)\<lparr>ce_epoch := epoch, ce_endpoint_hint := None, ce_decommissioned := True,
      ce_updated_at_commit_index := i\<rparr>"
  by (cases e; simp add: plain_cell_def)+

lemma plain_directory:
  assumes "apply_cell_directory i cmd s = (t, r)"
  shows "apply_inner i cterm (plain_command (CellDirectoryMutation cmd)) (plain_sm s) = Inr (plain_sm t, r)"
proof (cases cmd)
  case (UpsertCellEndpoint cell domain principal_id boot_gen epoch hb hint)
  with assms show ?thesis
    by (auto simp: plain_sm_def plain_cell_def bt_get_map_snd bt_insert_map_snd [symmetric]
        split: option.splits if_splits)
qed (use assms in \<open>auto simp: plain_sm_def bt_get_map_snd bt_insert_map_snd [symmetric] plain_cell_simps
    split: option.splits if_splits\<close>)

lemma plain_inner:
  assumes "apply_inner i cterm cmd s = Inr (t, r)"
  shows "apply_inner i cterm (plain_command cmd) (plain_sm s) = Inr (plain_sm t, r)"
proof (cases cmd)
  case (CellDirectoryMutation c)
  with assms show ?thesis using plain_directory by simp
next
  case (RootLeasePoolMutation c)
  with assms apply_root_lease_pool_frame [of i c s t r] show ?thesis
    by (simp add: plain_sm_def lease_pool_other_cells)
next
  case (TaskAuthorityShardMutation c)
  with assms apply_task_authority_frame [of i cterm c s t r] have "cells t = cells s" by auto
  with TaskAuthorityShardMutation assms show ?thesis by (simp add: plain_sm_def authority_other_cells)
next
  case (ControlPlaneAuditAnchor c)
  with assms apply_audit_frame [of i c s t r] have "cells t = cells s" by auto
  with ControlPlaneAuditAnchor assms show ?thesis by (simp add: plain_sm_def audit_other_cells)
qed

lemma plain_apply:
  assumes "apply_committed_entry sha i cterm p s = Inr (t, out)"
  shows "apply_committed_entry sha i cterm (plain_proposal p) (plain_sm s) = Inr (plain_sm t, out)"
proof -
  have p: "idempotency_key (plain_proposal p) = idempotency_key p"
    "command (plain_proposal p) = plain_command (command p)"
    by (simp_all add: plain_proposal_def)
  have s: "(plain_sm s)\<lparr>last_applied_index := i, last_applied_term := cterm\<rparr> =
      plain_sm (s\<lparr>last_applied_index := i, last_applied_term := cterm\<rparr>)"
    "dedup_table (plain_sm u) = dedup_table u" "last_applied_index (plain_sm u) = last_applied_index u"
    "authority_receipt_high_water (plain_sm u) = authority_receipt_high_water u" for u
    by (simp_all add: plain_sm_def)
  from assms show ?thesis
  proof (cases rule: apply_committed_entryE)
    case (fresh s1 rejection)
    from plain_inner [OF fresh(3)] fresh show ?thesis
      by (cases rejection) (simp_all add: apply_committed_entry_def p s Let_def, simp_all add: plain_sm_def)
  qed (auto simp: apply_committed_entry_def p s Let_def)
qed

end
