(* ===== verification/ControlPlaneEvolution.thy ===== *)
theory ControlPlaneEvolution
  imports ControlPlaneInv
begin

text \<open>
  How the tables of the replicated state machine may change: nothing is ever deleted, fencing
  tokens, epochs, terms, routing versions, quarantined quota and the receipt counter only grow,
  settled leases and audit records are final. \<open>sm_evolves\<close> collects these relations; it is a preorder, every step follows it, and so
  does every run.
\<close>

section \<open>Entry relations\<close>

definition cell_version :: "ReplicatedCellDirectoryEntry \<Rightarrow> Generation \<times> CellEpoch \<times> u64" where
  "cell_version e = (ce_node_boot_generation e, ce_epoch e, ce_heartbeat_seq e)"

text \<open>A routing entry only moves to a later version, and a decommissioned cell stays so.\<close>

definition cell_le :: "ReplicatedCellDirectoryEntry \<Rightarrow> ReplicatedCellDirectoryEntry \<Rightarrow> bool" where
  "cell_le e e' \<longleftrightarrow> cell_version e \<le> cell_version e' \<and> (ce_decommissioned e \<longrightarrow> ce_decommissioned e')"

text \<open>A lease is settled at most once, and then never changes.\<close>

definition lease_le :: "ReplicatedQuotaLeaseEntry \<Rightarrow> ReplicatedQuotaLeaseEntry \<Rightarrow> bool" where
  "lease_le l l' \<longleftrightarrow> l' = l \<or>
     ql_disposition l = LeaseActive \<and> ql_disposition l' \<noteq> LeaseActive \<and>
     ql_face_value l' = ql_face_value l \<and> ql_budget_root l' = ql_budget_root l \<and>
     ql_holder_cell l' = ql_holder_cell l \<and> ql_fence_scope l' = ql_fence_scope l \<and>
     ql_epoch l \<le> ql_epoch l'"

text \<open>What a budget pool has quarantined never becomes available again.\<close>

definition quota_pool_le :: "QuotaPoolBalance \<Rightarrow> QuotaPoolBalance \<Rightarrow> bool" where
  "quota_pool_le p p' \<longleftrightarrow> qp_quarantined p \<le> qp_quarantined p'"

definition capacity_pool_le :: "CapacityPoolBalance \<Rightarrow> CapacityPoolBalance \<Rightarrow> bool" where
  "capacity_pool_le p p' \<longleftrightarrow>
     cp_total_capacity p' = cp_total_capacity p \<and> cp_committed p \<le> cp_committed p'"

text \<open>Every change of a device head takes a fresh epoch and a fresh token.\<close>

definition device_le :: "ReplicatedDeviceHeadEntry \<Rightarrow> ReplicatedDeviceHeadEntry \<Rightarrow> bool" where
  "device_le d d' \<longleftrightarrow> d' = d \<or>
     dh_exclusivity_epoch d < dh_exclusivity_epoch d' \<and> dh_fencing_token d < dh_fencing_token d'"

text \<open>Every change of a task's authority takes a later term, control epoch and registry
  generation, within the same shard.\<close>

definition assignment_le ::
  "CommittedTaskAuthorityAssignment \<Rightarrow> CommittedTaskAuthorityAssignment \<Rightarrow> bool" where
  "assignment_le a a' \<longleftrightarrow> a' = a \<or>
     ta_authority_term a < ta_authority_term a' \<and> ta_control_epoch a < ta_control_epoch a' \<and>
     ta_participant_registry_generation a < ta_participant_registry_generation a' \<and>
     ta_authority_shard a' = ta_authority_shard a"

lemmas entry_le_defs = cell_le_def lease_le_def quota_pool_le_def capacity_pool_le_def device_le_def assignment_le_def

lemma entry_le_refl [simp]:
  "cell_le e e" "lease_le l l" "quota_pool_le q q" "capacity_pool_le p p" "device_le d d" "assignment_le a a"
  by (simp_all add: entry_le_defs)

lemma cell_le_trans: "cell_le a b \<Longrightarrow> cell_le b c \<Longrightarrow> cell_le a c"
  by (auto simp: cell_le_def)

lemma lease_le_trans: "lease_le a b \<Longrightarrow> lease_le b c \<Longrightarrow> lease_le a c"
  by (auto simp: lease_le_def)

lemma quota_pool_le_trans: "quota_pool_le a b \<Longrightarrow> quota_pool_le b c \<Longrightarrow> quota_pool_le a c"
  by (auto simp: quota_pool_le_def)

lemma capacity_pool_le_trans: "capacity_pool_le a b \<Longrightarrow> capacity_pool_le b c \<Longrightarrow> capacity_pool_le a c"
  by (auto simp: capacity_pool_le_def)

lemma device_le_trans: "device_le a b \<Longrightarrow> device_le b c \<Longrightarrow> device_le a c"
  by (auto simp: device_le_def)

lemma assignment_le_trans: "assignment_le a b \<Longrightarrow> assignment_le b c \<Longrightarrow> assignment_le a c"
  by (auto simp: assignment_le_def)

section \<open>Evolution of the state machine\<close>

definition tables_evolve :: "ControlPlaneStateMachine \<Rightarrow> ControlPlaneStateMachine \<Rightarrow> bool" where
  "tables_evolve s t \<longleftrightarrow>
     trust_policy_epoch s \<le> trust_policy_epoch t \<and>
     (trust_policy_epoch t = trust_policy_epoch s \<longrightarrow> trust_policy_digest t = trust_policy_digest s) \<and>
     bt_evolves cell_le (cells s) (cells t) \<and>
     bt_evolves quota_pool_le (quota_pools s) (quota_pools t) \<and>
     bt_evolves lease_le (quota_leases s) (quota_leases t) \<and>
     bt_evolves capacity_pool_le (capacity_pools s) (capacity_pools t) \<and>
     bt_evolves (=) (capacity_leases s) (capacity_leases t) \<and>
     bt_evolves device_le (device_heads s) (device_heads t) \<and>
     bt_evolves (\<le>) (fence_scope_high_water s) (fence_scope_high_water t) \<and>
     bt_evolves assignment_le (task_shards s) (task_shards t) \<and>
     bt_evolves (=) (takeover_receipts s) (takeover_receipts t) \<and>
     bt_evolves (=) (migration_anchors s) (migration_anchors t) \<and>
     bt_evolves (=) (checkpoint_anchors s) (checkpoint_anchors t)"

definition sm_evolves :: "ControlPlaneStateMachine \<Rightarrow> ControlPlaneStateMachine \<Rightarrow> bool" where
  "sm_evolves s t \<longleftrightarrow> tables_evolve s t \<and> last_applied_index s \<le> last_applied_index t \<and>
     authority_receipt_high_water s \<le> authority_receipt_high_water t \<and>
     bt_evolves (=) (dedup_table s) (dedup_table t)"

lemma tables_evolve_refl [simp]: "tables_evolve s s"
  by (simp add: tables_evolve_def)

lemma sm_evolves_refl [simp]: "sm_evolves s s"
  by (simp add: sm_evolves_def)

lemma tables_evolve_trans:
  assumes "tables_evolve s t" "tables_evolve t u"
  shows "tables_evolve s u"
proof -
  have "bt_evolves cell_le (cells s) (cells u)"
    by (rule bt_evolves_trans [where m' = "cells t"])
      (use assms cell_le_trans in \<open>auto simp: tables_evolve_def\<close>)
  moreover have "bt_evolves quota_pool_le (quota_pools s) (quota_pools u)"
    by (rule bt_evolves_trans [where m' = "quota_pools t"])
      (use assms quota_pool_le_trans in \<open>auto simp: tables_evolve_def\<close>)
  moreover have "bt_evolves lease_le (quota_leases s) (quota_leases u)"
    by (rule bt_evolves_trans [where m' = "quota_leases t"])
      (use assms lease_le_trans in \<open>auto simp: tables_evolve_def\<close>)
  moreover have "bt_evolves capacity_pool_le (capacity_pools s) (capacity_pools u)"
    by (rule bt_evolves_trans [where m' = "capacity_pools t"])
      (use assms capacity_pool_le_trans in \<open>auto simp: tables_evolve_def\<close>)
  moreover have "bt_evolves device_le (device_heads s) (device_heads u)"
    by (rule bt_evolves_trans [where m' = "device_heads t"])
      (use assms device_le_trans in \<open>auto simp: tables_evolve_def\<close>)
  moreover have "bt_evolves assignment_le (task_shards s) (task_shards u)"
    by (rule bt_evolves_trans [where m' = "task_shards t"])
      (use assms assignment_le_trans in \<open>auto simp: tables_evolve_def\<close>)
  moreover have "bt_evolves (\<le>) (fence_scope_high_water s) (fence_scope_high_water u)"
    by (rule bt_evolves_trans [where m' = "fence_scope_high_water t"])
      (use assms in \<open>auto simp: tables_evolve_def\<close>)
  moreover have "bt_evolves (=) (capacity_leases s) (capacity_leases u)"
    "bt_evolves (=) (takeover_receipts s) (takeover_receipts u)"
    "bt_evolves (=) (migration_anchors s) (migration_anchors u)"
    "bt_evolves (=) (checkpoint_anchors s) (checkpoint_anchors u)"
    using assms by (simp_all add: tables_evolve_def bt_evolves_def)
  ultimately show ?thesis
    using assms by (auto simp: tables_evolve_def)
qed

lemma sm_evolves_trans:
  assumes "sm_evolves s t" "sm_evolves t u"
  shows "sm_evolves s u"
  using assms tables_evolve_trans [of s t u] by (auto simp: sm_evolves_def bt_evolves_def)

section \<open>Every handler evolves the tables\<close>

lemma cells_evolve:
  assumes "apply_cell_directory i cmd s = (t, r)"
  shows "tables_evolve s t"
proof (cases cmd)
  case (UpsertCellEndpoint cell domain principal_id boot_gen epoch hb hint)
  with assms show ?thesis
    by (auto simp: tables_evolve_def cell_le_def cell_version_def
        simp del: less_eq_prod_simp less_prod_simp
        split: if_splits option.splits intro!: bt_evolves_insert)
qed (use assms in \<open>auto simp: tables_evolve_def cell_le_def cell_version_def not_less not_le
    split: if_splits option.splits intro!: bt_evolves_insert\<close>)

lemma saturating_add_le: "(x :: 'a::len word) \<le> saturating_add x y"
proof -
  have "unat x < 2 ^ LENGTH('a)" by (rule unsigned_less)
  then have "unat x \<le> 2 ^ LENGTH('a) - 1" by linarith
  then show ?thesis by (simp add: sat_simps word_le_nat_alt)
qed

lemma quota_evolve:
  "apply_register_quota_pool root initial s = (t, r) \<Longrightarrow> tables_evolve s t"
  "apply_allocate_quota_lease i lease_id root holder boot_gen face epoch token scope s = (t, r) \<Longrightarrow>
    tables_evolve s t"
  "apply_settle_quota_lease i lease_id disposition returned quarantined epoch token s = Inr (t, r) \<Longrightarrow>
    tables_evolve s t"
proof -
  show "tables_evolve s t" if "apply_register_quota_pool root initial s = (t, r)"
    using that
    by (auto simp: apply_register_quota_pool_def tables_evolve_def bt_contains_def split: if_splits
        intro!: bt_evolves_insert)
  show "tables_evolve s t"
    if "apply_allocate_quota_lease i lease_id root holder boot_gen face epoch token scope s = (t, r)"
    using that
    by (cases rule: allocate_quota_leaseE)
      (auto simp: tables_evolve_def token_stale_def quota_pool_le_def intro!: bt_evolves_insert)
  show "tables_evolve s t"
    if "apply_settle_quota_lease i lease_id disposition returned quarantined epoch token s = Inr (t, r)"
    using that
    by (cases rule: settle_quota_leaseE)
      (auto simp: tables_evolve_def token_stale_def lease_le_def quota_pool_le_def saturating_add_le intro!: bt_evolves_insert)
qed

lemma capacity_evolve:
  assumes "apply_allocate_capacity_lease i lease_id pool_id pool_total target boot_gen amount cepoch token s = (t, r)"
  shows "tables_evolve s t"
proof -
  have oi: "tables_evolve s s1 \<and> bt_get (capacity_pools s1) pool_id = Some pool \<and>
      capacity_leases s1 = capacity_leases s"
    if "capacity_pool_or_insert pool_id pool_total s = (pool, s1)" for pool s1
    using that
    by (auto simp: capacity_pool_or_insert_def Let_def tables_evolve_def split: option.splits
        intro!: bt_evolves_insert)
  show ?thesis
    using assms
  proof (cases rule: allocate_capacity_leaseE)
    case (granted pool s1 new_committed l)
    have "capacity_pool_le pool (pool\<lparr>cp_committed := new_committed\<rparr>)"
      using granted(4) by (simp add: capacity_pool_le_def sat_simps word_le_nat_alt)
    then have "tables_evolve s1 t"
      using oi [OF granted(3)] granted(2)
      by (auto simp: granted(7) tables_evolve_def intro!: bt_evolves_insert)
    with oi [OF granted(3)] tables_evolve_trans show ?thesis by blast
  qed (use oi in auto)
qed

lemma device_evolve:
  "apply_device_transition i device lease_id epoch holder token new_state has_proof s = (t, r) \<Longrightarrow>
     tables_evolve s t"
  by (auto simp: apply_device_transition_def tables_evolve_def device_le_def not_le
      split: if_splits option.splits intro!: bt_evolves_insert)

lemma authority_evolve:
  "apply_task_authority i cterm cmd s = (t, r) \<Longrightarrow> tables_evolve s t"
  by (cases cmd)
    (auto simp: tables_evolve_def assignment_le_def bt_contains_def not_le
      split: if_splits option.splits intro!: bt_evolves_insert)

lemma audit_evolve:
  "apply_audit i cmd s = (t, r) \<Longrightarrow> tables_evolve s t"
  by (cases cmd)
    (auto simp: tables_evolve_def bt_contains_def split: if_splits intro!: bt_evolves_insert)

lemma apply_inner_evolve:
  assumes "apply_inner i cterm cmd s = Inr (t, r)"
  shows "tables_evolve s t"
proof (cases cmd)
  case (RootLeasePoolMutation c)
  with assms show ?thesis
    by (cases c) (auto intro: quota_evolve capacity_evolve device_evolve)
qed (use assms in \<open>auto intro: cells_evolve authority_evolve audit_evolve\<close>)

lemma tables_evolve_same:
  assumes "same_tables s s'" "same_tables t t'"
  shows "tables_evolve s t = tables_evolve s' t'"
  using assms by (simp add: tables_evolve_def same_tables_def)

lemma apply_committed_entry_evolves:
  assumes "apply_committed_entry sha i cterm p s = Inr (t, out)"
  shows "sm_evolves s t \<and> last_applied_index s < i \<and> last_applied_index t = i"
  using assms
proof (cases rule: apply_committed_entryE)
  case (fresh s1 rejection)
  let ?s = "s\<lparr>last_applied_index := i, last_applied_term := cterm\<rparr>"
  note counters = apply_inner_counters [OF fresh(3)]
  have "tables_evolve ?s s1" by (rule apply_inner_evolve [OF fresh(3)])
  then have "tables_evolve s t"
    using tables_evolve_same [of s ?s t s1] by (simp add: same_tables_def fresh(4))
  moreover have "bt_evolves (=) (dedup_table s) (dedup_table t)"
    using fresh(1) counters by (auto simp: fresh(4) intro!: bt_evolves_insert)
  ultimately show ?thesis
    using fresh(2) counters by (auto simp: sm_evolves_def fresh(4) saturating_add_le)
qed (auto simp: sm_evolves_def tables_evolve_def)

lemma sm_run_evolves: "(sm_step sha)\<^sup>*\<^sup>* s t \<Longrightarrow> sm_evolves s t"
proof (induction rule: rtranclp_induct)
  case base
  show ?case by simp
next
  case (step t u)
  from step.hyps(2) have "sm_evolves t u"
    using apply_committed_entry_evolves by (auto simp: sm_step_def)
  with step.IH show ?case by (rule sm_evolves_trans)
qed

end
