(* ===== verification/ControlPlaneProps.thy ===== *)
theory ControlPlaneProps
  imports ControlPlaneEvolution
begin

text \<open>
  The properties of the replicated state machine, over every run \<open>sm_step\<close> from the empty state:
  conservation of quota, capacity bounds, fencing, the device automaton, exactly-once application
  and the absence of panics.
\<close>

section \<open>Fencing and devices\<close>

definition fence_inv :: "ControlPlaneStateMachine \<Rightarrow> bool" where
  "fence_inv s \<longleftrightarrow> (\<forall>k l. bt_get (quota_leases s) k = Some l \<longrightarrow>
     (\<exists>tok. bt_get (fence_scope_high_water s) (ql_fence_scope l) = Some tok \<and> ql_fencing_token l \<le> tok))"

definition device_inv :: "ControlPlaneStateMachine \<Rightarrow> bool" where
  "device_inv s \<longleftrightarrow> (\<forall>k d. bt_get (device_heads s) k = Some d \<longrightarrow>
     (dh_state d = DeviceActive \<longleftrightarrow> dh_holder_cell d \<noteq> None))"

definition fenced :: "ControlPlaneStateMachine \<Rightarrow> ReplicatedQuotaLeaseEntry \<Rightarrow> bool" where
  "fenced s l \<longleftrightarrow>
     (\<exists>tok. bt_get (fence_scope_high_water s) (ql_fence_scope l) = Some tok \<and> ql_fencing_token l \<le> tok)"

lemma fence_inv_fenced: "fence_inv s \<longleftrightarrow> (\<forall>k l. bt_get (quota_leases s) k = Some l \<longrightarrow> fenced s l)"
  by (simp add: fence_inv_def fenced_def)

lemma fenced_evolves:
  assumes "fenced s l" "tables_evolve s t"
  shows "fenced t l"
proof -
  from assms(1) obtain tok where tok: "bt_get (fence_scope_high_water s) (ql_fence_scope l) = Some tok"
    "ql_fencing_token l \<le> tok" by (auto simp: fenced_def)
  have "bt_evolves (\<le>) (fence_scope_high_water s) (fence_scope_high_water t)"
    using assms(2) by (simp add: tables_evolve_def)
  then obtain tok' where "bt_get (fence_scope_high_water t) (ql_fence_scope l) = Some tok'" "tok \<le> tok'"
    using tok(1) by (rule bt_evolves_get)
  with tok(2) show ?thesis by (auto simp: fenced_def)
qed

lemma fence_inv_mono:
  assumes "fence_inv s" "quota_leases t = quota_leases s" "tables_evolve s t"
  shows "fence_inv t"
  using assms(1,2) by (auto simp: fence_inv_fenced intro: fenced_evolves [OF _ assms(3)])

lemma fence_inv_update:
  assumes "fence_inv s" "tables_evolve s t" "quota_leases t = bt_insert k l (quota_leases s)"
    and "bt_get (fence_scope_high_water t) (ql_fence_scope l) = Some (ql_fencing_token l)"
  shows "fence_inv t"
proof -
  have "fenced t l" using assms(4) by (simp add: fenced_def)
  with assms(1,3) show ?thesis
    by (auto simp: fence_inv_fenced split: if_splits intro: fenced_evolves [OF _ assms(2)])
qed

lemma fence_inv_handler:
  assumes inv: "fence_inv s" and ap: "apply_inner i cterm cmd s = Inr (t, r)"
  shows "fence_inv t"
proof -
  note ev = apply_inner_evolve [OF ap]
  show ?thesis
  proof (cases cmd)
    case (RootLeasePoolMutation c)
    show ?thesis
    proof (cases c)
      case (AllocateQuotaLease lease_id root holder boot_gen face epoch token scope)
      with RootLeasePoolMutation ap have
        "apply_allocate_quota_lease i lease_id root holder boot_gen face epoch token scope s = (t, r)"
        by simp
      then show ?thesis
      proof (cases rule: allocate_quota_leaseE)
        case (granted pool l)
        show ?thesis by (rule fence_inv_update [OF inv ev, of lease_id l]) (simp_all add: granted(7,8))
      qed (simp add: inv)
    next
      case (SettleOrQuarantineQuotaLease lease_id disposition returned quarantined epoch token)
      with RootLeasePoolMutation ap have
        "apply_settle_quota_lease i lease_id disposition returned quarantined epoch token s = Inr (t, r)"
        by simp
      then show ?thesis
      proof (cases rule: settle_quota_leaseE)
        case (settled pool l0 l)
        show ?thesis by (rule fence_inv_update [OF inv ev, of lease_id l]) (simp_all add: settled(10,11))
      qed (simp add: inv)
    next
      case (RegisterQuotaPool root initial)
      with RootLeasePoolMutation ap have "quota_leases t = quota_leases s"
        by (auto simp: apply_register_quota_pool_def split: if_splits)
      with inv ev show ?thesis by (blast intro: fence_inv_mono)
    qed (use RootLeasePoolMutation ap inv ev in
        \<open>auto intro!: fence_inv_mono [OF inv _ ev] dest: quota_tables_untouched\<close>)
  qed (use ap in \<open>auto intro!: fence_inv_mono [OF inv _ ev] dest: quota_tables_untouched\<close>)
qed

text \<open>A command that moves the head of a device from one entry to another: it presents a later
  exclusivity epoch and fencing token, follows one of the four arrows of the automaton, and frees
  the device only with a reset proof.\<close>

definition device_change ::
  "ControlPlaneCommand \<Rightarrow> DeviceId \<Rightarrow> ReplicatedDeviceHeadEntry \<Rightarrow> ReplicatedDeviceHeadEntry \<Rightarrow> bool" where
  "device_change cmd k d d' \<longleftrightarrow> (\<exists>lease_id epoch holder token new_state has_proof.
     cmd = RootLeasePoolMutation
       (TransitionExclusiveDeviceHead k lease_id epoch holder token new_state has_proof) \<and>
     dh_device_id d' = k \<and> dh_device_lease_id d' = lease_id \<and> dh_exclusivity_epoch d' = epoch \<and>
     dh_holder_cell d' = holder \<and> dh_fencing_token d' = token \<and> dh_state d' = new_state \<and>
     dh_exclusivity_epoch d < epoch \<and> dh_fencing_token d < token \<and>
     (dh_state d, new_state) \<in> {(DeviceFree, DeviceActive), (DeviceActive, DeviceQuarantined),
       (DeviceActive, DeviceFree), (DeviceQuarantined, DeviceFree)} \<and>
     (new_state = DeviceFree \<longrightarrow> has_proof))"

lemma device_transition_allowed_arrow:
  "device_transition_allowed a b has_proof \<longleftrightarrow>
     (a, b) \<in> {(DeviceFree, DeviceActive), (DeviceActive, DeviceQuarantined),
       (DeviceActive, DeviceFree), (DeviceQuarantined, DeviceFree)} \<and> (b = DeviceFree \<longrightarrow> has_proof)"
  by (cases a; cases b) simp_all

fun device_command :: "ControlPlaneCommand \<Rightarrow> bool" where
  "device_command (RootLeasePoolMutation (TransitionExclusiveDeviceHead _ _ _ _ _ _ _)) = True"
| "device_command _ = False"

lemma device_heads_untouched:
  assumes "apply_inner i cterm cmd s = Inr (t, r)"
    and "\<not> device_command cmd"
  shows "device_heads t = device_heads s"
proof (cases cmd)
  case (RootLeasePoolMutation c)
  with assms show ?thesis
    by (cases c)
      (auto simp: apply_register_quota_pool_def split: if_splits
        elim!: allocate_quota_leaseE settle_quota_leaseE dest: quota_tables_untouched)
qed (use assms in \<open>auto dest!: apply_cell_directory_frame apply_task_authority_frame apply_audit_frame\<close>)

lemma device_transition_change:
  assumes "apply_device_transition i device lease_id epoch holder token new_state has_proof s = (t, r)"
    and "cmd = RootLeasePoolMutation
      (TransitionExclusiveDeviceHead device lease_id epoch holder token new_state has_proof)"
  shows "device_inv s \<Longrightarrow> device_inv t"
    and "bt_get (device_heads s) k = Some d \<Longrightarrow>
      \<exists>d'. bt_get (device_heads t) k = Some d' \<and> (d' = d \<or> device_change cmd k d d')"
    and "bt_get (device_heads s) k = None \<Longrightarrow> bt_get (device_heads t) k = Some d \<Longrightarrow>
      dh_state d = DeviceActive"
  using assms
  by (auto simp: apply_device_transition_def device_inv_def device_change_def not_le
      device_transition_allowed_arrow split: if_splits option.splits)

lemma device_handler:
  assumes ap: "apply_inner i cterm cmd s = Inr (t, r)"
  shows "device_inv s \<Longrightarrow> device_inv t"
    and "bt_get (device_heads s) k = Some d \<Longrightarrow>
      \<exists>d'. bt_get (device_heads t) k = Some d' \<and> (d' = d \<or> device_change cmd k d d')"
    and "bt_get (device_heads s) k = None \<Longrightarrow> bt_get (device_heads t) k = Some d \<Longrightarrow>
      dh_state d = DeviceActive"
proof -
  have "(device_inv s \<longrightarrow> device_inv t) \<and>
    (bt_get (device_heads s) k = Some d \<longrightarrow>
      (\<exists>d'. bt_get (device_heads t) k = Some d' \<and> (d' = d \<or> device_change cmd k d d'))) \<and>
    (bt_get (device_heads s) k = None \<longrightarrow> bt_get (device_heads t) k = Some d \<longrightarrow>
      dh_state d = DeviceActive)"
  proof (cases "device_command cmd")
    case True
    then obtain device lease_id epoch holder token new_state has_proof where
      cmd: "cmd = RootLeasePoolMutation
        (TransitionExclusiveDeviceHead device lease_id epoch holder token new_state has_proof)"
      by (cases cmd rule: device_command.cases) auto
    with ap have
      "apply_device_transition i device lease_id epoch holder token new_state has_proof s = (t, r)" by simp
    from device_transition_change [OF this cmd] show ?thesis by blast
  next
    case False
    with device_heads_untouched [OF ap] show ?thesis by (auto simp: device_inv_def)
  qed
  then show "device_inv s \<Longrightarrow> device_inv t"
    and "bt_get (device_heads s) k = Some d \<Longrightarrow>
      \<exists>d'. bt_get (device_heads t) k = Some d' \<and> (d' = d \<or> device_change cmd k d d')"
    and "bt_get (device_heads s) k = None \<Longrightarrow> bt_get (device_heads t) k = Some d \<Longrightarrow>
      dh_state d = DeviceActive"
    by blast+
qed

section \<open>The invariant of the state machine\<close>

definition sm_inv :: "ControlPlaneStateMachine \<Rightarrow> bool" where
  "sm_inv s \<longleftrightarrow> quota_inv s \<and> capacity_inv s \<and> fence_inv s \<and> device_inv s"

lemma sm_inv_new: "sm_inv sm_new"
  by (simp add: sm_inv_def sm_new_def quota_inv_def capacity_inv_def fence_inv_def device_inv_def)

lemma sm_inv_cong: "same_tables s t \<Longrightarrow> sm_inv s = sm_inv t"
  using pool_ok_cong(1) [of s t]
  by (simp add: sm_inv_def same_tables_def quota_inv_def capacity_inv_def fence_inv_def device_inv_def)

lemma sm_inv_step: "sm_inv s \<Longrightarrow> sm_step sha s t \<Longrightarrow> sm_inv t"
  by (erule table_invariant_step [rotated 2])
    (auto simp: sm_inv_cong, auto simp: sm_inv_def intro: quota_inv_handler capacity_inv_handler
      fence_inv_handler device_handler(1))

interpretation sm: invariant_system "\<lambda>s. s = sm_new" "sm_step sha" sm_inv for sha
  by unfold_locales (auto simp: sm_inv_new intro: sm_inv_step)

lemma sm_run_inv: "(sm_step sha)\<^sup>*\<^sup>* sm_new s \<Longrightarrow> sm_inv s"
  by (rule sm.inv_run [OF _ sm_inv_new])

lemma conserves_step: "sm_inv s \<Longrightarrow> sm_step sha s t \<Longrightarrow> conserves s t"
proof -
  assume inv: "sm_inv s" and "sm_step sha s t"
  then obtain i cterm p out where "apply_committed_entry sha i cterm p s = Inr (t, out)"
    by (auto simp: sm_step_def)
  then show ?thesis
  proof (cases rule: apply_committed_entryE)
    case (fresh s1 rejection)
    let ?s = "s\<lparr>last_applied_index := i, last_applied_term := cterm\<rparr>"
    have "quota_inv ?s"
      by (rule quota_inv_same [of s]) (use inv in \<open>simp_all add: sm_inv_def\<close>)
    from conserves_handler [OF this fresh(3)] have "conserves ?s s1" .
    moreover have "conserves s ?s" "conserves s1 t" by (simp_all add: conserves_same fresh(4))
    ultimately show ?thesis by (blast intro: conserves_trans)
  qed (simp_all add: conserves_same)
qed

lemma conserves_run:
  assumes "(sm_step sha)\<^sup>*\<^sup>* s t" "sm_inv s"
  shows "conserves s t"
  using assms
proof (induction rule: rtranclp_induct)
  case base
  show ?case by (simp add: conserves_same)
next
  case (step t u)
  have "sm_inv t" by (rule sm.inv_run [OF step.hyps(1) step.prems])
  with step conserves_step conserves_trans show ?case by blast
qed

text \<open>No handler answers with the key conflict, so no dedup record holds it.\<close>

lemma apply_inner_no_conflict:
  assumes "apply_inner i c cmd s = Inr (t, r)"
  shows "r \<noteq> Some IdempotencyKeyPayloadConflict"
proof (cases cmd)
  case (RootLeasePoolMutation pool_cmd)
  with assms show ?thesis
    by (cases pool_cmd)
      (auto simp: handler_defs apply_settle_quota_lease_def split: if_splits option.splits)
next
  case (CellDirectoryMutation dir_cmd)
  with assms show ?thesis by (cases dir_cmd) (auto split: if_splits option.splits)
next
  case (TaskAuthorityShardMutation shard_cmd)
  with assms show ?thesis by (cases shard_cmd) (auto split: if_splits option.splits)
next
  case (ControlPlaneAuditAnchor audit_cmd)
  with assms show ?thesis by (cases audit_cmd) (auto split: if_splits)
qed

definition dedup_inv :: "ControlPlaneStateMachine \<Rightarrow> bool" where
  "dedup_inv s \<longleftrightarrow> (\<forall>k rec. bt_get (dedup_table s) k = Some rec \<longrightarrow>
     dr_rejection rec \<noteq> Some IdempotencyKeyPayloadConflict)"

lemma dedup_inv_step:
  assumes "dedup_inv s" "sm_step sha s t"
  shows "dedup_inv t"
proof -
  from assms(2) obtain i c p out where "apply_committed_entry sha i c p s = Inr (t, out)"
    by (auto simp: sm_step_def)
  then show ?thesis
  proof (cases rule: apply_committed_entryE)
    case (fresh s1 rejection)
    have "dedup_table s1 = dedup_table s" using apply_inner_counters(1) [OF fresh(3)] by simp
    with assms(1) apply_inner_no_conflict [OF fresh(3)] show ?thesis
      by (simp add: dedup_inv_def fresh(4))
  qed (use assms(1) in \<open>simp_all add: dedup_inv_def\<close>)
qed

interpretation dedup: invariant_system "\<lambda>s. s = sm_new" "sm_step sha" dedup_inv for sha
  by unfold_locales (auto intro: dedup_inv_step, simp add: dedup_inv_def sm_new_def)

section \<open>Sequences of entries\<close>

fun apply_entries ::
  "sha256_fn \<Rightarrow> (u64 \<times> u64 \<times> ControlPlaneProposal) list \<Rightarrow> ControlPlaneStateMachine \<Rightarrow>
   (ApplyPanic, ControlPlaneStateMachine) result" where
  "apply_entries sha [] s = Inr s"
| "apply_entries sha ((i, cterm, p) # es) s =
     result_bind (apply_committed_entry sha i cterm p s) (\<lambda>(t, out). apply_entries sha es t)"

lemma apply_entries_run: "apply_entries sha es s = Inr t \<Longrightarrow> (sm_step sha)\<^sup>*\<^sup>* s t"
proof (induction sha es s rule: apply_entries.induct)
  case (1 sha s)
  then show ?case by simp
next
  case (2 sha i cterm p es s)
  then obtain u out where "apply_committed_entry sha i cterm p s = Inr (u, out)"
    and "apply_entries sha es u = Inr t"
    by (auto simp: result_bind_eq_Inr)
  with "2.IH" show ?case by (meson converse_rtranclp_into_rtranclp sm_step_def)
qed

section \<open>Properties\<close>

text \<open>C10: quota is conserved. Once a pool is registered with an initial amount, in every later
  state what is available, what active leases hold, what is quarantined and what settled leases
  have consumed add up to exactly that amount; and the pool's two counters are exactly what its
  leases hold, so that neither saturating addition nor subtraction ever saturates.\<close>

theorem quota_conserved:
  assumes "(sm_step sha)\<^sup>*\<^sup>* sm_new s"
    and "apply_committed_entry sha i cterm p s = Inr (t, Applied i False)"
    and "command p = RootLeasePoolMutation (RegisterQuotaPool root initial)"
    and "(sm_step sha)\<^sup>*\<^sup>* t u"
  shows "\<exists>pool. bt_get (quota_pools u) root = Some pool \<and>
    unat (qp_available pool) + bt_sum (held_active root) (quota_leases u) +
      bt_sum (held_quarantined root) (quota_leases u) + bt_sum (consumed root) (quota_leases u) =
      unat initial \<and>
    unat (qp_leased_active pool) = bt_sum (held_active root) (quota_leases u) \<and>
    unat (qp_quarantined pool) = bt_sum (held_quarantined root) (quota_leases u)"
proof -
  let ?pool = "\<lparr>qp_available = initial, qp_leased_active = 0, qp_quarantined = 0\<rparr>"
  have "sm_inv s" by (rule sm_run_inv [OF assms(1)])
  have "sm_step sha s t" using assms(2) by (auto simp: sm_step_def)
  with \<open>sm_inv s\<close> have invt: "sm_inv t" by (rule sm_inv_step)
  have "bt_get (quota_pools s) root = None \<and> bt_get (quota_pools t) root = Some ?pool \<and>
      quota_leases t = quota_leases s"
    using assms(2)
    by (cases rule: apply_committed_entryE)
      (auto simp: assms(3) apply_register_quota_pool_def bt_contains_def split: if_splits option.splits)
  with sums_fresh_pool(3) [of s root] \<open>sm_inv s\<close>
  have t: "bt_get (quota_pools t) root = Some ?pool" "pool_accounted t root ?pool = unat initial"
    by (simp_all add: sm_inv_def pool_accounted_def)
  obtain pool where
    u: "bt_get (quota_pools u) root = Some pool" "pool_accounted u root pool = unat initial"
    using conserves_run [OF assms(4) invt, unfolded conserves_def] t by metis
  have "pool_ok u root pool"
    using sm.inv_run [OF assms(4) invt] u(1) by (simp add: sm_inv_def quota_inv_def)
  with u show ?thesis by (simp add: pool_ok_def pool_accounted_def)
qed

definition demo_proposal :: "IdempotencyKey \<Rightarrow> RootLeasePoolCommand \<Rightarrow> ControlPlaneProposal" where
  "demo_proposal key cmd = \<lparr>idempotency_key = key, command = RootLeasePoolMutation cmd\<rparr>"

definition demo_register :: ControlPlaneProposal where
  "demo_register = demo_proposal 1 (RegisterQuotaPool 9 100)"

definition demo_registered :: ControlPlaneStateMachine where
  "demo_registered = sm_new\<lparr>last_applied_index := 1, last_applied_term := 1,
     authority_receipt_high_water := 1,
     quota_pools := [(9, \<lparr>qp_available = 100, qp_leased_active = 0, qp_quarantined = 0\<rparr>)],
     dedup_table := [(1, \<lparr>dr_proposal_digest = 0, dr_committed_index = 1, dr_rejection = None\<rparr>)]\<rparr>"

lemma demo_register_applies:
  "apply_committed_entry (\<lambda>_. 0) 1 1 demo_register sm_new = Inr (demo_registered, Applied 1 False)"
  by (simp add: apply_committed_entry_def demo_register_def demo_proposal_def sm_new_def
      demo_registered_def apply_register_quota_pool_def proposal_digest_def bt_contains_def
      saturating_add_def Let_def)

definition demo_leased :: ControlPlaneStateMachine where
  "demo_leased = demo_registered\<lparr>last_applied_index := 2, last_applied_term := 1,
     authority_receipt_high_water := 2,
     quota_pools := [(9, \<lparr>qp_available = 60, qp_leased_active = 40, qp_quarantined = 0\<rparr>)],
     quota_leases := [(5, \<lparr>ql_lease_id = 5, ql_budget_root = 9, ql_holder_cell = 3,
       ql_node_boot_generation = 1, ql_face_value = 40, ql_returned_amount = 0,
       ql_quarantined_amount = 0, ql_epoch = 1, ql_fencing_token = 7, ql_fence_scope = 8,
       ql_disposition = LeaseActive, ql_committed_at_index = 2\<rparr>)],
     fence_scope_high_water := [(8, 7)],
     dedup_table := [(1, \<lparr>dr_proposal_digest = 0, dr_committed_index = 1, dr_rejection = None\<rparr>),
       (2, \<lparr>dr_proposal_digest = 0, dr_committed_index = 2, dr_rejection = None\<rparr>)]\<rparr>"

definition demo_lease :: ControlPlaneProposal where
  "demo_lease = demo_proposal 2 (AllocateQuotaLease 5 9 3 1 40 1 7 8)"

lemma demo_lease_applies:
  "apply_committed_entry (\<lambda>_. 0) 2 1 demo_lease demo_registered = Inr (demo_leased, Applied 2 False)"
  by (simp add: apply_committed_entry_def demo_lease_def demo_proposal_def sm_new_def
      demo_registered_def demo_leased_def apply_allocate_quota_lease_def proposal_digest_def
      bt_contains_def bt_get_def token_stale_def saturating_add_def Let_def)

lemma demo_runs:
  "(sm_step (\<lambda>_. 0))\<^sup>*\<^sup>* sm_new demo_registered"
  "(sm_step (\<lambda>_. 0))\<^sup>*\<^sup>* demo_registered demo_leased"
  "(sm_step (\<lambda>_. 0))\<^sup>*\<^sup>* sm_new demo_leased"
proof -
  show a: "(sm_step (\<lambda>_. 0))\<^sup>*\<^sup>* sm_new demo_registered"
    using demo_register_applies by (blast intro: r_into_rtranclp sm_step_def [THEN iffD2])
  show b: "(sm_step (\<lambda>_. 0))\<^sup>*\<^sup>* demo_registered demo_leased"
    using demo_lease_applies by (blast intro: r_into_rtranclp sm_step_def [THEN iffD2])
  from a b show "(sm_step (\<lambda>_. 0))\<^sup>*\<^sup>* sm_new demo_leased" by simp
qed

theorem quota_conserved_witness:
  "\<exists>pool. bt_get (quota_pools demo_leased) 9 = Some pool \<and>
    unat (qp_available pool) + bt_sum (held_active 9) (quota_leases demo_leased) +
      bt_sum (held_quarantined 9) (quota_leases demo_leased) +
      bt_sum (consumed 9) (quota_leases demo_leased) = 100"
  using quota_conserved [OF rtranclp.rtrancl_refl demo_register_applies _ demo_runs(2), of 9 100]
  by (auto simp: demo_register_def demo_proposal_def)

text \<open>C13: capacity is never overcommitted. In every reachable state what a pool has committed is
  exactly the sum of its capacity leases, and within its total.\<close>

theorem capacity_within_total:
  assumes "(sm_step sha)\<^sup>*\<^sup>* sm_new s" "bt_get (capacity_pools s) pool_id = Some pool"
  shows "unat (cp_committed pool) = bt_sum (held_capacity pool_id) (capacity_leases s) \<and>
    bt_sum (held_capacity pool_id) (capacity_leases s) \<le> unat (cp_total_capacity pool)"
proof -
  from sm_run_inv [OF assms(1)] assms(2)
  have "unat (cp_committed pool) = bt_sum (held_capacity pool_id) (capacity_leases s)"
    "cp_committed pool \<le> cp_total_capacity pool"
    by (simp_all add: sm_inv_def capacity_inv_def)
  then show ?thesis by (simp add: word_le_nat_alt)
qed

definition demo_capacity :: ControlPlaneStateMachine where
  "demo_capacity = sm_new\<lparr>last_applied_index := 1, last_applied_term := 1,
     capacity_pools := [(4, \<lparr>cp_total_capacity = 5, cp_committed = 0\<rparr>)],
     dedup_table := [(1, \<lparr>dr_proposal_digest = 0, dr_committed_index = 1,
       dr_rejection = Some InsufficientOrInvalidPoolBalance\<rparr>)]\<rparr>"

definition demo_overcommit :: ControlPlaneProposal where
  "demo_overcommit = demo_proposal 1 (AllocateCapacityLease 1 4 5 3 1 6 1 1)"

lemma demo_overcommit_rejected:
  "apply_committed_entry (\<lambda>_. 0) 1 1 demo_overcommit sm_new =
     Inr (demo_capacity, DomainRejected 1 InsufficientOrInvalidPoolBalance)"
  by (simp add: apply_committed_entry_def demo_overcommit_def demo_proposal_def sm_new_def
      demo_capacity_def apply_allocate_capacity_lease_def proposal_digest_def bt_contains_def
      checked_add_def Let_def)

lemma demo_capacity_run: "(sm_step (\<lambda>_. 0))\<^sup>*\<^sup>* sm_new demo_capacity"
  using demo_overcommit_rejected by (blast intro: r_into_rtranclp sm_step_def [THEN iffD2])

theorem capacity_within_total_witness:
  "bt_get (capacity_pools demo_capacity) 4 = Some \<lparr>cp_total_capacity = 5, cp_committed = 0\<rparr> \<and>
   bt_sum (held_capacity 4) (capacity_leases demo_capacity) \<le> 5"
  using capacity_within_total [OF demo_capacity_run, of 4 "\<lparr>cp_total_capacity = 5, cp_committed = 0\<rparr>"]
  by (simp add: demo_capacity_def bt_get_def)

lemma apply_panics_inv:
  assumes "quota_inv s"
  shows "apply_committed_entry sha i cterm p s = Inl e \<longleftrightarrow>
    i \<le> last_applied_index s \<and> e = LogIndexNotIncreasing"
proof -
  let ?s = "s\<lparr>last_applied_index := i, last_applied_term := cterm\<rparr>"
  have "apply_settle_quota_lease i lease_id disposition returned quarantined epoch token ?s \<noteq> Inl e'"
    for lease_id disposition returned quarantined epoch token e'
    using assms
    by (auto simp: apply_settle_quota_lease_def quota_inv_def bt_contains_def Let_def
        split: option.splits) (metis option.distinct(1))+
  then have "apply_root_lease_pool i c ?s \<noteq> Inl e'" for c e'
    by (cases c) simp_all
  then have "apply_inner i cterm cmd ?s \<noteq> Inl e'" for cmd e'
    by (cases cmd) simp_all
  then show ?thesis
    by (auto simp: apply_committed_entry_def Let_def result_bind_def split: option.splits sum.splits)
qed

text \<open>C14: the state machine panics only on an index that does not increase: in a reachable state
  the \<open>expect\<close> on a lease's budget root never fires.\<close>

theorem apply_panics_iff:
  assumes "(sm_step sha)\<^sup>*\<^sup>* sm_new s"
  shows "apply_committed_entry sha i cterm p s = Inl e \<longleftrightarrow>
    i \<le> last_applied_index s \<and> e = LogIndexNotIncreasing"
  by (rule apply_panics_inv) (use sm_run_inv [OF assms] in \<open>simp add: sm_inv_def\<close>)

text \<open>C15: exactly-once application. Applying a proposal again, at any later point of any run,
  changes nothing but the applied position and answers with the outcome and the commit index of
  the first application, marked as a replay; a proposal refused because its key was taken stays
  refused.\<close>

theorem applied_exactly_once:
  assumes "(sm_step sha)\<^sup>*\<^sup>* sm_new s"
    and "apply_committed_entry sha i cterm p s = Inr (t, out)" "(sm_step sha)\<^sup>*\<^sup>* t u"
    and "apply_committed_entry sha j cterm' p u = Inr (w, out')"
  shows "w = u\<lparr>last_applied_index := j, last_applied_term := cterm'\<rparr> \<and>
    out' = (case out of
        Applied k _ \<Rightarrow> Applied k True
      | DomainRejected k r \<Rightarrow> if r = IdempotencyKeyPayloadConflict
          then DomainRejected j IdempotencyKeyPayloadConflict else DomainRejected k r)"
proof -
  have "dedup_inv s"
    by (rule dedup.inv_run [OF assms(1)]) (simp add: dedup_inv_def sm_new_def)
  have "bt_evolves (=) (dedup_table t) (dedup_table u)"
    using sm_run_evolves [OF assms(3)] by (simp add: sm_evolves_def)
  then have later: "bt_get (dedup_table u) k = Some rec" if "bt_get (dedup_table t) k = Some rec" for k rec
    using that by (rule bt_evolves_get) simp
  note apply2 = assms(4) [unfolded apply_committed_entry_def]
  from assms(2) show ?thesis
  proof (cases rule: apply_committed_entryE)
    case (replay rec)
    with \<open>dedup_inv s\<close> have "dr_rejection rec \<noteq> Some IdempotencyKeyPayloadConflict"
      by (simp add: dedup_inv_def)
    with replay later [of "idempotency_key p" rec] apply2 show ?thesis
      by (auto simp: Let_def split: if_splits option.splits)
  next
    case (conflict rec)
    with later [of "idempotency_key p" rec] apply2 show ?thesis
      by (auto simp: Let_def split: if_splits)
  next
    case (fresh s1 rejection)
    then have "bt_get (dedup_table t) (idempotency_key p) =
        Some \<lparr>dr_proposal_digest = proposal_digest sha p, dr_committed_index = i, dr_rejection = rejection\<rparr>"
      by simp
    with later [OF this] apply2 fresh(5) apply_inner_no_conflict [OF fresh(3)] show ?thesis
      by (auto simp: Let_def split: if_splits option.splits)
  qed
qed

theorem applied_exactly_once_witness:
  "apply_committed_entry (\<lambda>_. 0) 9 4 demo_register demo_leased =
     Inr (demo_leased\<lparr>last_applied_index := 9, last_applied_term := 4\<rparr>, Applied 1 True)"
proof -
  have "last_applied_index demo_leased < 9" by (simp add: demo_leased_def)
  moreover have "bt_get (dedup_table demo_leased) 1 =
      Some \<lparr>dr_proposal_digest = 0, dr_committed_index = 1, dr_rejection = None\<rparr>"
    by (simp add: demo_leased_def bt_get_def)
  ultimately obtain w out' where
    ap: "apply_committed_entry (\<lambda>_. 0) 9 4 demo_register demo_leased = Inr (w, out')"
    by (simp add: apply_committed_entry_def demo_register_def demo_proposal_def Let_def
        proposal_digest_def)
  with applied_exactly_once [OF rtranclp.rtrancl_refl demo_register_applies demo_runs(2) ap]
  show ?thesis by simp
qed

theorem apply_panics_iff_witness:
  "apply_committed_entry (\<lambda>_. 0) 2 1 demo_lease demo_leased = Inl LogIndexNotIncreasing"
  using apply_panics_iff [OF demo_runs(3), of 2 1 demo_lease LogIndexNotIncreasing]
  by (simp add: demo_leased_def)



text \<open>The scope and token a command presents to the fence.\<close>

fun presented_token :: "ControlPlaneStateMachine \<Rightarrow> ControlPlaneCommand \<Rightarrow> (bytes16 \<times> CellFencingToken) option" where
  "presented_token s (RootLeasePoolMutation (AllocateQuotaLease lease_id root holder boot_gen face
     epoch token scope)) = Some (scope, token)"
| "presented_token s (RootLeasePoolMutation (SettleOrQuarantineQuotaLease lease_id disposition
     returned quarantined epoch token)) =
     map_option (\<lambda>l. (ql_fence_scope l, token)) (bt_get (quota_leases s) lease_id)"
| "presented_token s cmd = None"

lemma fenced_below_fresh:
  assumes "(sm_step sha)\<^sup>*\<^sup>* sm_new s0" "(sm_step sha)\<^sup>*\<^sup>* s0 s" "\<not> token_stale s scope token"
    and "bt_get (quota_leases s0) k = Some l" "ql_fence_scope l = scope"
  shows "ql_fencing_token l < token"
proof -
  have "fence_inv s0" using sm_run_inv [OF assms(1)] by (simp add: sm_inv_def)
  with assms(4) have "fenced s0 l" by (simp add: fence_inv_fenced)
  moreover have "tables_evolve s0 s" using sm_run_evolves [OF assms(2)] by (simp add: sm_evolves_def)
  ultimately have "fenced s l" by (rule fenced_evolves)
  with assms(3,5) show ?thesis by (force simp: fenced_def token_stale_def)
qed

text \<open>C17: fencing of quota leases. A command that allocates or settles a quota lease is accepted
  only with a token above the scope's high-water mark and above every token that any quota lease of
  the scope carries or carried in an earlier state of the run, and that token is the scope's new
  high-water mark. (The token of a capacity allocation is recorded but compared with nothing; a
  device transition compares its token with the head of its device, not with a scope.)\<close>

theorem accepted_token_is_fresh:
  assumes "(sm_step sha)\<^sup>*\<^sup>* sm_new s"
    and "apply_committed_entry sha i cterm p s = Inr (t, Applied i False)"
    and "presented_token s (command p) = Some (scope, token)"
  shows "(\<forall>mark. bt_get (fence_scope_high_water s) scope = Some mark \<longrightarrow> mark < token) \<and>
    (\<forall>s0 k l. (sm_step sha)\<^sup>*\<^sup>* sm_new s0 \<and> (sm_step sha)\<^sup>*\<^sup>* s0 s \<and>
      bt_get (quota_leases s0) k = Some l \<and> ql_fence_scope l = scope \<longrightarrow> ql_fencing_token l < token) \<and>
    bt_get (fence_scope_high_water t) scope = Some token"
proof -
  let ?s = "s\<lparr>last_applied_index := i, last_applied_term := cterm\<rparr>"
  obtain s1 where ap: "apply_inner i cterm (command p) ?s = Inr (s1, None)"
    and t: "fence_scope_high_water t = fence_scope_high_water s1"
    using assms(2) by (cases rule: apply_committed_entryE) (auto split: option.splits)
  have accepted: "\<not> token_stale ?s scope token \<and> bt_get (fence_scope_high_water s1) scope = Some token"
    using assms(3)
  proof (cases "(s, command p)" rule: presented_token.cases)
    case (1 s' lease_id root holder boot_gen face epoch token' scope')
    with ap have "apply_allocate_quota_lease i lease_id root holder boot_gen face epoch token' scope' ?s =
        (s1, None)" by simp
    then show ?thesis
      by (cases rule: allocate_quota_leaseE) (use assms(3) 1 in simp_all)
  next
    case (2 s' lease_id disposition returned quarantined epoch token')
    with ap have "apply_settle_quota_lease i lease_id disposition returned quarantined epoch token' ?s =
        Inr (s1, None)" by simp
    then show ?thesis
      by (cases rule: settle_quota_leaseE) (use assms(3) 2 in auto)
  qed simp_all
  then have "\<not> token_stale s scope token" by (simp add: token_stale_def)
  then have "mark < token" if "bt_get (fence_scope_high_water s) scope = Some mark" for mark
    using that by (simp add: token_stale_def not_le)
  moreover have "ql_fencing_token l < token"
    if "(sm_step sha)\<^sup>*\<^sup>* sm_new s0" "(sm_step sha)\<^sup>*\<^sup>* s0 s" "bt_get (quota_leases s0) k = Some l"
      "ql_fence_scope l = scope" for s0 k l
    using fenced_below_fresh [OF that(1,2) \<open>\<not> token_stale s scope token\<close> that(3,4)] .
  moreover have "bt_get (fence_scope_high_water t) scope = Some token" using accepted t by simp
  ultimately show ?thesis by blast
qed

theorem accepted_token_is_fresh_witness:
  "bt_get (fence_scope_high_water demo_leased) 8 = Some 7"
  using accepted_token_is_fresh [OF demo_runs(1) demo_lease_applies, of 8 7]
  by (simp add: demo_lease_def demo_proposal_def)

text \<open>C18: the device automaton. Applying an entry to a reachable state leaves every device head
  active exactly when it names a holder; a head changes only when the entry is a transition command
  for that device, which takes one of the arrows free to active, active to quarantined, active or
  quarantined to free, presents a strictly later exclusivity epoch and fencing token, and becomes
  free only if the command carries a reset proof; and a device first appears as active.\<close>

theorem device_automaton:
  assumes "(sm_step sha)\<^sup>*\<^sup>* sm_new s" "apply_committed_entry sha i cterm p s = Inr (t, out)"
  shows "(\<forall>k d. bt_get (device_heads t) k = Some d \<longrightarrow>
      (dh_state d = DeviceActive \<longleftrightarrow> dh_holder_cell d \<noteq> None)) \<and>
    (\<forall>k d. bt_get (device_heads s) k = Some d \<longrightarrow>
      (\<exists>d'. bt_get (device_heads t) k = Some d' \<and> (d' = d \<or> device_change (command p) k d d'))) \<and>
    (\<forall>k d. bt_get (device_heads s) k = None \<and> bt_get (device_heads t) k = Some d \<longrightarrow>
      dh_state d = DeviceActive)"
proof -
  have "sm_step sha s t" using assms(2) by (auto simp: sm_step_def)
  then have inv: "device_inv t"
    using sm_inv_step [OF sm_run_inv [OF assms(1)]] by (simp add: sm_inv_def)
  have "(bt_get (device_heads s) k = Some d \<longrightarrow>
      (\<exists>d'. bt_get (device_heads t) k = Some d' \<and> (d' = d \<or> device_change (command p) k d d'))) \<and>
    (bt_get (device_heads s) k = None \<and> bt_get (device_heads t) k = Some d \<longrightarrow>
      dh_state d = DeviceActive)" for k d
    using assms(2)
  proof (cases rule: apply_committed_entryE)
    case (fresh s1 rejection)
    with device_handler(2,3) [OF fresh(3), of k d] show ?thesis by auto
  qed auto
  with inv show ?thesis by (simp add: device_inv_def)
qed

definition demo_device :: ControlPlaneStateMachine where
  "demo_device = sm_new\<lparr>last_applied_index := 1, last_applied_term := 1,
     authority_receipt_high_water := 1,
     device_heads := [(4, \<lparr>dh_device_id = 4, dh_device_lease_id = 5, dh_exclusivity_epoch = 1,
       dh_holder_cell = Some 3, dh_fencing_token = 1, dh_state = DeviceActive,
       dh_committed_at_index = 1\<rparr>)],
     dedup_table := [(1, \<lparr>dr_proposal_digest = 0, dr_committed_index = 1, dr_rejection = None\<rparr>)]\<rparr>"

lemma demo_device_step: "sm_step (\<lambda>_. 0) sm_new demo_device"
proof -
  have "apply_committed_entry (\<lambda>_. 0) 1 1
      (demo_proposal 1 (TransitionExclusiveDeviceHead 4 5 1 (Some 3) 1 DeviceActive False)) sm_new =
    Inr (demo_device, Applied 1 False)"
    by (simp add: apply_committed_entry_def demo_proposal_def sm_new_def demo_device_def
        apply_device_transition_def proposal_digest_def saturating_add_def Let_def)
  then show ?thesis by (auto simp: sm_step_def)
qed

definition demo_reset :: ControlPlaneProposal where
  "demo_reset = demo_proposal 2 (TransitionExclusiveDeviceHead 4 5 2 None 2 DeviceFree True)"

theorem device_automaton_witness:
  "\<exists>d d'. bt_get (device_heads demo_device) 4 = Some d \<and> dh_state d' = DeviceFree \<and>
     device_change (command demo_reset) 4 d d'"
proof -
  have two: "\<not> (2 :: u64) \<le> 1" by (simp add: not_le)
  obtain t d d' where t: "apply_committed_entry (\<lambda>_. 0) 2 1 demo_reset demo_device = Inr (t, Applied 2 False)"
    and d: "bt_get (device_heads demo_device) 4 = Some d" "bt_get (device_heads t) 4 = Some d'"
      "dh_state d = DeviceActive" "dh_state d' = DeviceFree"
    by (simp add: apply_committed_entry_def demo_reset_def demo_proposal_def demo_device_def sm_new_def
        apply_device_transition_def proposal_digest_def bt_get_def Let_def two)
  have "(sm_step (\<lambda>_. 0))\<^sup>*\<^sup>* sm_new demo_device" using demo_device_step by blast
  from device_automaton [OF this t] d show ?thesis by fastforce
qed

definition pool_only ::
  "ControlPlaneCommand \<Rightarrow> ControlPlaneStateMachine \<Rightarrow> ControlPlaneStateMachine \<Rightarrow> bool" where
  "pool_only cmd s t = (same_tables s (t\<lparr>capacity_pools := capacity_pools s\<rparr>) \<and>
    (capacity_pools t = capacity_pools s \<or>
     (\<exists>lease_id pool_id pool_total target boot_gen amount cepoch token.
        cmd = RootLeasePoolMutation (AllocateCapacityLease lease_id pool_id pool_total target
          boot_gen amount cepoch token) \<and>
        bt_get (capacity_pools s) pool_id = None \<and>
        capacity_pools t = bt_insert pool_id \<lparr>cp_total_capacity = pool_total, cp_committed = 0\<rparr>
          (capacity_pools s))))"

lemma pool_only_refl [simp]: "pool_only cmd s s"
  by (simp add: pool_only_def same_tables_def)

lemma pool_or_insert_only:
  assumes "capacity_pool_or_insert pool_id pool_total s = (pool, t)"
    and "cmd = RootLeasePoolMutation (AllocateCapacityLease lease_id pool_id pool_total target
      boot_gen amount cepoch token)"
  shows "pool_only cmd s t"
proof (cases "bt_get (capacity_pools s) pool_id")
  case None
  with assms(1) have t: "t = s\<lparr>capacity_pools := bt_insert pool_id
      \<lparr>cp_total_capacity = pool_total, cp_committed = 0\<rparr> (capacity_pools s)\<rparr>"
    by (auto simp: capacity_pool_or_insert_def Let_def)
  have "same_tables s (t\<lparr>capacity_pools := capacity_pools s\<rparr>)" by (simp add: t same_tables_def)
  then show ?thesis unfolding pool_only_def assms(2) using None by (auto simp: t)
qed (use assms in \<open>simp add: capacity_pool_or_insert_def\<close>)

lemma rejected_lease_pool_command:
  assumes "apply_inner i cterm (RootLeasePoolMutation c) s = Inr (t, Some r)"
  shows "pool_only (RootLeasePoolMutation c) s t"
proof (cases "\<exists>lease_id pool_id pool_total target boot_gen amount cepoch token. c =
    AllocateCapacityLease lease_id pool_id pool_total target boot_gen amount cepoch token")
  case True
  then obtain lease_id pool_id pool_total target boot_gen amount cepoch token
    where c: "c = AllocateCapacityLease lease_id pool_id pool_total target boot_gen amount cepoch token"
    by blast
  with assms have "apply_allocate_capacity_lease i lease_id pool_id pool_total target boot_gen amount
      cepoch token s = (t, Some r)" by simp
  then show ?thesis
    by (cases rule: allocate_capacity_leaseE) (simp_all add: c pool_or_insert_only)
next
  case False
  with assms have "t = s"
    by (cases c)
      (auto simp: apply_register_quota_pool_def apply_device_transition_def
        split: if_splits option.splits elim!: allocate_quota_leaseE settle_quota_leaseE)
  then show ?thesis by simp
qed

lemma rejected_command_pool_only:
  assumes "apply_inner i cterm cmd s = Inr (t, Some r)"
  shows "pool_only cmd s t"
proof (cases cmd)
  case (CellDirectoryMutation c)
  with assms show ?thesis by (cases c) (auto split: if_splits option.splits)
next
  case (TaskAuthorityShardMutation c)
  with assms show ?thesis by (cases c) (auto split: if_splits option.splits)
next
  case (ControlPlaneAuditAnchor c)
  with assms show ?thesis by (cases c) (auto split: if_splits)
qed (use assms rejected_lease_pool_command in blast)

text \<open>C19: what a rejection leaves behind. A rejected proposal changes no table, with one
  exception: if its command is a capacity allocation naming a pool that does not exist, the pool
  it names may have been registered, empty, with the total the command states.\<close>

theorem rejection_frame:
  assumes "apply_committed_entry sha i cterm p s = Inr (t, DomainRejected k r)"
  shows "same_tables s (t\<lparr>capacity_pools := capacity_pools s\<rparr>) \<and>
    (capacity_pools t = capacity_pools s \<or>
     (\<exists>lease_id pool_id pool_total target boot_gen amount cepoch token.
        command p = RootLeasePoolMutation (AllocateCapacityLease lease_id pool_id pool_total target
          boot_gen amount cepoch token) \<and>
        bt_get (capacity_pools s) pool_id = None \<and>
        capacity_pools t = bt_insert pool_id \<lparr>cp_total_capacity = pool_total, cp_committed = 0\<rparr>
          (capacity_pools s)))"
proof -
  from assms have "pool_only (command p) s t"
  proof (cases rule: apply_committed_entryE)
    case (fresh s1 rejection)
    then have "apply_inner i cterm (command p) (s\<lparr>last_applied_index := i, last_applied_term := cterm\<rparr>) =
        Inr (s1, Some r)"
      by (auto split: option.splits)
    from rejected_command_pool_only [OF this] show ?thesis by (simp add: pool_only_def same_tables_def fresh(4))
  qed (simp_all add: pool_only_def same_tables_def)
  then show ?thesis by (simp add: pool_only_def)
qed

theorem rejection_frame_witness:
  "capacity_pools demo_capacity = bt_insert 4 \<lparr>cp_total_capacity = 5, cp_committed = 0\<rparr> (capacity_pools sm_new) \<and>
   same_tables sm_new (demo_capacity\<lparr>capacity_pools := capacity_pools sm_new\<rparr>)"
proof -
  have "capacity_pools demo_capacity \<noteq> capacity_pools sm_new" by (simp add: demo_capacity_def sm_new_def)
  with rejection_frame [OF demo_overcommit_rejected] show ?thesis
    by (auto simp: demo_overcommit_def demo_proposal_def)
qed

text \<open>C20: a rejected capacity allocation fixes the pool's total for good. If the first command
  naming a pool asks for more than the total it states, it is rejected, yet from then on, in every
  later state, every allocation from that pool stating another total is rejected too.\<close>

theorem rejected_allocation_pins_total:
  assumes "bt_get (dedup_table s) (idempotency_key p) = None" "last_applied_index s < i"
    and "command p = RootLeasePoolMutation
      (AllocateCapacityLease lease_id pool_id pool_total target boot_gen amount cepoch token)"
    and "bt_get (capacity_leases s) lease_id = None" "bt_get (capacity_pools s) pool_id = None"
    and "pool_total < amount"
  shows "\<exists>t. apply_committed_entry sha i cterm p s =
      Inr (t, DomainRejected i InsufficientOrInvalidPoolBalance) \<and>
    (\<forall>u j cterm' lease_id' pool_total' target' boot_gen' amount' cepoch' token'.
      (sm_step sha)\<^sup>*\<^sup>* t u \<and> pool_total' \<noteq> pool_total \<longrightarrow>
      (\<exists>w. apply_inner j cterm' (RootLeasePoolMutation (AllocateCapacityLease lease_id' pool_id
        pool_total' target' boot_gen' amount' cepoch' token')) u =
        Inr (w, Some InsufficientOrInvalidPoolBalance)))"
proof -
  have "checked_add 0 amount = Some amount" by (simp add: checked_add_def)
  moreover have "amount \<noteq> 0" using assms(6) by auto
  ultimately obtain t where t: "apply_committed_entry sha i cterm p s =
      Inr (t, DomainRejected i InsufficientOrInvalidPoolBalance)"
    and pool: "bt_get (capacity_pools t) pool_id = Some \<lparr>cp_total_capacity = pool_total, cp_committed = 0\<rparr>"
    using assms
    by (simp add: apply_committed_entry_def apply_allocate_capacity_lease_def bt_contains_def Let_def)
  have "\<exists>w. apply_inner j cterm' (RootLeasePoolMutation (AllocateCapacityLease lease_id' pool_id
        pool_total' target' boot_gen' amount' cepoch' token')) u =
        Inr (w, Some InsufficientOrInvalidPoolBalance)"
    if "(sm_step sha)\<^sup>*\<^sup>* t u" "pool_total' \<noteq> pool_total"
    for u j cterm' lease_id' pool_total' target' boot_gen' amount' cepoch' token'
  proof -
    have "bt_evolves capacity_pool_le (capacity_pools t) (capacity_pools u)"
      using sm_run_evolves [OF that(1)] by (simp add: sm_evolves_def tables_evolve_def)
    then obtain pool' where "bt_get (capacity_pools u) pool_id = Some pool'"
      "cp_total_capacity pool' = pool_total"
      using pool by (rule bt_evolves_get) (simp add: capacity_pool_le_def)
    with that(2) show ?thesis
      by (simp add: apply_allocate_capacity_lease_def bt_contains_def Let_def)
  qed
  with t show ?thesis by blast
qed

theorem rejected_allocation_pins_total_witness:
  "\<exists>w. apply_inner 2 1 (RootLeasePoolMutation (AllocateCapacityLease 2 4 100 3 1 6 1 1)) demo_capacity =
     Inr (w, Some InsufficientOrInvalidPoolBalance)"
proof -
  have "\<exists>t. apply_committed_entry (\<lambda>_. 0) 1 1 demo_overcommit sm_new =
      Inr (t, DomainRejected 1 InsufficientOrInvalidPoolBalance) \<and>
    (\<forall>u j cterm' lease_id' pool_total' target' boot_gen' amount' cepoch' token'.
      (sm_step (\<lambda>_. 0))\<^sup>*\<^sup>* t u \<and> pool_total' \<noteq> 5 \<longrightarrow>
      (\<exists>w. apply_inner j cterm' (RootLeasePoolMutation (AllocateCapacityLease lease_id' 4
        pool_total' target' boot_gen' amount' cepoch' token')) u =
        Inr (w, Some InsufficientOrInvalidPoolBalance)))"
    by (rule rejected_allocation_pins_total [where pool_total = 5 and amount = 6 and pool_id = 4 and
          lease_id = 1 and target = 3 and boot_gen = 1 and cepoch = 1 and token = 1])
      (simp_all add: sm_new_def demo_overcommit_def demo_proposal_def)
  then show ?thesis by (auto simp: demo_overcommit_rejected)
qed

end
