(* ===== verification/SnapshotCodec.thy ===== *)
theory SnapshotCodec
  imports EndpointHints ControlPlaneProps
begin

text \<open>
  Snapshots read back: every row, every table, the whole state body and the framed snapshot. The
  condition is what the types of the source give (non-zero nominal fields) and what the state
  machine keeps invariant (each row under its own key, in key order); it is proved for every state
  reached by applying entries.
\<close>

section \<open>Rows\<close>

lemmas snap_bind =
  u8c.map_err_bind [simplified] u8c.map_err_bind_end [simplified]
  u64c.map_err_bind u64c.map_err_bind_end b16c.map_err_bind b32c.map_err_bind b32c.map_err_bind_end
  cellc.map_err_bind nz64c.map_err_bind nz64c.map_err_bind_end genc.map_err_bind
  epochc.map_err_bind tokenc.map_err_bind tokenc.map_err_bind_end addrc.map_err_bind

lemma disposition_roundtrip [simp]: "disposition_from_u8 (disposition_as_u8 d) = Some d"
  by (cases d) (simp_all add: disposition_from_u8_def)

lemma device_state_roundtrip [simp]: "device_state_from_u8 (device_state_as_u8 d) = Some d"
  by (cases d) (simp_all add: device_state_from_u8_def)

lemma rejection_roundtrip [simp]:
  "rejection_from_u8 (rejection_as_u8 r) = Some r" "rejection_as_u8 r \<noteq> 0"
  by (cases r; simp add: rejection_from_u8_def)+

lemma snap_via_bind:
  assumes "from_u8 b = Some v"
  shows "rbind (snap_via from_u8 field) f (cursor_at pre (b # rest)) = f v (cursor_at (pre @ [b]) rest)"
  using assms by (simp add: snap_via_def trunc_def rbind_assoc rbind_rret snap_bind)

lemma read_bool_bind:
  "rbind (read_bool field) f (cursor_at pre (bool_u8 b # rest)) = f b (cursor_at (pre @ [bool_u8 b]) rest)"
  by (cases b) (simp_all add: read_bool_def bool_u8_def trunc_def rbind_assoc rbind_rret snap_bind)

lemma snap_option_bind:
  assumes "readable enc rd (\<lambda>_. True)"
  shows "rbind (snap_option field rd) f (cursor_at pre (encode_opt enc x @ rest)) =
    f x (cursor_at (pre @ encode_opt enc x) rest)"
  using assms
  by (cases x) (simp_all add: snap_option_def encode_opt_def trunc_def rbind_assoc rbind_rret
      snap_bind readable.map_err_bind)

lemmas opt_bind = snap_option_bind [OF cellc.readable_axioms] snap_option_bind [OF b32c.readable_axioms]

lemmas row_simps = trunc_def corrupt_def snap_bind snap_via_bind read_bool_bind opt_bind

lemma snap_via_bindE:
  assumes "rbind (snap_via from_u8 field) f (cursor_at pre bs) = Inr r"
    and "\<And>b v. from_u8 b = Some v \<Longrightarrow> b = as_u8 v"
  obtains v rest where "bs = as_u8 v # rest" "f v (cursor_at (pre @ [as_u8 v]) rest) = Inr r"
  using assms(1)
  by (auto simp: snap_via_def trunc_def rbind_assoc rbind_rret rbind_Inl split: option.splits
      elim!: u8c.map_err_bindE dest!: assms(2) intro: that)

lemma disposition_from_u8_SomeD: "disposition_from_u8 b = Some v \<Longrightarrow> b = disposition_as_u8 v"
  by (auto simp: disposition_from_u8_def split: if_splits)

lemma device_state_from_u8_SomeD: "device_state_from_u8 b = Some v \<Longrightarrow> b = device_state_as_u8 v"
  by (auto simp: device_state_from_u8_def split: if_splits)

lemma rejection_from_u8_SomeD: "rejection_from_u8 b = Some v \<Longrightarrow> b = rejection_as_u8 v"
  by (auto simp: rejection_from_u8_def split: if_splits)

lemma read_rejection_bind:
  "rbind read_rejection f (cursor_at pre (rejection_code r # rest)) =
     f r (cursor_at (pre @ [rejection_code r]) rest)"
  by (cases r)
    (simp_all add: read_rejection_def rejection_code_def trunc_def rbind_assoc rbind_rret snap_bind)

lemma read_rejection_bind_end:
  "rbind read_rejection f (cursor_at pre [rejection_code r]) = f r (cursor_at (pre @ [rejection_code r]) [])"
  by (rule read_rejection_bind)

lemma read_rejection_bindE:
  assumes "rbind read_rejection f (cursor_at pre bs) = Inr r"
  obtains v rest where "bs = rejection_code v # rest" "f v (cursor_at (pre @ [rejection_code v]) rest) = Inr r"
proof -
  from assms obtain code rest where bs: "bs = code # rest"
    and f: "rbind (if code = 0 then rret None else case rejection_from_u8 code of
         None \<Rightarrow> rfail (CorruptField ''dd.rejection'') | Some reason \<Rightarrow> rret (Some reason)) f
       (cursor_at (pre @ [code]) rest) = Inr r"
    by (auto simp: read_rejection_def trunc_def rbind_assoc elim!: u8c.map_err_bindE)
  show ?thesis
  proof (cases "code = 0")
    case True
    with bs f that [of None rest] show ?thesis by (simp add: rejection_code_def rbind_rret)
  next
    case False
    with f obtain reason where "rejection_from_u8 code = Some reason"
      "f (Some reason) (cursor_at (pre @ [code]) rest) = Inr r"
      by (auto simp: rbind_rret rbind_Inl split: option.splits)
    with bs that [of "Some reason" rest] show ?thesis
      by (auto simp: rejection_code_def dest!: rejection_from_u8_SomeD)
  qed
qed

lemma disposition_bindE:
  assumes "rbind (snap_via disposition_from_u8 field) f (cursor_at pre bs) = Inr r"
  obtains v rest where "bs = disposition_as_u8 v # rest"
    "f v (cursor_at (pre @ [disposition_as_u8 v]) rest) = Inr r"
  by (rule snap_via_bindE [OF assms disposition_from_u8_SomeD]) (auto intro: that)

lemma device_state_bindE:
  assumes "rbind (snap_via device_state_from_u8 field) f (cursor_at pre bs) = Inr r"
  obtains v rest where "bs = device_state_as_u8 v # rest"
    "f v (cursor_at (pre @ [device_state_as_u8 v]) rest) = Inr r"
  by (rule snap_via_bindE [OF assms device_state_from_u8_SomeD]) (auto intro: that)

lemma read_bool_bindE:
  assumes "rbind (read_bool field) f (cursor_at pre bs) = Inr r"
  obtains v rest where "bs = bool_u8 v # rest" "f v (cursor_at (pre @ [bool_u8 v]) rest) = Inr r"
  using assms that [of True] that [of False]
  by (auto simp: read_bool_def trunc_def rbind_assoc rbind_rret bool_u8_def split: if_splits
      elim!: u8c.map_err_bindE)

lemma snap_option_bindE:
  assumes "field_codec enc rd (\<lambda>_. True)"
    and "rbind (snap_option field rd) f (cursor_at pre bs) = Inr r"
  obtains v rest where "bs = encode_opt enc v @ rest" "f v (cursor_at (pre @ encode_opt enc v) rest) = Inr r"
  using assms(2) that [of None] that [of "Some x" for x]
  by (auto simp: snap_option_def trunc_def rbind_assoc rbind_rret encode_opt_def split: if_splits
      elim!: u8c.map_err_bindE field_codec.map_err_bindE [OF assms(1)])

lemmas row_canonE =
  u8c.map_err_bindE u64c.map_err_bindE b16c.map_err_bindE b32c.map_err_bindE cellc.map_err_bindE
  nz64c.map_err_bindE genc.map_err_bindE epochc.map_err_bindE tokenc.map_err_bindE
  addrc.map_err_bindE disposition_bindE device_state_bindE read_bool_bindE
  snap_option_bindE [OF cellc.field_codec_axioms] snap_option_bindE [OF b32c.field_codec_axioms]

definition cell_row_ok :: "CellIdentity \<times> ReplicatedCellDirectoryEntry \<Rightarrow> bool" where
  "cell_row_ok = (\<lambda>(k, e). ce_cell e = k \<and> ce_node_boot_generation e \<noteq> 0 \<and> ce_epoch e \<noteq> 0 \<and>
     endpoint_plain (ce_endpoint_hint e) \<and> ce_updated_at_commit_index e \<noteq> 0)"

definition quota_lease_row_ok :: "QuotaLeaseId \<times> ReplicatedQuotaLeaseEntry \<Rightarrow> bool" where
  "quota_lease_row_ok = (\<lambda>(k, l). ql_lease_id l = k \<and> ql_node_boot_generation l \<noteq> 0 \<and>
     ql_epoch l \<noteq> 0 \<and> ql_fencing_token l \<noteq> 0 \<and> ql_committed_at_index l \<noteq> 0)"

definition capacity_lease_row_ok :: "CapacityLeaseId \<times> ReplicatedCapacityLeaseEntry \<Rightarrow> bool" where
  "capacity_lease_row_ok = (\<lambda>(k, l). cl_capacity_lease_id l = k \<and> cl_target_boot_generation l \<noteq> 0 \<and>
     cl_capacity_epoch l \<noteq> 0 \<and> cl_fencing_token l \<noteq> 0 \<and> cl_committed_at_index l \<noteq> 0)"

definition device_head_row_ok :: "DeviceId \<times> ReplicatedDeviceHeadEntry \<Rightarrow> bool" where
  "device_head_row_ok = (\<lambda>(k, d). dh_device_id d = k \<and> dh_exclusivity_epoch d \<noteq> 0 \<and>
     dh_fencing_token d \<noteq> 0 \<and> dh_committed_at_index d \<noteq> 0)"

definition fence_row_ok :: "bytes16 \<times> CellFencingToken \<Rightarrow> bool" where
  "fence_row_ok = (\<lambda>(k, tok). tok \<noteq> 0)"

definition task_shard_row_ok :: "(TaskId \<times> Generation) \<times> CommittedTaskAuthorityAssignment \<Rightarrow> bool" where
  "task_shard_row_ok = (\<lambda>(k, a). k = (ta_task_id a, ta_task_generation a) \<and>
     ta_task_generation a \<noteq> 0 \<and> ta_authority_term a \<noteq> 0 \<and> ta_consensus_commit_index a \<noteq> 0 \<and>
     ta_consensus_term a \<noteq> 0)"

definition takeover_row_ok :: "ReceiptId \<times> CommittedTaskAuthorityTakeover \<Rightarrow> bool" where
  "takeover_row_ok = (\<lambda>(k, r). tk_takeover_receipt_id r = k \<and> tk_task_generation r \<noteq> 0 \<and>
     tk_frozen_old_authority_term r \<noteq> 0 \<and> tk_new_authority_term r \<noteq> 0 \<and>
     tk_consensus_commit_index r \<noteq> 0 \<and> tk_consensus_term r \<noteq> 0)"

definition migration_row_ok :: "bytes16 \<times> ReplicatedMigrationAnchor \<Rightarrow> bool" where
  "migration_row_ok = (\<lambda>(k, m). ma_intent_id m = k \<and> ma_epoch m \<noteq> 0 \<and> ma_consensus_commit_index m \<noteq> 0)"

definition checkpoint_row_ok :: "(CellIdentity \<times> u64) \<times> ReplicatedCheckpointAnchor \<Rightarrow> bool" where
  "checkpoint_row_ok = (\<lambda>(k, c). k = (ck_cell c, ck_checkpoint_seq c) \<and>
     ck_node_boot_generation c \<noteq> 0 \<and> ck_epoch c \<noteq> 0 \<and> ck_checkpoint_seq c \<noteq> 0 \<and>
     ck_consensus_commit_index c \<noteq> 0)"

definition dedup_row_ok :: "IdempotencyKey \<times> DedupRecord \<Rightarrow> bool" where
  "dedup_row_ok = (\<lambda>(k, r). dr_committed_index r \<noteq> 0)"

lemmas row_ok_defs = cell_row_ok_def quota_lease_row_ok_def capacity_lease_row_ok_def
  device_head_row_ok_def fence_row_ok_def task_shard_row_ok_def takeover_row_ok_def
  migration_row_ok_def checkpoint_row_ok_def dedup_row_ok_def

interpretation cell_row: field_codec encode_cell_row read_cell_row cell_row_ok
  by unfold_locales
    (auto simp: cell_row_ok_def encode_cell_row_def read_cell_row_def row_simps elim!: row_canonE)

interpretation quota_pool_row: field_codec encode_quota_pool_row read_quota_pool_row "\<lambda>_. True"
  by unfold_locales
    (auto simp: encode_quota_pool_row_def read_quota_pool_row_def row_simps elim!: row_canonE)

interpretation quota_lease_row: field_codec encode_quota_lease_row read_quota_lease_row quota_lease_row_ok
  by unfold_locales
    (auto simp: quota_lease_row_ok_def encode_quota_lease_row_def read_quota_lease_row_def row_simps elim!: row_canonE)

interpretation capacity_pool_row: field_codec encode_capacity_pool_row read_capacity_pool_row "\<lambda>_. True"
  by unfold_locales
    (auto simp: encode_capacity_pool_row_def read_capacity_pool_row_def row_simps elim!: row_canonE)

interpretation capacity_lease_row: field_codec encode_capacity_lease_row read_capacity_lease_row capacity_lease_row_ok
  by unfold_locales
    (auto simp: capacity_lease_row_ok_def encode_capacity_lease_row_def
      read_capacity_lease_row_def row_simps elim!: row_canonE)

interpretation device_head_row: field_codec encode_device_head_row read_device_head_row device_head_row_ok
  by unfold_locales
    (auto simp: device_head_row_ok_def encode_device_head_row_def read_device_head_row_def row_simps elim!: row_canonE)

interpretation fence_row: field_codec encode_fence_scope_row read_fence_scope_row fence_row_ok
  by unfold_locales
    (auto simp: fence_row_ok_def encode_fence_scope_row_def read_fence_scope_row_def row_simps elim!: row_canonE)

interpretation task_shard_row: field_codec encode_task_shard_row read_task_shard_row task_shard_row_ok
  by unfold_locales
    (auto simp: task_shard_row_ok_def encode_task_shard_row_def read_task_shard_row_def row_simps elim!: row_canonE)

interpretation takeover_row: field_codec encode_takeover_row read_takeover_row takeover_row_ok
  by unfold_locales
    (auto simp: takeover_row_ok_def encode_takeover_row_def read_takeover_row_def row_simps elim!: row_canonE)

interpretation migration_row: field_codec encode_migration_row read_migration_row migration_row_ok
  by unfold_locales
    (auto simp: migration_row_ok_def encode_migration_row_def read_migration_row_def row_simps elim!: row_canonE)

interpretation checkpoint_row: field_codec encode_checkpoint_row read_checkpoint_row checkpoint_row_ok
  by unfold_locales
    (auto simp: checkpoint_row_ok_def encode_checkpoint_row_def read_checkpoint_row_def row_simps elim!: row_canonE)

interpretation dedup_row: field_codec encode_dedup_row read_dedup_row dedup_row_ok
  by unfold_locales
    (auto simp: dedup_row_ok_def encode_dedup_row_def read_dedup_row_def row_simps
      read_rejection_bind read_rejection_bind_end elim!: row_canonE read_rejection_bindE)

section \<open>Tables\<close>

definition table_ok :: "('k::linorder \<times> 'v \<Rightarrow> bool) \<Rightarrow> ('k, 'v) btree \<Rightarrow> bool" where
  "table_ok ok m \<longleftrightarrow> bt_sorted m \<and> (\<forall>row\<in>set m. ok row)"

lemma read_len_bind:
  "n < 2 ^ 32 \<Longrightarrow> rbind read_len f (cursor_at pre (encode_len n @ rest)) =
     f n (cursor_at (pre @ encode_len n) rest)"
  using readable.map_err_bind [OF field_codec.axioms(1) [OF be_slice_codec(1)],
      where x = "of_nat n" and g = "\<lambda>_. SnapTruncated" and pre = pre and rest = rest]
  by (simp add: read_len_def encode_len_def trunc_def rbind_def rmap_err_def read_slice_def
      from_be_to_be [where n = 4] unsigned_of_nat take_bit_nat_eq_self)

lemma read_rows_enc:
  assumes "readable enc rd ok" and "\<forall>row\<in>set es. ok row"
  shows "read_rows rd (length es) m (cursor_at pre (concat (map enc es) @ rest)) =
    Inr (fold (\<lambda>(k, v). bt_insert k v) es m, cursor_at (pre @ concat (map enc es)) rest)"
  using assms(2)
proof (induction es arbitrary: m pre)
  case Nil
  then show ?case by simp
next
  case (Cons e es)
  then show ?case
    by (simp add: readable.bind_enc [OF assms(1)] case_prod_beta)
qed

lemma table_readable:
  assumes "readable enc rd ok"
  shows "readable (encode_table enc) (read_table rd) (\<lambda>m. table_ok ok m \<and> length m < 2 ^ 32)"
proof
  fix m pre rest
  assume ok: "table_ok ok m \<and> length m < 2 ^ 32"
  then have "fold (\<lambda>(k, v). bt_insert k v) m [] = m"
    using fold_bt_insert_sorted [of "[]" m] by (simp add: table_ok_def)
  then show "read_table rd (cursor_at pre (encode_table enc m @ rest)) =
      Inr (m, cursor_at (pre @ encode_table enc m) rest)"
    using ok
    by (simp add: read_table_def encode_table_def read_len_bind read_rows_enc [OF assms] table_ok_def)
qed

lemmas table_bind =
  readable.bind_enc [OF table_readable [OF cell_row.readable_axioms]]
  readable.bind_enc [OF table_readable [OF quota_pool_row.readable_axioms]]
  readable.bind_enc [OF table_readable [OF quota_lease_row.readable_axioms]]
  readable.bind_enc [OF table_readable [OF capacity_pool_row.readable_axioms]]
  readable.bind_enc [OF table_readable [OF capacity_lease_row.readable_axioms]]
  readable.bind_enc [OF table_readable [OF device_head_row.readable_axioms]]
  readable.bind_enc [OF table_readable [OF fence_row.readable_axioms]]
  readable.bind_enc [OF table_readable [OF task_shard_row.readable_axioms]]
  readable.bind_enc [OF table_readable [OF takeover_row.readable_axioms]]
  readable.bind_enc [OF table_readable [OF migration_row.readable_axioms]]
  readable.bind_enc [OF table_readable [OF checkpoint_row.readable_axioms]]
  readable.bind_enc [OF table_readable [OF dedup_row.readable_axioms]]

definition sm_typed :: "ControlPlaneStateMachine \<Rightarrow> bool" where
  "sm_typed s \<longleftrightarrow>
     table_ok cell_row_ok (cells s) \<and> table_ok (\<lambda>_. True) (quota_pools s) \<and>
     table_ok quota_lease_row_ok (quota_leases s) \<and> table_ok (\<lambda>_. True) (capacity_pools s) \<and>
     table_ok capacity_lease_row_ok (capacity_leases s) \<and>
     table_ok device_head_row_ok (device_heads s) \<and>
     table_ok fence_row_ok (fence_scope_high_water s) \<and>
     table_ok task_shard_row_ok (task_shards s) \<and> table_ok takeover_row_ok (takeover_receipts s) \<and>
     table_ok migration_row_ok (migration_anchors s) \<and>
     table_ok checkpoint_row_ok (checkpoint_anchors s) \<and> table_ok dedup_row_ok (dedup_table s)"

interpretation state_body: readable canonical_bytes read_state "\<lambda>s. sm_typed s \<and> tables_fit s"
proof
  fix s :: ControlPlaneStateMachine and pre rest
  assume "sm_typed s \<and> tables_fit s"
  then show "read_state (cursor_at pre (canonical_bytes s @ rest)) =
      Inr (s, cursor_at (pre @ canonical_bytes s) rest)"
    by (simp add: read_state_def canonical_bytes_def trunc_def snap_bind table_bind sm_typed_def
        tables_fit_def)
qed

text \<open>Conversely, what the reader accepts is well typed and fits.\<close>

lemma length_bt_insert: "length (bt_insert k v m) \<le> Suc (length m)"
  by (induction k v m rule: bt_insert.induct) auto

lemma table_ok_insert [intro]: "table_ok ok m \<Longrightarrow> ok (k, v) \<Longrightarrow> table_ok ok (bt_insert k v m)"
  using set_bt_insert [of k v m] by (auto simp: table_ok_def)

lemma read_rows_canonical:
  assumes "field_codec enc rd ok"
  shows "read_rows rd n m (cursor_at pre bs) = Inr (m', c) \<Longrightarrow> table_ok ok m \<Longrightarrow>
    table_ok ok m' \<and> length m' \<le> length m + n \<and> (\<exists>pre' rest. c = cursor_at pre' rest)"
proof (induction n arbitrary: m pre bs)
  case 0
  then show ?case by auto
next
  case (Suc n)
  then obtain row rest where "ok row" and
    rd: "read_rows rd n (bt_insert (fst row) (snd row) m) (cursor_at (pre @ enc row) rest) = Inr (m', c)"
    by (auto elim!: field_codec.bindE [OF assms])
  then have "table_ok ok (bt_insert (fst row) (snd row) m)" using Suc.prems(2) by (auto intro!: table_ok_insert)
  from Suc.IH [OF rd this] length_bt_insert [of "fst row" "snd row" m] show ?case by auto
qed

lemma read_table_bindE:
  assumes "field_codec enc rd ok" and "rbind (read_table rd) f (cursor_at pre bs) = Inr r"
  obtains m pre' rest where "table_ok ok m" "length m < 2 ^ 32" "f m (cursor_at pre' rest) = Inr r"
proof -
  from assms(2) obtain m c where rd: "read_table rd (cursor_at pre bs) = Inr (m, c)" and f: "f m c = Inr r"
    by (auto simp: rbind_eq_Inr)
  from rd obtain count :: u32 and pre1 rest1 where
    "read_rows rd (unat count) [] (cursor_at pre1 rest1) = Inr (m, c)"
    by (auto simp: read_table_def read_len_def trunc_def rbind_def rmap_err_def read_slice_def
        split: if_splits)
  from read_rows_canonical [OF assms(1) this] have "table_ok ok m" "length m \<le> unat count"
    and "\<exists>pre' rest. c = cursor_at pre' rest"
    by (auto simp: table_ok_def)
  moreover have "unat count < 2 ^ 32" using unsigned_less [of count] by simp
  ultimately show ?thesis using that f by fastforce
qed

lemmas table_canonE =
  read_table_bindE [OF cell_row.field_codec_axioms]
  read_table_bindE [OF quota_pool_row.field_codec_axioms]
  read_table_bindE [OF quota_lease_row.field_codec_axioms]
  read_table_bindE [OF capacity_pool_row.field_codec_axioms]
  read_table_bindE [OF capacity_lease_row.field_codec_axioms]
  read_table_bindE [OF device_head_row.field_codec_axioms]
  read_table_bindE [OF fence_row.field_codec_axioms]
  read_table_bindE [OF task_shard_row.field_codec_axioms]
  read_table_bindE [OF takeover_row.field_codec_axioms]
  read_table_bindE [OF migration_row.field_codec_axioms]
  read_table_bindE [OF checkpoint_row.field_codec_axioms]
  read_table_bindE [OF dedup_row.field_codec_axioms]

lemma read_state_typed:
  "read_state (cursor_at pre bs) = Inr (s, c) \<Longrightarrow> sm_typed s \<and> tables_fit s"
  by (auto simp: read_state_def trunc_def sm_typed_def tables_fit_def
      elim!: table_canonE u64c.map_err_bindE b32c.map_err_bindE)

section \<open>The framed snapshot\<close>

lemma length_SNAPSHOT_MAGIC [simp]: "length SNAPSHOT_MAGIC = 8"
  by (simp add: SNAPSHOT_MAGIC_def ascii_def)

lemma length_snapshot_checksum [simp]: "length (snapshot_checksum sha bs) = 32"
  by (simp add: snapshot_checksum_def)

definition snapshot_frame :: "byte list \<Rightarrow> byte list \<Rightarrow> byte list \<Rightarrow> byte list" where
  "snapshot_frame root len body = SNAPSHOT_MAGIC @ root @ len @ body"

lemma snapshot_parts:
  assumes "length root = 32" "length len = 4"
  shows "length (snapshot_frame root len body) = 44 + length body"
    "take 8 (snapshot_frame root len body @ cks) = SNAPSHOT_MAGIC"
    "take 32 (drop 8 (snapshot_frame root len body @ cks)) = root"
    "take 4 (drop 40 (snapshot_frame root len body @ cks)) = len"
    "drop 44 (snapshot_frame root len body) = body"
  using assms by (simp_all add: snapshot_frame_def)

lemmas snapshot_parts_end = snapshot_parts(2-4) [where cks = "[]", simplified]

lemma decode_snapshot_encode_snapshot:
  assumes "sm_typed s" "encode_snapshot sha s = Some bytes"
  shows "decode_snapshot sha bytes = Inr s"
proof -
  let ?body = "canonical_bytes s"
  let ?len = "to_be (of_nat (length ?body) :: u32)"
  from assms(2) obtain root where fit: "tables_fit s" and root: "state_root_digest sha s = Some root"
    and len: "length ?body < 2 ^ 32"
    and bytes: "bytes = snapshot_frame (to_be root) ?len ?body @
      snapshot_checksum sha (snapshot_frame (to_be root) ?len ?body)"
    by (auto simp: encode_snapshot_def encode_canonical_state_body_def snapshot_frame_def Let_def
        split: option.splits if_splits)
  have "unat (of_nat (length ?body) :: u32) = length ?body"
    using len by (simp add: unsigned_of_nat take_bit_nat_eq_self)
  moreover have "from_be (to_be root) = root" "from_be ?len = (of_nat (length ?body) :: u32)"
    by (rule from_be_to_be, simp)+
  moreover have "read_state (cursor_new ?body) = Inr (s, cursor_at ?body [])"
    using state_body.rd_enc_end [of s "[]"] assms(1) fit by (simp add: cursor_new_at)
  ultimately show ?thesis
    by (simp add: decode_snapshot_def Let_def bytes snapshot_parts snapshot_parts_end root)
qed

section \<open>Every reached state is well typed\<close>

definition typed_step :: "sha256_fn \<Rightarrow> ControlPlaneStateMachine \<Rightarrow> ControlPlaneStateMachine \<Rightarrow> bool" where
  "typed_step sha s t \<longleftrightarrow> (\<exists>i cterm p out. i \<noteq> 0 \<and> cterm \<noteq> 0 \<and> command_ok (command p) \<and>
     apply_committed_entry sha i cterm p s = Inr (t, out))"

lemma table_ok_get: "table_ok ok m \<Longrightarrow> bt_get m k = Some v \<Longrightarrow> ok (k, v)"
  by (auto simp: table_ok_def dest: bt_get_SomeD)

lemma sm_typed_cells:
  assumes "sm_typed s" "i \<noteq> 0" "cell_directory_ok cmd" "apply_cell_directory i cmd s = (t, r)"
  shows "sm_typed t"
proof -
  have "cell_row_ok (k, e)" if "bt_get (cells s) k = Some e" for k e
    using assms(1) that by (auto simp: sm_typed_def dest: table_ok_get)
  with assms show ?thesis
    by (cases cmd)
      (fastforce simp: sm_typed_def cell_row_ok_def split: if_splits option.splits intro!: table_ok_insert)+
qed

lemma sm_typed_authority:
  assumes "sm_typed s" "i \<noteq> 0" "cterm \<noteq> 0" "task_authority_ok cmd"
    "apply_task_authority i cterm cmd s = (t, r)"
  shows "sm_typed t"
  using assms
  by (cases cmd)
    (auto simp: sm_typed_def task_shard_row_ok_def takeover_row_ok_def
      split: if_splits option.splits intro!: table_ok_insert)

lemma sm_typed_audit:
  assumes "sm_typed s" "i \<noteq> 0" "audit_ok cmd" "apply_audit i cmd s = (t, r)"
  shows "sm_typed t"
  using assms
  by (cases cmd)
    (auto simp: sm_typed_def migration_row_ok_def checkpoint_row_ok_def
      split: if_splits intro!: table_ok_insert)

lemma sm_typed_quota:
  "sm_typed s \<Longrightarrow> apply_register_quota_pool root initial s = (t, r) \<Longrightarrow> sm_typed t"
  "sm_typed s \<Longrightarrow> i \<noteq> 0 \<Longrightarrow> boot_gen \<noteq> 0 \<Longrightarrow> epoch \<noteq> 0 \<Longrightarrow> token \<noteq> 0 \<Longrightarrow>
    apply_allocate_quota_lease i lease_id root holder boot_gen face epoch token scope s = (t, r) \<Longrightarrow>
    sm_typed t"
  "sm_typed s \<Longrightarrow> i \<noteq> 0 \<Longrightarrow> epoch \<noteq> 0 \<Longrightarrow> token \<noteq> 0 \<Longrightarrow>
    apply_settle_quota_lease i lease_id disposition returned quarantined epoch token s = Inr (t, r) \<Longrightarrow>
    sm_typed t"
proof -
  show "sm_typed t" if "sm_typed s" "apply_register_quota_pool root initial s = (t, r)"
    using that
    by (auto simp: apply_register_quota_pool_def sm_typed_def split: if_splits intro!: table_ok_insert)
  show "sm_typed t"
    if "sm_typed s" "i \<noteq> 0" "boot_gen \<noteq> 0" "epoch \<noteq> 0" "token \<noteq> 0"
      "apply_allocate_quota_lease i lease_id root holder boot_gen face epoch token scope s = (t, r)"
    using that(6)
    by (cases rule: allocate_quota_leaseE)
      (use that(1-5) in \<open>auto simp: sm_typed_def quota_lease_row_ok_def fence_row_ok_def
        intro!: table_ok_insert\<close>)
  show "sm_typed t"
    if "sm_typed s" "i \<noteq> 0" "epoch \<noteq> 0" "token \<noteq> 0"
      "apply_settle_quota_lease i lease_id disposition returned quarantined epoch token s = Inr (t, r)"
    using that(5)
  proof (cases rule: settle_quota_leaseE)
    case (settled pool l0 l)
    have "table_ok quota_lease_row_ok (quota_leases s)" using that(1) by (simp add: sm_typed_def)
    from table_ok_get [OF this settled(2)] that(2-4) have "quota_lease_row_ok (lease_id, l)"
      by (simp add: quota_lease_row_ok_def settled(10))
    with that(1,4) show ?thesis
      by (auto simp: settled(11) sm_typed_def fence_row_ok_def intro!: table_ok_insert)
  qed (use that(1) in simp)
qed

lemma sm_typed_capacity:
  assumes "sm_typed s" "i \<noteq> 0" "boot_gen \<noteq> 0" "cepoch \<noteq> 0" "token \<noteq> 0"
    and "apply_allocate_capacity_lease i lease_id pool_id pool_total target boot_gen amount cepoch token s = (t, r)"
  shows "sm_typed t"
proof -
  have oi: "sm_typed s1" if "capacity_pool_or_insert pool_id pool_total s = (pool, s1)" for pool s1
    using that assms(1)
    by (auto simp: capacity_pool_or_insert_def Let_def sm_typed_def split: option.splits
        intro!: table_ok_insert)
  show ?thesis
    using assms(6)
  proof (cases rule: allocate_capacity_leaseE)
    case (granted pool s1 new_committed l)
    from oi [OF granted(3)] assms(2-5) show ?thesis
      by (auto simp: granted(6,7) sm_typed_def capacity_lease_row_ok_def intro!: table_ok_insert)
  qed (use assms(1) oi in auto)
qed

lemma sm_typed_device:
  assumes "sm_typed s" "i \<noteq> 0" "epoch \<noteq> 0" "token \<noteq> 0"
    and "apply_device_transition i device lease_id epoch holder token new_state has_proof s = (t, r)"
  shows "sm_typed t"
  using assms
  by (auto simp: apply_device_transition_def sm_typed_def device_head_row_ok_def
      split: if_splits intro!: table_ok_insert)

lemma sm_typed_handler:
  assumes "sm_typed s" "i \<noteq> 0" "cterm \<noteq> 0" "command_ok cmd" "apply_inner i cterm cmd s = Inr (t, r)"
  shows "sm_typed t"
proof (cases cmd)
  case (RootLeasePoolMutation c)
  with assms show ?thesis
    by (cases c) (auto intro: sm_typed_quota sm_typed_capacity sm_typed_device)
qed (use assms in \<open>auto intro: sm_typed_cells sm_typed_authority sm_typed_audit\<close>)

lemma sm_typed_step:
  assumes "sm_typed s" "typed_step sha s t"
  shows "sm_typed t"
proof -
  from assms(2) obtain i cterm p out where typed: "i \<noteq> 0" "cterm \<noteq> 0" "command_ok (command p)"
    and ap: "apply_committed_entry sha i cterm p s = Inr (t, out)"
    by (auto simp: typed_step_def)
  from ap show ?thesis
  proof (cases rule: apply_committed_entryE)
    case (fresh s1 rejection)
    have "sm_typed (s\<lparr>last_applied_index := i, last_applied_term := cterm\<rparr>)"
      using assms(1) by (simp add: sm_typed_def)
    from sm_typed_handler [OF this typed fresh(3)] typed(1) show ?thesis
      by (auto simp: fresh(4) sm_typed_def dedup_row_ok_def intro!: table_ok_insert)
  qed (use assms(1) in \<open>simp_all add: sm_typed_def\<close>)
qed

lemma sm_typed_new: "sm_typed sm_new"
  by (simp add: sm_typed_def sm_new_def table_ok_def)

interpretation typed_sm: invariant_system "\<lambda>s. s = sm_new" "typed_step sha" sm_typed for sha
  by unfold_locales (auto simp: sm_typed_new intro: sm_typed_step)

section \<open>Properties of snapshots\<close>

text \<open>The states reached by applying entries whose fields have the types of the source: indices,
  terms, generations, epochs and tokens are not zero. Endpoint hints are arbitrary.\<close>

definition entry_step :: "sha256_fn \<Rightarrow> ControlPlaneStateMachine \<Rightarrow> ControlPlaneStateMachine \<Rightarrow> bool" where
  "entry_step sha s t \<longleftrightarrow> (\<exists>i cterm p out. i \<noteq> 0 \<and> cterm \<noteq> 0 \<and> command_ok (plain_command (command p)) \<and>
     apply_committed_entry sha i cterm p s = Inr (t, out))"

lemma entry_step_plain:
  assumes "entry_step sha s t"
  shows "typed_step sha (plain_sm s) (plain_sm t)"
proof -
  obtain i cterm p out where "i \<noteq> 0" "cterm \<noteq> 0" "command_ok (plain_command (command p))"
      "apply_committed_entry sha i cterm p s = Inr (t, out)"
    using assms by (auto simp: entry_step_def)
  then have "i \<noteq> 0 \<and> cterm \<noteq> 0 \<and> command_ok (command (plain_proposal p)) \<and>
      apply_committed_entry sha i cterm (plain_proposal p) (plain_sm s) = Inr (plain_sm t, out)"
    by (simp add: plain_apply) (simp add: plain_proposal_def)
  then show ?thesis unfolding typed_step_def by blast
qed

interpretation entries: invariant_system "\<lambda>s. s = sm_new" "entry_step sha" "\<lambda>s. sm_typed (plain_sm s)" for sha
proof
  have "plain_sm sm_new = sm_new" by (simp add: plain_sm_def sm_new_def)
  then show "sm_typed (plain_sm s)" if "s = sm_new" for s using that sm_typed_new by simp
qed (blast intro: sm_typed_step entry_step_plain)

text \<open>C21: snapshots restore. For every state reached by applying entries, if it can be encoded at
  all (its tables and its body fit the \<open>u32\<close> length fields), the snapshot decodes to that state
  without the flow labels and scope ids of IPv6 endpoint hints, which are not written; so it decodes
  to exactly that state whenever no endpoint hint in the directory has either.\<close>

theorem snapshot_restores:
  assumes "(entry_step sha)\<^sup>*\<^sup>* sm_new s" "encode_snapshot sha s = Some bytes"
  shows "decode_snapshot sha bytes = Inr (plain_sm s) \<and>
    (list_all (\<lambda>(k, e). endpoint_plain (ce_endpoint_hint e)) (cells s) \<longrightarrow> decode_snapshot sha bytes = Inr s)"
proof -
  have "sm_typed (plain_sm sm_new)" using sm_typed_new by (simp add: plain_sm_def sm_new_def)
  then have "sm_typed (plain_sm s)" by (rule entries.inv_run [OF assms(1)])
  moreover have "encode_snapshot sha (plain_sm s) = Some bytes" using assms(2) by simp
  ultimately have "decode_snapshot sha bytes = Inr (plain_sm s)" by (rule decode_snapshot_encode_snapshot)
  then show ?thesis by (simp add: plain_sm_id)
qed

lemma demo_typed_run:
  "(typed_step (\<lambda>_. 0))\<^sup>*\<^sup>* sm_new demo_leased" "(entry_step (\<lambda>_. 0))\<^sup>*\<^sup>* sm_new demo_leased"
proof -
  have "typed_step (\<lambda>_. 0) sm_new demo_registered" "entry_step (\<lambda>_. 0) sm_new demo_registered"
    unfolding typed_step_def entry_step_def
    by (rule exI [of _ 1], rule exI [of _ 1], rule exI [of _ demo_register],
        simp add: demo_register_applies, simp add: demo_register_def demo_proposal_def)+
  moreover have "typed_step (\<lambda>_. 0) demo_registered demo_leased" "entry_step (\<lambda>_. 0) demo_registered demo_leased"
    unfolding typed_step_def entry_step_def
    by (rule exI [of _ 2], rule exI [of _ 1], rule exI [of _ demo_lease],
        simp add: demo_lease_applies, simp add: demo_lease_def demo_proposal_def)+
  ultimately show "(typed_step (\<lambda>_. 0))\<^sup>*\<^sup>* sm_new demo_leased" "(entry_step (\<lambda>_. 0))\<^sup>*\<^sup>* sm_new demo_leased"
    by (meson rtranclp.simps)+
qed

lemma demo_snapshot:
  "\<exists>bytes. encode_snapshot (\<lambda>_. 0) demo_leased = Some bytes \<and>
     take 32 (drop 8 bytes) = to_be (0 :: bytes32)"
proof -
  have "tables_fit demo_leased"
    by (simp add: tables_fit_def demo_leased_def demo_registered_def sm_new_def)
  moreover have "length (canonical_bytes demo_leased) < 2 ^ 32"
    by (simp add: canonical_bytes_def demo_leased_def demo_registered_def sm_new_def encode_table_def
        encode_len_def encode_quota_pool_row_def encode_quota_lease_row_def encode_fence_scope_row_def
        encode_dedup_row_def)
  ultimately show ?thesis
    by (simp add: encode_snapshot_def encode_canonical_state_body_def state_root_digest_def Let_def)
qed

theorem snapshot_restores_witness:
  "\<exists>bytes. encode_snapshot (\<lambda>_. 0) demo_leased = Some bytes \<and>
     decode_snapshot (\<lambda>_. 0) bytes = Inr demo_leased"
proof -
  have "list_all (\<lambda>(k, e). endpoint_plain (ce_endpoint_hint e)) (cells demo_leased)"
    by (simp add: demo_leased_def demo_registered_def sm_new_def)
  with demo_snapshot snapshot_restores [OF demo_typed_run(2)] show ?thesis by blast
qed

text \<open>The preimage of the state root.\<close>

definition root_preimage :: "ControlPlaneStateMachine \<Rightarrow> byte list" where
  "root_preimage s = ascii ''llmos/consensus/state-root/v1'' @
     to_be (of_nat (length (canonical_bytes s)) :: u64) @ canonical_bytes s"

lemma root_preimage_inject:
  assumes "sm_typed s" "tables_fit s" "sm_typed t" "tables_fit t" "root_preimage s = root_preimage t"
  shows "s = t"
proof -
  have "drop (29 + 8) (root_preimage u) = canonical_bytes u" for u
    by (simp add: root_preimage_def ascii_def)
  with assms(5) have "canonical_bytes s = canonical_bytes t" by metis
  with state_body.enc_prefix_free [of s t "[]" "[]"] assms(1-4) show ?thesis by simp
qed

text \<open>C22: the declared root identifies the state. Whatever bytes the decoder accepts, the returned
  state is well typed and its root is the one the header declares; and if that is also the root of a
  well typed state \<open>s\<close> (one whose IPv6 endpoint hints have no flow label or scope id), the decoder
  returned \<open>s\<close> itself, unless the two states' own root preimages are a collision of the hash.\<close>

theorem accepted_snapshot_root:
  assumes "decode_snapshot sha bytes = Inr t"
  shows "sm_typed t \<and> state_root_digest sha t = Some (from_be (take 32 (drop 8 bytes))) \<and>
    (\<forall>s. sm_typed s \<and> state_root_digest sha s = Some (from_be (take 32 (drop 8 bytes))) \<longrightarrow>
      t = s \<or> root_preimage t \<noteq> root_preimage s \<and> sha (root_preimage t) = sha (root_preimage s))"
proof -
  from assms obtain pre rest c where
    "read_state (cursor_at pre rest) = Inr (t, c)"
    and root: "state_root_digest sha t = Some (from_be (take 32 (drop 8 bytes)))"
    by (auto simp: decode_snapshot_def Let_def cursor_new_at split: if_splits sum.splits)
  from read_state_typed [OF this(1)] have t: "sm_typed t" "tables_fit t" by simp_all
  have "t = s \<or> root_preimage t \<noteq> root_preimage s \<and> sha (root_preimage t) = sha (root_preimage s)"
    if s: "sm_typed s" "state_root_digest sha s = Some (from_be (take 32 (drop 8 bytes)))" for s
  proof -
    have fit: "tables_fit s"
      using s(2) by (auto simp: state_root_digest_def encode_canonical_state_body_def split: if_splits)
    have "sha (root_preimage t) = sha (root_preimage s)"
      using root s(2) t(2) fit
      by (simp add: state_root_digest_def encode_canonical_state_body_def root_preimage_def)
    with root_preimage_inject [OF t s(1) fit] show ?thesis by blast
  qed
  with t(1) root show ?thesis by blast
qed

theorem accepted_snapshot_root_witness:
  "\<exists>bytes. decode_snapshot (\<lambda>_. 0) bytes = Inr demo_leased \<and>
     state_root_digest (\<lambda>_. 0) demo_leased = Some (from_be (take 32 (drop 8 bytes)))"
proof -
  obtain bytes where bytes: "encode_snapshot (\<lambda>_. 0) demo_leased = Some bytes" using demo_snapshot by blast
  have "decode_snapshot (\<lambda>_. 0) bytes = Inr demo_leased"
    by (rule decode_snapshot_encode_snapshot [OF typed_sm.inv_run [OF demo_typed_run(1) sm_typed_new] bytes])
  with accepted_snapshot_root [OF this] show ?thesis by blast
qed

end
