(* ===== verification/RaftCore.thy ===== *)
theory RaftCore
  imports Commands BTree
begin

text \<open>
  The deterministic consensus core of \<open>nlos-consensus/src/core.rs\<close>: the voter roster, the
  timing configuration, log entries and their hashes, messages, inputs, effects, and the pure
  transition \<open>step\<close> with every handler. A handler takes the core and returns the new core with
  the effects in the order the source pushes them.

  Terms, log indices, rounds and offsets are \<open>u64\<close> values kept as naturals; where the source
  saturates, the model uses \<open>sat_add64\<close>. \<open>BTreeSet<ControlDomainId>\<close> is a set with its
  cardinality, \<open>BTreeMap\<close> a sorted association list.
\<close>

section \<open>Roster and timing\<close>

record VoterReplica =
  cell_identity :: CellIdentity
  control_domain_id :: ControlDomainId

datatype ConsensusConfigError =
    EmptyVoterSet
  | DuplicateCellIdentity CellIdentity
  | NonIndependentControlDomain ControlDomainId CellIdentity CellIdentity
  | UnsupportedTwoNodeQuorum
  | LocalCellNotInRoster CellIdentity
  | InvalidTimingBounds nat nat nat

type_synonym ValidatedVoterRoster = "VoterReplica list"

fun roster_scan ::
  "nat \<Rightarrow> CellIdentity set \<Rightarrow> (ControlDomainId, CellIdentity) btree \<Rightarrow> VoterReplica list \<Rightarrow>
   (ConsensusConfigError, unit) result" where
  "roster_scan n seen_cells seen_domains [] = Inr ()"
| "roster_scan n seen_cells seen_domains (voter # voters) =
     (if cell_identity voter \<in> seen_cells then Inl (DuplicateCellIdentity (cell_identity voter))
      else case (if n > 1 then bt_get seen_domains (control_domain_id voter) else None) of
        Some first_cell \<Rightarrow> Inl (NonIndependentControlDomain (control_domain_id voter) first_cell
          (cell_identity voter))
      | None \<Rightarrow> roster_scan n (insert (cell_identity voter) seen_cells)
          (bt_insert (control_domain_id voter) (cell_identity voter) seen_domains) voters)"

definition roster_new :: "VoterReplica list \<Rightarrow> (ConsensusConfigError, ValidatedVoterRoster) result" where
  "roster_new voters =
     (if voters = [] then Inl EmptyVoterSet
      else result_bind (roster_scan (length voters) {} [] voters) (\<lambda>_.
        if length voters = 2 then Inl UnsupportedTwoNodeQuorum
        else Inr (sort_key cell_identity voters)))"

definition quorum_size :: "ValidatedVoterRoster \<Rightarrow> nat" where
  "quorum_size r = length r div 2 + 1"

definition roster_contains :: "ValidatedVoterRoster \<Rightarrow> CellIdentity \<Rightarrow> bool" where
  "roster_contains r cell = list_ex (\<lambda>m. cell_identity m = cell) r"

definition domain_of :: "ValidatedVoterRoster \<Rightarrow> CellIdentity \<Rightarrow> ControlDomainId option" where
  "domain_of r cell = map_option control_domain_id (find (\<lambda>m. cell_identity m = cell) r)"

record ConsensusTimingConfig =
  heartbeat_interval_ticks :: nat
  leader_lease_ticks :: nat
  election_timeout_ticks :: nat
  max_snapshot_chunk_bytes :: nat

definition timing_validate :: "ConsensusTimingConfig \<Rightarrow> (ConsensusConfigError, ConsensusTimingConfig) result" where
  "timing_validate t =
     (if heartbeat_interval_ticks t = 0 \<or> leader_lease_ticks t \<le> heartbeat_interval_ticks t \<or>
         election_timeout_ticks t \<le> leader_lease_ticks t
      then Inl (InvalidTimingBounds (heartbeat_interval_ticks t) (leader_lease_ticks t)
        (election_timeout_ticks t))
      else Inr t)"

definition timing_default :: ConsensusTimingConfig where
  "timing_default = \<lparr>heartbeat_interval_ticks = 2, leader_lease_ticks = 5,
     election_timeout_ticks = 10, max_snapshot_chunk_bytes = 16 * 1024\<rparr>"

section \<open>Log entries and hashes\<close>

type_synonym ConsensusTerm = nat
type_synonym LogIndex = nat

record RaftLogEntry =
  re_index :: LogIndex
  re_term :: ConsensusTerm
  re_proposal :: ControlPlaneProposal
  re_entry_sha256 :: bytes32

definition u64_be :: "nat \<Rightarrow> byte list" where
  "u64_be n = to_be (of_nat n :: u64)"

definition compute_log_entry_sha256 ::
  "sha256_fn \<Rightarrow> LogIndex \<Rightarrow> ConsensusTerm \<Rightarrow> byte \<Rightarrow> IdempotencyKey \<Rightarrow> byte list \<Rightarrow> bytes32" where
  "compute_log_entry_sha256 sha log_index trm command_kind key payload =
     sha (ascii ''llmos/consensus/log-entry/v1'' @ u64_be log_index @ u64_be trm @ [command_kind] @
       to_be key @ u64_be (length payload) @ payload)"

definition proposal_entry_sha256 :: "sha256_fn \<Rightarrow> LogIndex \<Rightarrow> ConsensusTerm \<Rightarrow> ControlPlaneProposal \<Rightarrow> bytes32" where
  "proposal_entry_sha256 sha idx trm p =
     compute_log_entry_sha256 sha idx trm (family_as_u8 (family_code (command p)))
       (idempotency_key p) (encode_command_body p)"

definition log_entry_new :: "sha256_fn \<Rightarrow> LogIndex \<Rightarrow> ConsensusTerm \<Rightarrow> ControlPlaneProposal \<Rightarrow> RaftLogEntry" where
  "log_entry_new sha idx trm p =
     \<lparr>re_index = idx, re_term = trm, re_proposal = p,
      re_entry_sha256 = proposal_entry_sha256 sha idx trm p\<rparr>"

definition verify_integrity :: "sha256_fn \<Rightarrow> RaftLogEntry \<Rightarrow> bool" where
  "verify_integrity sha e =
     (re_entry_sha256 e = proposal_entry_sha256 sha (re_index e) (re_term e) (re_proposal e))"

definition compute_snapshot_transfer_sha256 ::
  "sha256_fn \<Rightarrow> LogIndex \<Rightarrow> ConsensusTerm \<Rightarrow> bytes32 \<Rightarrow> byte list \<Rightarrow> bytes32" where
  "compute_snapshot_transfer_sha256 sha included_index included_term root bytes =
     sha (ascii ''llmos/consensus/install-snapshot/v1'' @ u64_be included_index @
       u64_be included_term @ to_be root @ u64_be (length bytes) @ bytes)"

record SnapshotMetadata =
  included_index :: LogIndex
  included_term :: ConsensusTerm
  meta_state_root :: bytes32

section \<open>Messages, inputs and effects\<close>

datatype ConsensusRole = Follower | PreCandidate | Candidate | Leader

record TermBoundLeaderLease =
  ll_term :: ConsensusTerm
  ll_remaining_ticks :: nat
  ll_last_confirmed_round :: nat

definition is_active_in_term :: "TermBoundLeaderLease \<Rightarrow> ConsensusTerm \<Rightarrow> bool" where
  "is_active_in_term l expected_term = (ll_term l = expected_term \<and> ll_remaining_ticks l > 0)"

datatype RaftMessage =
    RequestPreVote ConsensusTerm CellIdentity LogIndex ConsensusTerm
  \<comment> \<open>prospective term, candidate, last log index, last log term\<close>
  | RequestPreVoteResponse ConsensusTerm ConsensusTerm CellIdentity bool
  \<comment> \<open>term, prospective term, voter, granted\<close>
  | RequestVote ConsensusTerm CellIdentity LogIndex ConsensusTerm
  \<comment> \<open>term, candidate, last log index, last log term\<close>
  | RequestVoteResponse ConsensusTerm CellIdentity bool \<comment> \<open>term, voter, granted\<close>
  | AppendEntries ConsensusTerm CellIdentity LogIndex ConsensusTerm "RaftLogEntry list" LogIndex nat
  \<comment> \<open>term, leader, previous index, previous term, entries, leader commit, round\<close>
  | AppendEntriesResponse ConsensusTerm CellIdentity bool LogIndex "ConsensusTerm option" LogIndex nat
  \<comment> \<open>term, follower, success, match index, conflict term, conflict index, round\<close>
  | InstallSnapshotChunk ConsensusTerm CellIdentity LogIndex ConsensusTerm bytes32 bytes32 nat nat
      "byte list" bool
  \<comment> \<open>term, leader, included index, included term, state root, transfer hash, total bytes, offset,
      chunk, done\<close>
  | InstallSnapshotResponse ConsensusTerm CellIdentity LogIndex nat bool
  \<comment> \<open>term, follower, included index, next offset, installed\<close>

datatype ProposalRejectReason =
    StaleLeaderTerm ConsensusTerm ConsensusTerm "CellIdentity option"
  | NotLeader "CellIdentity option" ConsensusTerm

datatype ConsensusInput =
    Tick
  | Propose ControlPlaneProposal "ConsensusTerm option"
  | RequestLinearizableRead nat "ConsensusTerm option"
  | ReceiveMessage CellIdentity RaftMessage

datatype ConsensusEffect =
    PersistHardState ConsensusTerm "CellIdentity option"
  | InstallSnapshot SnapshotMetadata "byte list"
  | TruncateLogSuffixFrom LogIndex
  | AppendLogEntries "RaftLogEntry list"
  | AdvanceCommitIndex LogIndex ConsensusTerm "RaftLogEntry list"
  | LeaderSteppedDown ConsensusTerm ConsensusTerm
  | LinearizableReadConfirmed nat ConsensusTerm LogIndex
  | ProposalRejected "nat option" ProposalRejectReason
  | SendMessage CellIdentity RaftMessage

section \<open>The core state\<close>

record PendingQuorumRound =
  qr_term :: ConsensusTerm
  qr_commit_index_at_issue :: LogIndex
  qr_acked_domains :: "ControlDomainId set"
  qr_waiting_read_ids :: "nat list"

record InboundSnapshotStaging =
  is_term :: ConsensusTerm
  is_leader_id :: CellIdentity
  is_last_included_index :: LogIndex
  is_last_included_term :: ConsensusTerm
  is_state_root_digest :: bytes32
  is_snapshot_sha256 :: bytes32
  is_total_bytes :: nat
  is_buffer :: "byte list"

record RehydratedCoreState =
  rh_current_term :: ConsensusTerm
  rh_voted_for :: "CellIdentity option"
  rh_commit_index :: LogIndex
  rh_snapshot :: "(SnapshotMetadata \<times> byte list) option"
  rh_log_tail :: "RaftLogEntry list"

record ConsensusCore =
  local_id :: CellIdentity
  local_domain :: ControlDomainId
  roster :: ValidatedVoterRoster
  timing :: ConsensusTimingConfig
  role :: ConsensusRole
  current_term :: ConsensusTerm
  voted_for :: "CellIdentity option"
  known_leader :: "CellIdentity option"
  former_leader_term :: "ConsensusTerm option"
  snapshot_meta :: "SnapshotMetadata option"
  snapshot_bytes :: "byte list option"
  log_tail :: "RaftLogEntry list"
  commit_index :: LogIndex
  ticks_since_leader_contact :: nat
  ticks_since_heartbeat_sent :: nat
  pre_vote_prospective_term :: ConsensusTerm
  pre_votes_granted_domains :: "ControlDomainId set"
  votes_granted_domains :: "ControlDomainId set"
  next_index :: "(CellIdentity, LogIndex) btree"
  match_index :: "(CellIdentity, LogIndex) btree"
  snapshot_send_offset :: "(CellIdentity, nat) btree"
  inbound_snapshot :: "InboundSnapshotStaging option"
  next_quorum_round_id :: nat
  quorum_rounds :: "(nat, PendingQuorumRound) btree"
  leader_lease :: TermBoundLeaderLease

type_synonym core_result = "ConsensusCore \<times> ConsensusEffect list"

definition core_new ::
  "CellIdentity \<Rightarrow> ValidatedVoterRoster \<Rightarrow> ConsensusTimingConfig \<Rightarrow> (ConsensusConfigError, ConsensusCore) result" where
  "core_new local r timing0 =
     result_bind (timing_validate timing0) (\<lambda>tm.
       case domain_of r local of
         None \<Rightarrow> Inl (LocalCellNotInRoster local)
       | Some domain \<Rightarrow>
           if length r = 1
           then Inr \<lparr>local_id = local, local_domain = domain, roster = r, timing = tm,
             role = Leader, current_term = 1, voted_for = Some local, known_leader = Some local,
             former_leader_term = None, snapshot_meta = None, snapshot_bytes = None,
             log_tail = [], commit_index = 0, ticks_since_leader_contact = 0,
             ticks_since_heartbeat_sent = 0, pre_vote_prospective_term = 0,
             pre_votes_granted_domains = {}, votes_granted_domains = {domain},
             next_index = [(local, 1)], match_index = [(local, 0)], snapshot_send_offset = [],
             inbound_snapshot = None, next_quorum_round_id = 1, quorum_rounds = [],
             leader_lease = \<lparr>ll_term = 1, ll_remaining_ticks = leader_lease_ticks tm,
               ll_last_confirmed_round = 0\<rparr>\<rparr>
           else Inr \<lparr>local_id = local, local_domain = domain, roster = r, timing = tm,
             role = Follower, current_term = 0, voted_for = None, known_leader = None,
             former_leader_term = None, snapshot_meta = None, snapshot_bytes = None,
             log_tail = [], commit_index = 0, ticks_since_leader_contact = 0,
             ticks_since_heartbeat_sent = 0, pre_vote_prospective_term = 0,
             pre_votes_granted_domains = {}, votes_granted_domains = {},
             next_index = [], match_index = [], snapshot_send_offset = [],
             inbound_snapshot = None, next_quorum_round_id = 1, quorum_rounds = [],
             leader_lease = \<lparr>ll_term = 0, ll_remaining_ticks = 0,
               ll_last_confirmed_round = 0\<rparr>\<rparr>)"

definition snapshot_index :: "ConsensusCore \<Rightarrow> LogIndex" where
  "snapshot_index c = (case snapshot_meta c of Some m \<Rightarrow> included_index m | None \<Rightarrow> 0)"

definition first_uncompacted_index :: "ConsensusCore \<Rightarrow> LogIndex" where
  "first_uncompacted_index c =
     (case snapshot_meta c of None \<Rightarrow> 1 | Some m \<Rightarrow> sat_add64 (included_index m) 1)"

definition last_log_index :: "ConsensusCore \<Rightarrow> LogIndex" where
  "last_log_index c =
     (if log_tail c = [] then (case snapshot_meta c of None \<Rightarrow> 0 | Some m \<Rightarrow> included_index m)
      else re_index (last (log_tail c)))"

definition last_log_term :: "ConsensusCore \<Rightarrow> ConsensusTerm" where
  "last_log_term c =
     (if log_tail c = [] then (case snapshot_meta c of None \<Rightarrow> 0 | Some m \<Rightarrow> included_term m)
      else re_term (last (log_tail c)))"

definition log_get :: "RaftLogEntry list \<Rightarrow> nat \<Rightarrow> RaftLogEntry option" where
  "log_get es i = (if i < length es then Some (es ! i) else None)"

definition term_at_tail :: "ConsensusCore \<Rightarrow> LogIndex \<Rightarrow> ConsensusTerm option" where
  "term_at_tail c idx =
     (let base = first_uncompacted_index c
      in if idx < base then None else map_option re_term (log_get (log_tail c) (idx - base)))"

definition term_at :: "ConsensusCore \<Rightarrow> LogIndex \<Rightarrow> ConsensusTerm option" where
  "term_at c idx =
     (if idx = 0 then Some 0
      else case snapshot_meta c of
        Some m \<Rightarrow> if idx = included_index m then Some (included_term m)
          else if idx < included_index m then None else term_at_tail c idx
      | None \<Rightarrow> term_at_tail c idx)"

definition rehydrate ::
  "CellIdentity \<Rightarrow> ValidatedVoterRoster \<Rightarrow> ConsensusTimingConfig \<Rightarrow> RehydratedCoreState \<Rightarrow>
   (ConsensusConfigError, ConsensusCore) result" where
  "rehydrate local r tm st =
     result_bind (core_new local r tm) (\<lambda>core0.
       let snap_meta = map_option fst (rh_snapshot st);
           snap_bytes = map_option snd (rh_snapshot st);
           min_commit = (case snap_meta of None \<Rightarrow> 0 | Some m \<Rightarrow> included_index m);
           core1 = core0\<lparr>snapshot_meta := snap_meta, snapshot_bytes := snap_bytes,
             log_tail := rh_log_tail st, commit_index := max (rh_commit_index st) min_commit\<rparr>
       in if length r = 1
          then let last_idx = last_log_index core1
               in Inr (core1\<lparr>current_term := max (rh_current_term st) 1, voted_for := Some local,
                 role := Leader, known_leader := Some local, commit_index := last_idx,
                 match_index := bt_insert local last_idx (match_index core1),
                 next_index := bt_insert local (sat_add64 last_idx 1) (next_index core1)\<rparr>)
          else Inr (core1\<lparr>current_term := rh_current_term st, voted_for := rh_voted_for st,
                 role := Follower, known_leader := None\<rparr>))"

definition record_local_snapshot ::
  "SnapshotMetadata \<Rightarrow> byte list \<Rightarrow> LogIndex \<Rightarrow> ConsensusCore \<Rightarrow> ConsensusCore \<times> bool" where
  "record_local_snapshot meta bytes compact_up_to c =
     (if included_index meta = 0 \<or> included_index meta > commit_index c then (c, False)
      else if (case snapshot_meta c of Some existing \<Rightarrow> included_index meta < included_index existing
          | None \<Rightarrow> False)
      then (c, False)
      else
        let target_compact = min compact_up_to (included_index meta);
            c1 = c\<lparr>log_tail := filter (\<lambda>e. re_index e > target_compact) (log_tail c)\<rparr>
        in (if target_compact = included_index meta
            then c1\<lparr>snapshot_meta := Some meta, snapshot_bytes := Some bytes,
              snapshot_send_offset := []\<rparr>
            else c1, True))"

section \<open>Shared helpers of the handlers\<close>

definition peers :: "ConsensusCore \<Rightarrow> CellIdentity list" where
  "peers c = filter (\<lambda>i. i \<noteq> local_id c) (map cell_identity (roster c))"

definition collect_range :: "ConsensusCore \<Rightarrow> LogIndex \<Rightarrow> LogIndex \<Rightarrow> RaftLogEntry list" where
  "collect_range c start_incl end_incl =
     (if start_incl > end_incl then []
      else filter (\<lambda>e. re_index e \<ge> start_incl \<and> re_index e \<le> end_incl) (log_tail c))"

definition bt_get_or :: "'v \<Rightarrow> ('k, 'v) btree \<Rightarrow> 'k \<Rightarrow> 'v" where
  "bt_get_or d m k = (case bt_get m k of Some v \<Rightarrow> v | None \<Rightarrow> d)"

definition allocate_quorum_round :: "nat option \<Rightarrow> ConsensusCore \<Rightarrow> ConsensusCore \<times> nat" where
  "allocate_quorum_round read_id c =
     (let round_id = next_quorum_round_id c;
          waiting = (case read_id of Some rid \<Rightarrow> [rid] | None \<Rightarrow> []);
          rounds = (if length (quorum_rounds c) \<ge> 256
            then (case find (\<lambda>(_, r). qr_waiting_read_ids r = []) (quorum_rounds c) of
                Some (oldest_key, _) \<Rightarrow> bt_remove oldest_key (quorum_rounds c)
              | None \<Rightarrow> quorum_rounds c)
            else quorum_rounds c)
      in (c\<lparr>next_quorum_round_id := sat_add64 round_id 1,
            quorum_rounds := bt_insert round_id
              \<lparr>qr_term = current_term c, qr_commit_index_at_issue = commit_index c,
               qr_acked_domains = {local_domain c}, qr_waiting_read_ids = waiting\<rparr> rounds\<rparr>,
          round_id))"

definition build_replication_for_peer :: "sha256_fn \<Rightarrow> ConsensusCore \<Rightarrow> CellIdentity \<Rightarrow> nat \<Rightarrow> ConsensusEffect" where
  "build_replication_for_peer sha c peer round_id =
     (let next_idx = max (bt_get_or (sat_add64 (last_log_index c) 1) (next_index c) peer) 1;
          append = (let prev_log_index = next_idx - 1;
              prev_log_term = (case term_at c prev_log_index of Some t \<Rightarrow> t | None \<Rightarrow> 0);
              entries = collect_range c next_idx (last_log_index c)
            in SendMessage peer (AppendEntries (current_term c) (local_id c) prev_log_index
                 prev_log_term entries (commit_index c) round_id))
      in case (snapshot_meta c, snapshot_bytes c) of
           (Some meta, Some snap_bytes) \<Rightarrow>
             if next_idx \<le> included_index meta
             then let offset = min (bt_get_or 0 (snapshot_send_offset c) peer) (length snap_bytes);
                      chunk_cap = max (max_snapshot_chunk_bytes (timing c)) 64;
                      end_off = min (offset + chunk_cap) (length snap_bytes)
                  in SendMessage peer (InstallSnapshotChunk (current_term c) (local_id c)
                       (included_index meta) (included_term meta) (meta_state_root meta)
                       (compute_snapshot_transfer_sha256 sha (included_index meta)
                         (included_term meta) (meta_state_root meta) snap_bytes)
                       (length snap_bytes) offset (take (end_off - offset) (drop offset snap_bytes))
                       (end_off \<ge> length snap_bytes))
             else append
         | _ \<Rightarrow> append)"

definition broadcast_replication_or_heartbeat :: "sha256_fn \<Rightarrow> ConsensusCore \<Rightarrow> nat \<Rightarrow> ConsensusEffect list" where
  "broadcast_replication_or_heartbeat sha c round_id =
     map (\<lambda>peer. build_replication_for_peer sha c peer round_id) (peers c)"

definition allocate_and_broadcast :: "sha256_fn \<Rightarrow> nat option \<Rightarrow> ConsensusCore \<Rightarrow> core_result" where
  "allocate_and_broadcast sha read_id c =
     (let (c1, round_id) = allocate_quorum_round read_id c
      in (c1, broadcast_replication_or_heartbeat sha c1 round_id))"

definition allocate_and_replicate :: "sha256_fn \<Rightarrow> CellIdentity \<Rightarrow> ConsensusCore \<Rightarrow> core_result" where
  "allocate_and_replicate sha peer c =
     (let (c1, round_id) = allocate_quorum_round None c
      in (c1, [build_replication_for_peer sha c1 peer round_id]))"

section \<open>Timers and elections\<close>

definition start_pre_vote :: "ConsensusCore \<Rightarrow> core_result" where
  "start_pre_vote c =
     (let prospective_term = sat_add64 (current_term c) 1;
          c1 = c\<lparr>role := PreCandidate, known_leader := None, ticks_since_leader_contact := 0,
            pre_vote_prospective_term := prospective_term,
            pre_votes_granted_domains := {local_domain c}\<rparr>
      in (c1, map (\<lambda>peer. SendMessage peer (RequestPreVote prospective_term (local_id c)
                 (last_log_index c1) (last_log_term c1))) (peers c1)))"

definition start_real_election :: "ConsensusCore \<Rightarrow> core_result" where
  "start_real_election c =
     (let t = sat_add64 (current_term c) 1;
          c1 = c\<lparr>current_term := t, role := Candidate, voted_for := Some (local_id c),
            known_leader := None, ticks_since_leader_contact := 0,
            pre_votes_granted_domains := {}, votes_granted_domains := {local_domain c},
            quorum_rounds := [],
            leader_lease := \<lparr>ll_term = t, ll_remaining_ticks = 0, ll_last_confirmed_round = 0\<rparr>\<rparr>
      in (c1, PersistHardState t (Some (local_id c)) #
            map (\<lambda>peer. SendMessage peer (RequestVote t (local_id c) (last_log_index c1)
              (last_log_term c1))) (peers c1)))"

definition u32_max :: nat where
  "u32_max = 2 ^ 32 - 1"

definition sat_add32 :: "nat \<Rightarrow> nat \<Rightarrow> nat" where
  "sat_add32 a b = min (a + b) u32_max"

definition on_tick :: "sha256_fn \<Rightarrow> ConsensusCore \<Rightarrow> core_result" where
  "on_tick sha c0 =
     (if length (roster c0) = 1 then (c0, [])
      else
        let lease = leader_lease c0;
            c = (if ll_remaining_ticks lease > 0
              then c0\<lparr>leader_lease := lease\<lparr>ll_remaining_ticks := ll_remaining_ticks lease - 1\<rparr>\<rparr>
              else c0)
        in if role c = Leader
           then let c1 = c\<lparr>ticks_since_heartbeat_sent := sat_add32 (ticks_since_heartbeat_sent c) 1\<rparr>
                in if ticks_since_heartbeat_sent c1 \<ge> heartbeat_interval_ticks (timing c1)
                   then allocate_and_broadcast sha None (c1\<lparr>ticks_since_heartbeat_sent := 0\<rparr>)
                   else (c1, [])
           else let c1 = c\<lparr>ticks_since_leader_contact := sat_add32 (ticks_since_leader_contact c) 1\<rparr>
                in if ticks_since_leader_contact c1 \<ge> election_timeout_ticks (timing c1)
                   then start_pre_vote c1
                   else (c1, []))"

definition step_down_to_higher_term :: "ConsensusTerm \<Rightarrow> ConsensusCore \<Rightarrow> core_result" where
  "step_down_to_higher_term higher_term c =
     (let was_leader = (role c = Leader);
          old_term = current_term c;
          aborted_reads = concat (map (\<lambda>(_, r). qr_waiting_read_ids r) (quorum_rounds c));
          c1 = c\<lparr>former_leader_term := (if was_leader then Some old_term else former_leader_term c),
            quorum_rounds := [], current_term := higher_term, role := Follower, voted_for := None,
            known_leader := None, pre_votes_granted_domains := {}, votes_granted_domains := {},
            snapshot_send_offset := [],
            leader_lease := \<lparr>ll_term = higher_term, ll_remaining_ticks = 0,
              ll_last_confirmed_round = 0\<rparr>\<rparr>
      in (c1, [PersistHardState higher_term None] @
            (if was_leader then [LeaderSteppedDown old_term higher_term] else []) @
            map (\<lambda>rid. ProposalRejected (Some rid) (StaleLeaderTerm old_term higher_term None))
              aborted_reads))"

definition log_up_to_date :: "ConsensusCore \<Rightarrow> LogIndex \<Rightarrow> ConsensusTerm \<Rightarrow> bool" where
  "log_up_to_date c cand_last_index cand_last_term =
     ((cand_last_term, cand_last_index) \<ge> (last_log_term c, last_log_index c))"

definition on_request_pre_vote ::
  "ConsensusCore \<Rightarrow> ConsensusTerm \<Rightarrow> CellIdentity \<Rightarrow> LogIndex \<Rightarrow> ConsensusTerm \<Rightarrow> core_result" where
  "on_request_pre_vote c prospective_term candidate cand_last_index cand_last_term =
     (let heard_live_leader_recently = (role c = Leader \<or>
            known_leader c \<noteq> None \<and> ticks_since_leader_contact c < leader_lease_ticks (timing c));
          granted = (prospective_term > current_term c \<and> \<not> heard_live_leader_recently \<and>
            log_up_to_date c cand_last_index cand_last_term)
      in (c, [SendMessage candidate (RequestPreVoteResponse (current_term c) prospective_term
            (local_id c) granted)]))"

definition on_request_pre_vote_response ::
  "ConsensusCore \<Rightarrow> ConsensusTerm \<Rightarrow> ConsensusTerm \<Rightarrow> CellIdentity \<Rightarrow> bool \<Rightarrow> core_result" where
  "on_request_pre_vote_response c responder_term prospective_term voter granted =
     (if responder_term > current_term c then step_down_to_higher_term responder_term c
      else if role c \<noteq> PreCandidate \<or> prospective_term \<noteq> pre_vote_prospective_term c \<or>
        prospective_term \<noteq> sat_add64 (current_term c) 1
      then (c, [])
      else
        let c1 = (case (granted, domain_of (roster c) voter) of
              (True, Some domain) \<Rightarrow>
                c\<lparr>pre_votes_granted_domains := insert domain (pre_votes_granted_domains c)\<rparr>
            | _ \<Rightarrow> c)
        in if card (pre_votes_granted_domains c1) \<ge> quorum_size (roster c1)
           then start_real_election c1 else (c1, []))"

definition on_request_vote ::
  "ConsensusCore \<Rightarrow> ConsensusTerm \<Rightarrow> CellIdentity \<Rightarrow> LogIndex \<Rightarrow> ConsensusTerm \<Rightarrow> core_result" where
  "on_request_vote c0 t candidate cand_last_index cand_last_term =
     (let (c, effects) = (if t > current_term c0 then step_down_to_higher_term t c0 else (c0, []))
      in if t < current_term c
         then (c, effects @ [SendMessage candidate
               (RequestVoteResponse (current_term c) (local_id c) False)])
         else
           let vote_available = (voted_for c = None \<or> voted_for c = Some candidate);
               granted = (vote_available \<and> log_up_to_date c cand_last_index cand_last_term);
               (c1, effects1) = (if granted
                 then (c\<lparr>voted_for := Some candidate, ticks_since_leader_contact := 0\<rparr>,
                       effects @ [PersistHardState (current_term c) (Some candidate)])
                 else (c, effects))
           in (c1, effects1 @ [SendMessage candidate
                 (RequestVoteResponse (current_term c1) (local_id c1) granted)]))"

definition become_leader :: "sha256_fn \<Rightarrow> ConsensusCore \<Rightarrow> core_result" where
  "become_leader sha c =
     (let last_idx = last_log_index c;
          next_idx = sat_add64 last_idx 1;
          c1 = c\<lparr>role := Leader, known_leader := Some (local_id c), former_leader_term := None,
            ticks_since_heartbeat_sent := 0, snapshot_send_offset := [],
            next_index := fold (\<lambda>v m. bt_insert (cell_identity v) next_idx m) (roster c) [],
            match_index := fold (\<lambda>v m. bt_insert (cell_identity v)
              (if cell_identity v = local_id c then last_idx else 0) m) (roster c) []\<rparr>
      in allocate_and_broadcast sha None c1)"

definition on_request_vote_response ::
  "sha256_fn \<Rightarrow> ConsensusCore \<Rightarrow> ConsensusTerm \<Rightarrow> CellIdentity \<Rightarrow> bool \<Rightarrow> core_result" where
  "on_request_vote_response sha c t voter granted =
     (if t > current_term c then step_down_to_higher_term t c
      else if role c \<noteq> Candidate \<or> t \<noteq> current_term c then (c, [])
      else
        let c1 = (case (granted, domain_of (roster c) voter) of
              (True, Some domain) \<Rightarrow>
                c\<lparr>votes_granted_domains := insert domain (votes_granted_domains c)\<rparr>
            | _ \<Rightarrow> c)
        in if card (votes_granted_domains c1) \<ge> quorum_size (roster c1)
           then become_leader sha c1 else (c1, []))"

section \<open>Client requests\<close>

definition check_leader_gate :: "ConsensusCore \<Rightarrow> ConsensusTerm option \<Rightarrow> (ProposalRejectReason, unit) result" where
  "check_leader_gate c expected =
     (case expected of
        Some expected_term \<Rightarrow>
          if expected_term < current_term c
          then Inl (StaleLeaderTerm expected_term (current_term c) (known_leader c))
          else if role c \<noteq> Leader \<or> expected_term \<noteq> current_term c
          then Inl (NotLeader (known_leader c) (current_term c))
          else Inr ()
      | None \<Rightarrow>
          if role c \<noteq> Leader
          then (case former_leader_term c of
              Some old_term \<Rightarrow>
                if old_term < current_term c \<and> known_leader c \<noteq> Some (local_id c)
                then Inl (StaleLeaderTerm old_term (current_term c) (known_leader c))
                else Inl (NotLeader (known_leader c) (current_term c))
            | None \<Rightarrow> Inl (NotLeader (known_leader c) (current_term c)))
          else Inr ())"

definition on_propose ::
  "sha256_fn \<Rightarrow> ConsensusCore \<Rightarrow> ControlPlaneProposal \<Rightarrow> ConsensusTerm option \<Rightarrow> core_result" where
  "on_propose sha c p expected =
     (case check_leader_gate c expected of
        Inl reason \<Rightarrow> (c, [ProposalRejected None reason])
      | Inr _ \<Rightarrow>
          let new_index = sat_add64 (last_log_index c) 1;
              entry = log_entry_new sha new_index (current_term c) p;
              c1 = c\<lparr>log_tail := log_tail c @ [entry],
                match_index := bt_insert (local_id c) new_index (match_index c),
                next_index := bt_insert (local_id c) (sat_add64 new_index 1) (next_index c)\<rparr>
          in if length (roster c) = 1
             then (c1\<lparr>commit_index := new_index\<rparr>,
                   [AppendLogEntries [entry],
                    AdvanceCommitIndex new_index (current_term c1) [entry]])
             else let (c2, effects) =
                     allocate_and_broadcast sha None (c1\<lparr>ticks_since_heartbeat_sent := 0\<rparr>)
                  in (c2, AppendLogEntries [entry] # effects))"

definition on_request_linearizable_read ::
  "sha256_fn \<Rightarrow> ConsensusCore \<Rightarrow> nat \<Rightarrow> ConsensusTerm option \<Rightarrow> core_result" where
  "on_request_linearizable_read sha c read_id expected =
     (case check_leader_gate c expected of
        Inl reason \<Rightarrow> (c, [ProposalRejected (Some read_id) reason])
      | Inr _ \<Rightarrow>
          if length (roster c) = 1
          then (c, [LinearizableReadConfirmed read_id (current_term c) (commit_index c)])
          else let (c1, round_id) = allocate_quorum_round (Some read_id) c;
                   c2 = c1\<lparr>ticks_since_heartbeat_sent := 0\<rparr>
               in (c2, broadcast_replication_or_heartbeat sha c2 round_id))"

section \<open>Replication, follower side\<close>

definition append_response ::
  "ConsensusCore \<Rightarrow> CellIdentity \<Rightarrow> bool \<Rightarrow> LogIndex \<Rightarrow> ConsensusTerm option \<Rightarrow> LogIndex \<Rightarrow> nat \<Rightarrow> ConsensusEffect" where
  "append_response c leader success mi conflict_term conflict_index round_id =
     SendMessage leader (AppendEntriesResponse (current_term c) (local_id c) success mi conflict_term
       conflict_index round_id)"

text \<open>The entry loop of \<open>reconcile_and_commit_entries\<close>: \<open>Inl\<close> is the early return on an entry
  that fails its integrity check, with the core and effects as they are at that point.\<close>

fun reconcile_entries ::
  "sha256_fn \<Rightarrow> ConsensusCore \<Rightarrow> RaftLogEntry list \<Rightarrow> ConsensusEffect list \<Rightarrow> RaftLogEntry list \<Rightarrow>
   core_result + (ConsensusCore \<times> RaftLogEntry list \<times> ConsensusEffect list)" where
  "reconcile_entries sha c newly effects [] = Inr (c, newly, effects)"
| "reconcile_entries sha c newly effects (entry # entries) =
     (if \<not> verify_integrity sha entry then Inl (c, effects)
      else
        let base = first_uncompacted_index c
        in if re_index entry < base then reconcile_entries sha c newly effects entries
           else
             let pos = re_index entry - base
             in case log_get (log_tail c) pos of
                  Some existing \<Rightarrow>
                    if re_term existing \<noteq> re_term entry \<and> re_index entry > commit_index c
                    then reconcile_entries sha
                      (c\<lparr>log_tail := take pos (log_tail c) @ [entry]\<rparr>)
                      (newly @ [entry]) (effects @ [TruncateLogSuffixFrom (re_index entry)]) entries
                    else reconcile_entries sha c newly effects entries
                | None \<Rightarrow>
                    if pos = length (log_tail c)
                    then reconcile_entries sha (c\<lparr>log_tail := log_tail c @ [entry]\<rparr>)
                      (newly @ [entry]) effects entries
                    else reconcile_entries sha c newly effects entries)"

definition follower_commit :: "ConsensusCore \<Rightarrow> LogIndex \<Rightarrow> core_result" where
  "follower_commit c leader_commit =
     (if leader_commit > commit_index c
      then let new_commit = min leader_commit (last_log_index c)
           in if new_commit > commit_index c
              then (c\<lparr>commit_index := new_commit\<rparr>,
                    [AdvanceCommitIndex new_commit (current_term c)
                      (collect_range c (commit_index c + 1) new_commit)])
              else (c, [])
      else (c, []))"

definition reconcile_and_commit_entries ::
  "sha256_fn \<Rightarrow> ConsensusCore \<Rightarrow> CellIdentity \<Rightarrow> RaftLogEntry list \<Rightarrow> LogIndex \<Rightarrow> nat \<Rightarrow>
   ConsensusEffect list \<Rightarrow> core_result" where
  "reconcile_and_commit_entries sha c leader entries leader_commit round_id effects0 =
     (case reconcile_entries sha c [] effects0 entries of
        Inl (c1, effects) \<Rightarrow>
          (c1, effects @ [append_response c1 leader False 0 None (sat_add64 (commit_index c1) 1) round_id])
      | Inr (c1, newly, effects) \<Rightarrow>
          let effects1 = effects @ (if newly = [] then [] else [AppendLogEntries newly]);
              (c2, advance) = follower_commit c1 leader_commit
          in (c2, effects1 @ advance @ [append_response c2 leader True (last_log_index c2) None 0 round_id]))"

definition conflict_floor :: "ConsensusCore \<Rightarrow> LogIndex" where
  "conflict_floor c = max (sat_add64 (commit_index c) 1) (first_uncompacted_index c)"

definition first_of_conflict_term :: "ConsensusCore \<Rightarrow> ConsensusTerm \<Rightarrow> LogIndex \<Rightarrow> LogIndex" where
  "first_of_conflict_term c local_prev_term prev_log_index =
     (case find (\<lambda>e. re_index e \<ge> conflict_floor c \<and> re_term e = local_prev_term) (log_tail c) of
        Some e \<Rightarrow> re_index e | None \<Rightarrow> max prev_log_index (conflict_floor c))"

definition on_append_entries ::
  "sha256_fn \<Rightarrow> ConsensusCore \<Rightarrow> ConsensusTerm \<Rightarrow> CellIdentity \<Rightarrow> LogIndex \<Rightarrow> ConsensusTerm \<Rightarrow>
   RaftLogEntry list \<Rightarrow> LogIndex \<Rightarrow> nat \<Rightarrow> core_result" where
  "on_append_entries sha c0 t leader prev_log_index prev_log_term entries leader_commit round_id =
     (let (c, effects) = (if t > current_term c0 then step_down_to_higher_term t c0 else (c0, []))
      in if t < current_term c
         then (c, effects @ [append_response c leader False 0 None (sat_add64 (last_log_index c) 1) round_id])
         else
           let c1 = c\<lparr>role := Follower, known_leader := Some leader, ticks_since_leader_contact := 0\<rparr>;
               snapshot_idx = snapshot_index c1
           in if prev_log_index < snapshot_idx
              then let usable = filter (\<lambda>e. re_index e > snapshot_idx) entries
                   in case usable of
                        [] \<Rightarrow> (c1, effects @ [append_response c1 leader True (last_log_index c1) None
                            (sat_add64 snapshot_idx 1) round_id])
                      | first # _ \<Rightarrow>
                          if re_index first \<noteq> sat_add64 snapshot_idx 1
                          then (c1, effects @ [append_response c1 leader False 0 None
                            (sat_add64 snapshot_idx 1) round_id])
                          else reconcile_and_commit_entries sha c1 leader usable leader_commit round_id effects
              else case term_at c1 prev_log_index of
                  None \<Rightarrow> (c1, effects @ [append_response c1 leader False 0 None
                      (sat_add64 (last_log_index c1) 1) round_id])
                | Some local_prev_term \<Rightarrow>
                    if local_prev_term \<noteq> prev_log_term
                    then (c1, effects @ [append_response c1 leader False 0 (Some local_prev_term)
                      (first_of_conflict_term c1 local_prev_term prev_log_index) round_id])
                    else reconcile_and_commit_entries sha c1 leader entries leader_commit round_id effects)"

section \<open>Replication, leader side\<close>

definition replicated_domains :: "ConsensusCore \<Rightarrow> LogIndex \<Rightarrow> ControlDomainId set" where
  "replicated_domains c idx =
     control_domain_id ` set (filter (\<lambda>v. bt_get_or 0 (match_index c) (cell_identity v) \<ge> idx) (roster c))"

definition best_commit :: "ConsensusCore \<Rightarrow> LogIndex" where
  "best_commit c =
     fold (\<lambda>idx best. if term_at c idx = Some (current_term c) \<and>
          card (replicated_domains c idx) \<ge> quorum_size (roster c) then idx else best)
       [commit_index c + 1 ..< last_log_index c + 1] (commit_index c)"

definition try_advance_leader_commit :: "ConsensusCore \<Rightarrow> core_result" where
  "try_advance_leader_commit c =
     (let best = best_commit c
      in if best > commit_index c
         then (c\<lparr>commit_index := best\<rparr>,
               [AdvanceCommitIndex best (current_term c) (collect_range c (commit_index c + 1) best)])
         else (c, []))"

definition has_authoritative_commit_view :: "ConsensusCore \<Rightarrow> bool" where
  "has_authoritative_commit_view c =
     (commit_index c = 0 \<and> last_log_index c = 0 \<or>
      term_at c (commit_index c) = Some (current_term c))"

definition round_confirmed :: "ConsensusCore \<Rightarrow> PendingQuorumRound \<Rightarrow> bool" where
  "round_confirmed c r =
     (qr_term r = current_term c \<and> card (qr_acked_domains r) \<ge> quorum_size (roster c))"

definition sweep_confirmed_quorum_rounds :: "ConsensusCore \<Rightarrow> core_result" where
  "sweep_confirmed_quorum_rounds c =
     (let confirmed = filter (\<lambda>(_, r). round_confirmed c r) (quorum_rounds c);
          lease = fold (\<lambda>(round_id, _) l. if round_id \<ge> ll_last_confirmed_round l
              then \<lparr>ll_term = current_term c, ll_remaining_ticks = leader_lease_ticks (timing c),
                ll_last_confirmed_round = round_id\<rparr> else l) confirmed (leader_lease c);
          finished = filter (\<lambda>(_, r). has_authoritative_commit_view c \<or> qr_waiting_read_ids r = []) confirmed
      in (c\<lparr>leader_lease := lease,
            quorum_rounds := fold (\<lambda>(k, _) m. bt_remove k m) finished (quorum_rounds c)\<rparr>,
          concat (map (\<lambda>(_, r). map (\<lambda>rid. LinearizableReadConfirmed rid (current_term c)
            (max (commit_index c) (qr_commit_index_at_issue r))) (qr_waiting_read_ids r)) finished)))"

definition ack_round :: "CellIdentity \<Rightarrow> nat \<Rightarrow> ConsensusCore \<Rightarrow> ConsensusCore" where
  "ack_round follower round_id c =
     (case (domain_of (roster c) follower, bt_get (quorum_rounds c) round_id) of
        (Some domain, Some r) \<Rightarrow>
          if qr_term r = current_term c
          then c\<lparr>quorum_rounds := bt_insert round_id
            (r\<lparr>qr_acked_domains := insert domain (qr_acked_domains r)\<rparr>) (quorum_rounds c)\<rparr>
          else c
      | _ \<Rightarrow> c)"

definition backed_up_next :: "ConsensusCore \<Rightarrow> ConsensusTerm option \<Rightarrow> LogIndex \<Rightarrow> LogIndex" where
  "backed_up_next c conflict_term conflict_index =
     (case conflict_term of
        Some ct \<Rightarrow> (case find (\<lambda>e. re_term e = ct) (rev (log_tail c)) of
            Some e \<Rightarrow> sat_add64 (re_index e) 1 | None \<Rightarrow> max conflict_index 1)
      | None \<Rightarrow> max conflict_index 1)"

definition record_match :: "CellIdentity \<Rightarrow> LogIndex \<Rightarrow> ConsensusCore \<Rightarrow> ConsensusCore" where
  "record_match follower updated_match c =
     c\<lparr>match_index := bt_insert follower updated_match (match_index c),
       next_index := bt_insert follower (sat_add64 updated_match 1) (next_index c),
       snapshot_send_offset := bt_remove follower (snapshot_send_offset c)\<rparr>"

definition on_append_accepted ::
  "sha256_fn \<Rightarrow> ConsensusCore \<Rightarrow> CellIdentity \<Rightarrow> LogIndex \<Rightarrow> nat \<Rightarrow> core_result" where
  "on_append_accepted sha c follower mi round_id =
     (let prev_match = bt_get_or 0 (match_index c) follower;
          updated_match = min (max prev_match mi) (last_log_index c);
          c1 = record_match follower updated_match c;
          (c2, advance) = try_advance_leader_commit c1;
          c3 = ack_round follower round_id c2;
          (c4, reads) = sweep_confirmed_quorum_rounds c3
      in if updated_match < last_log_index c4
         then let (c5, repl) = allocate_and_replicate sha follower c4 in (c5, advance @ reads @ repl)
         else (c4, advance @ reads))"

definition on_append_conflict ::
  "sha256_fn \<Rightarrow> ConsensusCore \<Rightarrow> CellIdentity \<Rightarrow> ConsensusTerm option \<Rightarrow> LogIndex \<Rightarrow> core_result" where
  "on_append_conflict sha c follower conflict_term conflict_index =
     (let current_next = bt_get_or 1 (next_index c) follower;
          next_try = max (min (backed_up_next c conflict_term conflict_index) (max (current_next - 1) 1)) 1
      in allocate_and_replicate sha follower
        (c\<lparr>next_index := bt_insert follower next_try (next_index c),
          snapshot_send_offset := bt_remove follower (snapshot_send_offset c)\<rparr>))"

definition on_append_entries_response ::
  "sha256_fn \<Rightarrow> ConsensusCore \<Rightarrow> ConsensusTerm \<Rightarrow> CellIdentity \<Rightarrow> bool \<Rightarrow> LogIndex \<Rightarrow>
   ConsensusTerm option \<Rightarrow> LogIndex \<Rightarrow> nat \<Rightarrow> core_result" where
  "on_append_entries_response sha c t follower success mi conflict_term conflict_index round_id =
     (if t > current_term c then step_down_to_higher_term t c
      else if role c \<noteq> Leader \<or> t \<noteq> current_term c then (c, [])
      else if success then on_append_accepted sha c follower mi round_id
      else on_append_conflict sha c follower conflict_term conflict_index)"

section \<open>Snapshot transfer\<close>

definition snapshot_response ::
  "ConsensusCore \<Rightarrow> CellIdentity \<Rightarrow> LogIndex \<Rightarrow> nat \<Rightarrow> bool \<Rightarrow> ConsensusEffect" where
  "snapshot_response c leader included next_offset installed =
     SendMessage leader (InstallSnapshotResponse (current_term c) (local_id c) included next_offset installed)"

definition reset_and_nack :: "ConsensusCore \<Rightarrow> CellIdentity \<Rightarrow> LogIndex \<Rightarrow> ConsensusEffect list \<Rightarrow> core_result" where
  "reset_and_nack c leader included effects =
     (let c1 = c\<lparr>inbound_snapshot := None\<rparr>
      in (c1, effects @ [snapshot_response c1 leader included 0 False]))"

definition install_completed ::
  "ConsensusCore \<Rightarrow> CellIdentity \<Rightarrow> SnapshotMetadata \<Rightarrow> byte list \<Rightarrow> nat \<Rightarrow> ConsensusEffect list \<Rightarrow> core_result" where
  "install_completed c leader meta buffer total_bytes effects =
     (let included = included_index meta;
          tail = (if term_at c included = Some (included_term meta)
            then filter (\<lambda>e. re_index e > included) (log_tail c) else []);
          c1 = c\<lparr>log_tail := tail, snapshot_meta := Some meta, snapshot_bytes := Some buffer,
            commit_index := max (commit_index c) included\<rparr>
      in (c1, effects @ [InstallSnapshot meta buffer, snapshot_response c1 leader included total_bytes True]))"

text \<open>The staging buffer a chunk belongs to: the current one when every field of its header agrees,
  a fresh one for a first chunk, none otherwise.\<close>

definition matching_staging :: "ConsensusCore \<Rightarrow> InboundSnapshotStaging \<Rightarrow> nat \<Rightarrow> InboundSnapshotStaging option" where
  "matching_staging c fresh offset =
     (case inbound_snapshot c of
        Some s \<Rightarrow> if s = fresh\<lparr>is_buffer := is_buffer s\<rparr> then Some s
          else if offset = 0 then Some fresh else None
      | None \<Rightarrow> if offset = 0 then Some fresh else None)"

definition accept_chunk ::
  "sha256_fn \<Rightarrow> ConsensusCore \<Rightarrow> InboundSnapshotStaging \<Rightarrow> CellIdentity \<Rightarrow> SnapshotMetadata \<Rightarrow> nat \<Rightarrow>
   byte list \<Rightarrow> bool \<Rightarrow> ConsensusEffect list \<Rightarrow> core_result" where
  "accept_chunk sha c staging leader meta total_bytes chunk done_flag effects =
     (let included = included_index meta;
          buffer = is_buffer staging @ chunk;
          c1 = c\<lparr>inbound_snapshot := Some (staging\<lparr>is_buffer := buffer\<rparr>)\<rparr>
      in if length buffer > total_bytes then reset_and_nack c1 leader included effects
         else if \<not> done_flag
         then (c1, effects @ [snapshot_response c1 leader included (length buffer) False])
         else if length buffer \<noteq> total_bytes then reset_and_nack c1 leader included effects
         else if compute_snapshot_transfer_sha256 sha (is_last_included_index staging)
             (is_last_included_term staging) (is_state_root_digest staging) buffer
             \<noteq> is_snapshot_sha256 staging
         then reset_and_nack c1 leader included effects
         else install_completed (c1\<lparr>inbound_snapshot := None\<rparr>) leader meta buffer total_bytes effects)"

definition on_install_snapshot_chunk ::
  "sha256_fn \<Rightarrow> ConsensusCore \<Rightarrow> ConsensusTerm \<Rightarrow> CellIdentity \<Rightarrow> LogIndex \<Rightarrow> ConsensusTerm \<Rightarrow> bytes32 \<Rightarrow>
   bytes32 \<Rightarrow> nat \<Rightarrow> nat \<Rightarrow> byte list \<Rightarrow> bool \<Rightarrow> core_result" where
  "on_install_snapshot_chunk sha c0 t leader included inc_term root transfer_sha total_bytes offset
     chunk done_flag =
     (let (c, effects) = (if t > current_term c0 then step_down_to_higher_term t c0 else (c0, []))
      in if t < current_term c
         then (c, effects @ [snapshot_response c leader included 0 False])
         else
           let c1 = c\<lparr>role := Follower, known_leader := Some leader, ticks_since_leader_contact := 0\<rparr>
           in if included \<le> commit_index c1
              then (c1, effects @ [snapshot_response c1 leader included total_bytes True])
              else case matching_staging c1
                  \<lparr>is_term = t, is_leader_id = leader, is_last_included_index = included,
                   is_last_included_term = inc_term, is_state_root_digest = root,
                   is_snapshot_sha256 = transfer_sha, is_total_bytes = total_bytes, is_buffer = []\<rparr>
                  offset of
                None \<Rightarrow> reset_and_nack c1 leader included effects
              | Some staging \<Rightarrow>
                  if offset \<noteq> length (is_buffer staging)
                  then (c1\<lparr>inbound_snapshot := Some staging\<rparr>,
                    effects @ [snapshot_response c1 leader included (length (is_buffer staging)) False])
                  else accept_chunk sha c1 staging leader
                    \<lparr>included_index = included, included_term = inc_term, meta_state_root = root\<rparr>
                    total_bytes chunk done_flag effects)"

definition on_snapshot_installed :: "sha256_fn \<Rightarrow> ConsensusCore \<Rightarrow> CellIdentity \<Rightarrow> LogIndex \<Rightarrow> core_result" where
  "on_snapshot_installed sha c follower included =
     (let updated = max (bt_get_or 0 (match_index c) follower) included;
          c1 = record_match follower updated c;
          (c2, advance) = try_advance_leader_commit c1
      in if updated < last_log_index c2
         then let (c3, repl) = allocate_and_replicate sha follower c2 in (c3, advance @ repl)
         else (c2, advance))"

definition on_install_snapshot_response ::
  "sha256_fn \<Rightarrow> ConsensusCore \<Rightarrow> ConsensusTerm \<Rightarrow> CellIdentity \<Rightarrow> LogIndex \<Rightarrow> nat \<Rightarrow> bool \<Rightarrow> core_result" where
  "on_install_snapshot_response sha c t follower included next_offset installed =
     (if t > current_term c then step_down_to_higher_term t c
      else if role c \<noteq> Leader \<or> t \<noteq> current_term c then (c, [])
      else case snapshot_meta c of
        None \<Rightarrow> (c, [])
      | Some meta \<Rightarrow>
          if included \<noteq> included_index meta then (c, [])
          else if installed then on_snapshot_installed sha c follower included
          else if next_offset = 0
          then allocate_and_replicate sha follower
            (c\<lparr>snapshot_send_offset := bt_insert follower 0 (snapshot_send_offset c)\<rparr>)
          else if next_offset \<le> bt_get_or 0 (snapshot_send_offset c) follower then (c, [])
          else allocate_and_replicate sha follower
            (c\<lparr>snapshot_send_offset := bt_insert follower next_offset (snapshot_send_offset c)\<rparr>))"

section \<open>Dispatch\<close>

fun message_sender :: "RaftMessage \<Rightarrow> CellIdentity" where
  "message_sender (RequestPreVote _ candidate _ _) = candidate"
| "message_sender (RequestPreVoteResponse _ _ voter _) = voter"
| "message_sender (RequestVote _ candidate _ _) = candidate"
| "message_sender (RequestVoteResponse _ voter _) = voter"
| "message_sender (AppendEntries _ leader _ _ _ _ _) = leader"
| "message_sender (AppendEntriesResponse _ follower _ _ _ _ _) = follower"
| "message_sender (InstallSnapshotChunk _ leader _ _ _ _ _ _ _ _) = leader"
| "message_sender (InstallSnapshotResponse _ follower _ _ _) = follower"

fun dispatch_message :: "sha256_fn \<Rightarrow> ConsensusCore \<Rightarrow> RaftMessage \<Rightarrow> core_result" where
  "dispatch_message sha c (RequestPreVote pt candidate li lt) = on_request_pre_vote c pt candidate li lt"
| "dispatch_message sha c (RequestPreVoteResponse t pt voter granted) =
     on_request_pre_vote_response c t pt voter granted"
| "dispatch_message sha c (RequestVote t candidate li lt) = on_request_vote c t candidate li lt"
| "dispatch_message sha c (RequestVoteResponse t voter granted) =
     on_request_vote_response sha c t voter granted"
| "dispatch_message sha c (AppendEntries t leader pi pt entries commit round_id) =
     on_append_entries sha c t leader pi pt entries commit round_id"
| "dispatch_message sha c (AppendEntriesResponse t follower success mi ct ci round_id) =
     on_append_entries_response sha c t follower success mi ct ci round_id"
| "dispatch_message sha c (InstallSnapshotChunk t leader ii it root transfer_sha total_b offset chunk d) =
     on_install_snapshot_chunk sha c t leader ii it root transfer_sha total_b offset chunk d"
| "dispatch_message sha c (InstallSnapshotResponse t follower ii next_offset installed) =
     on_install_snapshot_response sha c t follower ii next_offset installed"

definition on_message :: "sha256_fn \<Rightarrow> ConsensusCore \<Rightarrow> CellIdentity \<Rightarrow> RaftMessage \<Rightarrow> core_result" where
  "on_message sha c from_cell message =
     (if \<not> roster_contains (roster c) from_cell \<or> from_cell = local_id c then (c, [])
      else if message_sender message \<noteq> from_cell then (c, [])
      else dispatch_message sha c message)"

fun core_step :: "sha256_fn \<Rightarrow> ConsensusCore \<Rightarrow> ConsensusInput \<Rightarrow> core_result" where
  "core_step sha c Tick = on_tick sha c"
| "core_step sha c (Propose p expected) = on_propose sha c p expected"
| "core_step sha c (RequestLinearizableRead read_id expected) =
     on_request_linearizable_read sha c read_id expected"
| "core_step sha c (ReceiveMessage from_cell message) = on_message sha c from_cell message"

end
