(* ===== verification/RaftFrames.thy ===== *)
theory RaftFrames
  imports RaftCore
begin

text \<open>
  What each helper of the consensus core changes, as equations: a helper is rewritten to the record
  update it performs and the effects it emits, so that the proofs about the handlers compute the
  fields they need. The rule \<open>core_step_rule\<close> splits a step into its handlers.
\<close>

named_theorems core_eqs \<open>helpers of the core as record updates\<close>

definition alloc_rounds :: "nat option \<Rightarrow> ConsensusCore \<Rightarrow> (nat, PendingQuorumRound) btree" where
  "alloc_rounds read_id c = quorum_rounds (fst (allocate_quorum_round read_id c))"

lemma allocate_quorum_round_eq [core_eqs]:
  "allocate_quorum_round read_id c =
     (c\<lparr>next_quorum_round_id := sat_add64 (next_quorum_round_id c) 1,
        quorum_rounds := alloc_rounds read_id c\<rparr>, next_quorum_round_id c)"
  unfolding alloc_rounds_def by (simp add: allocate_quorum_round_def Let_def)

definition with_round :: "nat option \<Rightarrow> ConsensusCore \<Rightarrow> ConsensusCore" where
  "with_round read_id c = c\<lparr>next_quorum_round_id := sat_add64 (next_quorum_round_id c) 1,
     quorum_rounds := alloc_rounds read_id c\<rparr>"

lemma with_round_sel [simp]:
  "local_id (with_round r c) = local_id c" "local_domain (with_round r c) = local_domain c"
  "roster (with_round r c) = roster c" "timing (with_round r c) = timing c"
  "role (with_round r c) = role c" "current_term (with_round r c) = current_term c"
  "voted_for (with_round r c) = voted_for c" "known_leader (with_round r c) = known_leader c"
  "snapshot_meta (with_round r c) = snapshot_meta c"
  "snapshot_bytes (with_round r c) = snapshot_bytes c" "log_tail (with_round r c) = log_tail c"
  "commit_index (with_round r c) = commit_index c"
  "votes_granted_domains (with_round r c) = votes_granted_domains c"
  "pre_votes_granted_domains (with_round r c) = pre_votes_granted_domains c"
  "next_index (with_round r c) = next_index c" "match_index (with_round r c) = match_index c"
  "quorum_rounds (with_round r c) = alloc_rounds r c"
  by (simp_all add: with_round_def)

lemma allocate_and_broadcast_eq [core_eqs]:
  "allocate_and_broadcast sha read_id c =
     (with_round read_id c,
      broadcast_replication_or_heartbeat sha (with_round read_id c) (next_quorum_round_id c))"
  by (simp add: allocate_and_broadcast_def core_eqs with_round_def)

lemma allocate_and_replicate_eq [core_eqs]:
  "allocate_and_replicate sha peer c =
     (with_round None c,
      [build_replication_for_peer sha (with_round None c) peer (next_quorum_round_id c)])"
  by (simp add: allocate_and_replicate_def core_eqs with_round_def)

text \<open>Replication only sends messages, in the current term and under the local identity.\<close>

definition replication_message :: "sha256_fn \<Rightarrow> ConsensusCore \<Rightarrow> CellIdentity \<Rightarrow> nat \<Rightarrow> RaftMessage" where
  "replication_message sha c peer round_id =
     (case build_replication_for_peer sha c peer round_id of SendMessage _ m \<Rightarrow> m)"

lemma build_replication_eq [core_eqs]:
  "build_replication_for_peer sha c peer round_id =
     SendMessage peer (replication_message sha c peer round_id)"
  unfolding replication_message_def
  by (simp add: build_replication_for_peer_def Let_def split: option.split)

lemma replication_message_cases:
  obtains (append) pi pt es lc r where
      "replication_message sha c peer round_id = AppendEntries (current_term c) (local_id c) pi pt es lc r"
      "es = collect_range c (pi + 1) (last_log_index c)" "lc = commit_index c"
      "pt = (case term_at c pi of Some t \<Rightarrow> t | None \<Rightarrow> 0)"
  | (chunk) ii it root tsha b off chk d where
      "replication_message sha c peer round_id =
         InstallSnapshotChunk (current_term c) (local_id c) ii it root tsha b off chk d"
proof -
  let ?next = "max (bt_get_or (sat_add64 (last_log_index c) 1) (next_index c) peer) 1"
  let ?append = "AppendEntries (current_term c) (local_id c) (?next - 1)
    (case term_at c (?next - 1) of Some t \<Rightarrow> t | None \<Rightarrow> 0)
    (collect_range c ?next (last_log_index c)) (commit_index c) round_id"
  have next_pos: "?next - 1 + 1 = ?next" by simp
  have "replication_message sha c peer round_id = ?append \<or>
    (\<exists>ii it root tsha b off chk d. replication_message sha c peer round_id =
       InstallSnapshotChunk (current_term c) (local_id c) ii it root tsha b off chk d)"
    unfolding replication_message_def build_replication_for_peer_def Let_def
    by (cases "snapshot_meta c"; cases "snapshot_bytes c") simp_all
  then show ?thesis
  proof
    assume "replication_message sha c peer round_id = ?append"
    then show ?thesis using append [of "?next - 1"] by (metis next_pos)
  qed (use chunk in blast)
qed

lemma set_broadcast:
  "set (broadcast_replication_or_heartbeat sha c round_id) =
     (\<lambda>peer. SendMessage peer (replication_message sha c peer round_id)) ` set (peers c)"
  by (simp add: broadcast_replication_or_heartbeat_def core_eqs)

text \<open>The leader's commit advance.\<close>

lemma fold_best_cases:
  "fold (\<lambda>i best. if P i then i else best) is b = b \<or>
   (fold (\<lambda>i best. if P i then i else best) is b \<in> set is \<and>
    P (fold (\<lambda>i best. if P i then i else best) is b))"
  by (induction "is" arbitrary: b) (auto, metis)

lemma best_commit_cases:
  "best_commit c = commit_index c \<or>
   (commit_index c < best_commit c \<and> best_commit c \<le> last_log_index c \<and>
    term_at c (best_commit c) = Some (current_term c) \<and>
    quorum_size (roster c) \<le> card (replicated_domains c (best_commit c)))"
  unfolding best_commit_def
  using fold_best_cases [of "\<lambda>idx. term_at c idx = Some (current_term c) \<and>
    quorum_size (roster c) \<le> card (replicated_domains c idx)"
    "[commit_index c + 1 ..< last_log_index c + 1]" "commit_index c"]
  by (simp only: set_upt atLeastLessThan_iff) linarith

lemma best_commit_ge: "commit_index c \<le> best_commit c"
  using best_commit_cases [of c] by auto

definition leader_advance :: "ConsensusCore \<Rightarrow> ConsensusEffect list" where
  "leader_advance c = snd (try_advance_leader_commit c)"

lemma try_advance_leader_commit_eq [core_eqs]:
  "try_advance_leader_commit c = (c\<lparr>commit_index := best_commit c\<rparr>, leader_advance c)"
  using best_commit_ge [of c]
  by (auto simp: leader_advance_def try_advance_leader_commit_def Let_def)

text \<open>The follower's commit advance.\<close>

definition follower_target :: "ConsensusCore \<Rightarrow> LogIndex \<Rightarrow> LogIndex" where
  "follower_target c leader_commit = max (commit_index c) (min leader_commit (last_log_index c))"

definition follower_advance :: "ConsensusCore \<Rightarrow> LogIndex \<Rightarrow> ConsensusEffect list" where
  "follower_advance c leader_commit = snd (follower_commit c leader_commit)"

lemma follower_commit_eq [core_eqs]:
  "follower_commit c leader_commit =
     (c\<lparr>commit_index := follower_target c leader_commit\<rparr>, follower_advance c leader_commit)"
  by (auto simp: follower_advance_def follower_commit_def follower_target_def Let_def max_def min_def)

text \<open>Rounds and leases.\<close>

definition swept :: "ConsensusCore \<Rightarrow> ConsensusCore" where
  "swept c = fst (sweep_confirmed_quorum_rounds c)"

definition swept_reads :: "ConsensusCore \<Rightarrow> ConsensusEffect list" where
  "swept_reads c = snd (sweep_confirmed_quorum_rounds c)"

lemma sweep_eq [core_eqs]: "sweep_confirmed_quorum_rounds c = (swept c, swept_reads c)"
  by (simp add: swept_def swept_reads_def)

lemma swept_sel [simp]:
  "local_id (swept c) = local_id c" "local_domain (swept c) = local_domain c"
  "roster (swept c) = roster c" "timing (swept c) = timing c"
  "role (swept c) = role c" "current_term (swept c) = current_term c"
  "voted_for (swept c) = voted_for c" "known_leader (swept c) = known_leader c"
  "snapshot_meta (swept c) = snapshot_meta c"
  "snapshot_bytes (swept c) = snapshot_bytes c" "log_tail (swept c) = log_tail c"
  "commit_index (swept c) = commit_index c"
  "votes_granted_domains (swept c) = votes_granted_domains c"
  "pre_votes_granted_domains (swept c) = pre_votes_granted_domains c"
  "next_index (swept c) = next_index c" "match_index (swept c) = match_index c"
  by (simp_all add: swept_def sweep_confirmed_quorum_rounds_def Let_def)

lemma ack_round_sel [simp]:
  "local_id (ack_round f r c) = local_id c" "local_domain (ack_round f r c) = local_domain c"
  "roster (ack_round f r c) = roster c" "timing (ack_round f r c) = timing c"
  "role (ack_round f r c) = role c" "current_term (ack_round f r c) = current_term c"
  "voted_for (ack_round f r c) = voted_for c" "known_leader (ack_round f r c) = known_leader c"
  "snapshot_meta (ack_round f r c) = snapshot_meta c"
  "snapshot_bytes (ack_round f r c) = snapshot_bytes c" "log_tail (ack_round f r c) = log_tail c"
  "commit_index (ack_round f r c) = commit_index c"
  "votes_granted_domains (ack_round f r c) = votes_granted_domains c"
  "pre_votes_granted_domains (ack_round f r c) = pre_votes_granted_domains c"
  "next_index (ack_round f r c) = next_index c" "match_index (ack_round f r c) = match_index c"
  by (simp_all add: ack_round_def split: option.split prod.split)

lemma record_match_sel [simp]:
  "local_id (record_match f k c) = local_id c" "local_domain (record_match f k c) = local_domain c"
  "roster (record_match f k c) = roster c" "timing (record_match f k c) = timing c"
  "role (record_match f k c) = role c" "current_term (record_match f k c) = current_term c"
  "voted_for (record_match f k c) = voted_for c" "known_leader (record_match f k c) = known_leader c"
  "snapshot_meta (record_match f k c) = snapshot_meta c"
  "snapshot_bytes (record_match f k c) = snapshot_bytes c" "log_tail (record_match f k c) = log_tail c"
  "commit_index (record_match f k c) = commit_index c"
  "votes_granted_domains (record_match f k c) = votes_granted_domains c"
  "quorum_rounds (record_match f k c) = quorum_rounds c"
  "match_index (record_match f k c) = bt_insert f k (match_index c)"
  "pre_votes_granted_domains (record_match f k c) = pre_votes_granted_domains c"
  by (simp_all add: record_match_def)

text \<open>Positions in the log depend only on the log fields.\<close>

lemma log_positions_cong:
  assumes "snapshot_meta c = snapshot_meta d" "log_tail c = log_tail d"
  shows "snapshot_index c = snapshot_index d"
    and "first_uncompacted_index c = first_uncompacted_index d"
    and "last_log_index c = last_log_index d" and "last_log_term c = last_log_term d"
    and "term_at c i = term_at d i"
  using assms
  by (simp_all add: snapshot_index_def first_uncompacted_index_def last_log_index_def
      last_log_term_def term_at_def term_at_tail_def Let_def split: option.split)

text \<open>The step-down that opens the message handlers.\<close>

definition stepped_down :: "ConsensusTerm \<Rightarrow> ConsensusCore \<Rightarrow> ConsensusCore" where
  "stepped_down t c = fst (step_down_to_higher_term t c)"

definition step_down_effects :: "ConsensusTerm \<Rightarrow> ConsensusCore \<Rightarrow> ConsensusEffect list" where
  "step_down_effects t c = snd (step_down_to_higher_term t c)"

lemma step_down_eq [core_eqs]:
  "step_down_to_higher_term t c = (stepped_down t c, step_down_effects t c)"
  by (simp add: stepped_down_def step_down_effects_def)

lemma stepped_down_sel [simp]:
  "local_id (stepped_down t c) = local_id c" "local_domain (stepped_down t c) = local_domain c"
  "roster (stepped_down t c) = roster c" "timing (stepped_down t c) = timing c"
  "role (stepped_down t c) = Follower" "current_term (stepped_down t c) = t"
  "voted_for (stepped_down t c) = None" "known_leader (stepped_down t c) = None"
  "snapshot_meta (stepped_down t c) = snapshot_meta c"
  "snapshot_bytes (stepped_down t c) = snapshot_bytes c" "log_tail (stepped_down t c) = log_tail c"
  "commit_index (stepped_down t c) = commit_index c"
  "votes_granted_domains (stepped_down t c) = {}"
  "pre_votes_granted_domains (stepped_down t c) = {}"
  "next_index (stepped_down t c) = next_index c" "match_index (stepped_down t c) = match_index c"
  "quorum_rounds (stepped_down t c) = []"
  by (simp_all add: stepped_down_def step_down_to_higher_term_def Let_def)

lemma set_step_down_effects:
  "set (step_down_effects t c) \<subseteq> {PersistHardState t None, LeaderSteppedDown (current_term c) t} \<union>
     range (\<lambda>rid. ProposalRejected (Some rid) (StaleLeaderTerm (current_term c) t None))"
  by (auto simp: step_down_effects_def step_down_to_higher_term_def Let_def)

definition caught_up :: "ConsensusTerm \<Rightarrow> ConsensusCore \<Rightarrow> ConsensusCore" where
  "caught_up t c = (if t > current_term c then stepped_down t c else c)"

definition caught_up_effects :: "ConsensusTerm \<Rightarrow> ConsensusCore \<Rightarrow> ConsensusEffect list" where
  "caught_up_effects t c = (if t > current_term c then step_down_effects t c else [])"

lemma catch_up_eq [core_eqs]:
  "(if t > current_term c then step_down_to_higher_term t c else (c, [])) =
     (caught_up t c, caught_up_effects t c)"
  by (simp add: caught_up_def caught_up_effects_def core_eqs)

lemma caught_up_sel [simp]:
  "local_id (caught_up t c) = local_id c" "local_domain (caught_up t c) = local_domain c"
  "roster (caught_up t c) = roster c" "timing (caught_up t c) = timing c"
  "current_term (caught_up t c) = max t (current_term c)"
  "snapshot_meta (caught_up t c) = snapshot_meta c"
  "snapshot_bytes (caught_up t c) = snapshot_bytes c" "log_tail (caught_up t c) = log_tail c"
  "commit_index (caught_up t c) = commit_index c"
  "next_index (caught_up t c) = next_index c" "match_index (caught_up t c) = match_index c"
  by (simp_all add: caught_up_def)

section \<open>Messages from a leader\<close>

definition leader_contact :: "ConsensusTerm \<Rightarrow> CellIdentity \<Rightarrow> ConsensusCore \<Rightarrow> ConsensusCore" where
  "leader_contact t l c =
     (caught_up t c)\<lparr>role := Follower, known_leader := Some l, ticks_since_leader_contact := 0\<rparr>"

lemma leader_contact_sel [simp]:
  "local_id (leader_contact t l c) = local_id c" "local_domain (leader_contact t l c) = local_domain c"
  "roster (leader_contact t l c) = roster c" "timing (leader_contact t l c) = timing c"
  "role (leader_contact t l c) = Follower" "known_leader (leader_contact t l c) = Some l"
  "current_term (leader_contact t l c) = max t (current_term c)"
  "voted_for (leader_contact t l c) = voted_for (caught_up t c)"
  "votes_granted_domains (leader_contact t l c) = votes_granted_domains (caught_up t c)"
  "quorum_rounds (leader_contact t l c) = quorum_rounds (caught_up t c)"
  "snapshot_meta (leader_contact t l c) = snapshot_meta c"
  "snapshot_bytes (leader_contact t l c) = snapshot_bytes c" "log_tail (leader_contact t l c) = log_tail c"
  "commit_index (leader_contact t l c) = commit_index c"
  "next_index (leader_contact t l c) = next_index c" "match_index (leader_contact t l c) = match_index c"
  by (simp_all add: leader_contact_def)

lemma on_append_entries_cases:
  fixes sha c t l pi pt es lc r
  obtains (stale) ci where "t < current_term c"
      "on_append_entries sha c t l pi pt es lc r = (c, [append_response c l False 0 None ci r])"
  | (reply) s mi ct ci where "current_term c \<le> t" "s \<longrightarrow> mi = last_log_index c"
      "on_append_entries sha c t l pi pt es lc r =
        (leader_contact t l c, caught_up_effects t c @ [append_response (leader_contact t l c) l s mi ct ci r])"
  | (below) e es2 where "current_term c \<le> t" "pi < snapshot_index c"
      "filter (\<lambda>e. re_index e > snapshot_index c) es = e # es2"
      "re_index e = sat_add64 (snapshot_index c) 1"
      "on_append_entries sha c t l pi pt es lc r = reconcile_and_commit_entries sha
        (leader_contact t l c) l (e # es2) lc r (caught_up_effects t c)"
  | (match) "current_term c \<le> t" "snapshot_index c \<le> pi" "term_at c pi = Some pt"
      "on_append_entries sha c t l pi pt es lc r = reconcile_and_commit_entries sha
        (leader_contact t l c) l es lc r (caught_up_effects t c)"
proof (cases "t < current_term c")
  case True
  then show ?thesis
    using stale by (simp add: on_append_entries_def catch_up_eq caught_up_def caught_up_effects_def)
next
  case current: False
  let ?d = "leader_contact t l c"
  note pos = log_positions_cong [of ?d c]
  have eq: "on_append_entries sha c t l pi pt es lc r =
     (if pi < snapshot_index c
      then (case filter (\<lambda>e. re_index e > snapshot_index c) es of
          [] \<Rightarrow> (?d, caught_up_effects t c @ [append_response ?d l True (last_log_index c) None
            (sat_add64 (snapshot_index c) 1) r])
        | first # rest \<Rightarrow>
            if re_index first \<noteq> sat_add64 (snapshot_index c) 1
            then (?d, caught_up_effects t c @ [append_response ?d l False 0 None
              (sat_add64 (snapshot_index c) 1) r])
            else reconcile_and_commit_entries sha ?d l (first # rest) lc r (caught_up_effects t c))
      else case term_at c pi of
          None \<Rightarrow> (?d, caught_up_effects t c @ [append_response ?d l False 0 None
            (sat_add64 (last_log_index c) 1) r])
        | Some lt \<Rightarrow>
            if lt \<noteq> pt
            then (?d, caught_up_effects t c @ [append_response ?d l False 0 (Some lt)
              (first_of_conflict_term ?d lt pi) r])
            else reconcile_and_commit_entries sha ?d l es lc r (caught_up_effects t c))"
    using current pos
    by (simp add: on_append_entries_def catch_up_eq leader_contact_def [symmetric] Let_def
        split: list.split option.split)
  show ?thesis
  proof (cases "pi < snapshot_index c")
    case True
    show ?thesis
    proof (cases "filter (\<lambda>e. re_index e > snapshot_index c) es")
      case Nil
      then show ?thesis using True current reply [of True "last_log_index c"] by (simp add: eq)
    next
      case (Cons e es2)
      then show ?thesis
        using True current below [of e es2] reply [of False 0]
        by (cases "re_index e = sat_add64 (snapshot_index c) 1") (simp_all add: eq)
    qed
  next
    case False
    then show ?thesis
      using current match reply [of False 0]
      by (cases "term_at c pi"; cases "term_at c pi = Some pt") (auto simp: eq)
  qed
qed

lemma snapshot_response_cong:
  "current_term d = current_term c \<Longrightarrow> local_id d = local_id c \<Longrightarrow>
   snapshot_response d l ii no inst = snapshot_response c l ii no inst"
  by (simp add: snapshot_response_def)

lemma accept_chunk_cases:
  fixes sha c s l m b chunk d effs
  obtains (reply) x no where
      "accept_chunk sha c s l m b chunk d effs =
        (c\<lparr>inbound_snapshot := x\<rparr>, effs @ [snapshot_response c l (included_index m) no False])"
  | (install) buf where "length buf = b"
      "compute_snapshot_transfer_sha256 sha (is_last_included_index s) (is_last_included_term s)
        (is_state_root_digest s) buf = is_snapshot_sha256 s"
      "accept_chunk sha c s l m b chunk d effs =
        install_completed (c\<lparr>inbound_snapshot := None\<rparr>) l m buf b effs"
proof -
  let ?buf = "is_buffer s @ chunk"
  let ?staged = "Some (s\<lparr>is_buffer := ?buf\<rparr>)"
  let ?hash = "compute_snapshot_transfer_sha256 sha (is_last_included_index s) (is_last_included_term s)
    (is_state_root_digest s) ?buf = is_snapshot_sha256 s"
  consider (more) "length ?buf \<le> b" "\<not> d"
    | (complete) "length ?buf = b" "d" "?hash"
    | (nack) "length ?buf > b \<or> d \<and> (length ?buf \<noteq> b \<or> \<not> ?hash)"
    using not_less by blast
  then show ?thesis
  proof cases
    case more
    show ?thesis
      by (rule reply [of ?staged "length ?buf"])
        (use more in \<open>simp add: accept_chunk_def Let_def snapshot_response_def\<close>)
  next
    case complete
    show ?thesis
      by (rule install [of ?buf]) (use complete in \<open>simp_all add: accept_chunk_def Let_def\<close>)
  next
    case nack
    show ?thesis
      by (rule reply [of None 0])
        (use nack in \<open>elim disjE conjE; simp add: accept_chunk_def reset_and_nack_def snapshot_response_def Let_def\<close>)
  qed
qed

lemma matching_staging_header:
  assumes "matching_staging c fresh off = Some s"
  shows "is_last_included_index s = is_last_included_index fresh"
    and "is_last_included_term s = is_last_included_term fresh"
    and "is_state_root_digest s = is_state_root_digest fresh"
    and "is_snapshot_sha256 s = is_snapshot_sha256 fresh"
proof -
  obtain x where x: "s = fresh\<lparr>is_buffer := x\<rparr>"
  proof (cases "s = fresh")
    case True
    then show ?thesis using that [of "is_buffer fresh"] by simp
  next
    case False
    then have "s = fresh\<lparr>is_buffer := is_buffer s\<rparr>"
      using assms by (simp add: matching_staging_def split: option.splits if_splits)
    then show ?thesis by (rule that)
  qed
  show "is_last_included_index s = is_last_included_index fresh" by (simp add: x)
  show "is_last_included_term s = is_last_included_term fresh" by (simp add: x)
  show "is_state_root_digest s = is_state_root_digest fresh" by (simp add: x)
  show "is_snapshot_sha256 s = is_snapshot_sha256 fresh" by (simp add: x)
qed

lemma on_install_snapshot_chunk_cases:
  fixes sha c t l ii it root tsha b off chunk d
  obtains (stale) "t < current_term c"
      "on_install_snapshot_chunk sha c t l ii it root tsha b off chunk d =
        (c, [snapshot_response c l ii 0 False])"
  | (reply) x no inst where "current_term c \<le> t" "inst \<longrightarrow> ii \<le> commit_index c"
      "on_install_snapshot_chunk sha c t l ii it root tsha b off chunk d =
        ((leader_contact t l c)\<lparr>inbound_snapshot := x\<rparr>,
         caught_up_effects t c @ [snapshot_response (leader_contact t l c) l ii no inst])"
  | (install) buf where "current_term c \<le> t" "commit_index c < ii" "length buf = b"
      "compute_snapshot_transfer_sha256 sha ii it root buf = tsha"
      "on_install_snapshot_chunk sha c t l ii it root tsha b off chunk d =
        install_completed ((leader_contact t l c)\<lparr>inbound_snapshot := None\<rparr>) l
          \<lparr>included_index = ii, included_term = it, meta_state_root = root\<rparr> buf b (caught_up_effects t c)"
proof (cases "t < current_term c")
  case True
  then show ?thesis
    using stale by (simp add: on_install_snapshot_chunk_def catch_up_eq caught_up_def caught_up_effects_def)
next
  case current: False
  let ?d = "leader_contact t l c"
  let ?m = "\<lparr>included_index = ii, included_term = it, meta_state_root = root\<rparr>"
  let ?fresh = "\<lparr>is_term = t, is_leader_id = l, is_last_included_index = ii,
    is_last_included_term = it, is_state_root_digest = root,
    is_snapshot_sha256 = tsha, is_total_bytes = b, is_buffer = []\<rparr>"
  have eq: "on_install_snapshot_chunk sha c t l ii it root tsha b off chunk d =
     (if ii \<le> commit_index c
      then (?d, caught_up_effects t c @ [snapshot_response ?d l ii b True])
      else case matching_staging ?d ?fresh off of
          None \<Rightarrow> reset_and_nack ?d l ii (caught_up_effects t c)
        | Some s \<Rightarrow>
            if off \<noteq> length (is_buffer s)
            then (?d\<lparr>inbound_snapshot := Some s\<rparr>, caught_up_effects t c @
              [snapshot_response ?d l ii (length (is_buffer s)) False])
            else accept_chunk sha ?d s l ?m b chunk d (caught_up_effects t c))"
    using current
    by (simp add: on_install_snapshot_chunk_def catch_up_eq leader_contact_def [symmetric] Let_def)
  show ?thesis
  proof (cases "ii \<le> commit_index c")
    case True
    then show ?thesis
      using reply [of True "inbound_snapshot ?d" b] current by (simp add: eq)
  next
    case False
    show ?thesis
    proof (cases "matching_staging ?d ?fresh off")
      case None
      then show ?thesis
        using False current reply [of False None 0]
        by (simp add: eq reset_and_nack_def snapshot_response_def)
    next
      case (Some s)
      show ?thesis
      proof (cases "off = length (is_buffer s)")
        case True
        have res: "on_install_snapshot_chunk sha c t l ii it root tsha b off chunk d =
          accept_chunk sha ?d s l ?m b chunk d (caught_up_effects t c)"
          unfolding eq using False Some True by simp
        show ?thesis
        proof (cases rule: accept_chunk_cases [of sha ?d s l ?m b chunk d "caught_up_effects t c"])
          case acc: (reply x no)
          show ?thesis
            by (rule reply [of False x no]) (use current res acc in simp_all)
        next
          case acc: (install buf)
          show ?thesis
            by (rule install [of buf])
              (use current False res acc matching_staging_header [OF Some] in simp_all)
        qed
      qed (use False Some current reply [of False "Some s"] in \<open>simp add: eq\<close>)
    qed
  qed
qed

section \<open>Induction over the entries of a replication message\<close>

text \<open>An entry is rejected, passed over, put in place of a conflicting suffix, or appended.\<close>

lemma reconcile_induct [case_names nil bad skip replace push]:
  fixes P :: "ConsensusCore \<Rightarrow> RaftLogEntry list \<Rightarrow> ConsensusEffect list \<Rightarrow> RaftLogEntry list \<Rightarrow> bool"
  assumes nil: "\<And>c n f. P c n f []"
    and bad: "\<And>c n f e es. \<not> verify_integrity sha e \<Longrightarrow>
      reconcile_entries sha c n f (e # es) = Inl (c, f) \<Longrightarrow> P c n f (e # es)"
    and skip: "\<And>c n f e es. verify_integrity sha e \<Longrightarrow>
      (\<And>x. re_index e \<ge> first_uncompacted_index c \<Longrightarrow> re_index e > commit_index c \<Longrightarrow>
        log_get (log_tail c) (re_index e - first_uncompacted_index c) = Some x \<Longrightarrow> re_term x = re_term e) \<Longrightarrow>
      reconcile_entries sha c n f (e # es) = reconcile_entries sha c n f es \<Longrightarrow>
      P c n f es \<Longrightarrow> P c n f (e # es)"
    and replace: "\<And>c n f e es pos d. verify_integrity sha e \<Longrightarrow>
      pos = re_index e - first_uncompacted_index c \<Longrightarrow> first_uncompacted_index c \<le> re_index e \<Longrightarrow>
      pos < length (log_tail c) \<Longrightarrow> re_term (log_tail c ! pos) \<noteq> re_term e \<Longrightarrow>
      commit_index c < re_index e \<Longrightarrow> d = c\<lparr>log_tail := take pos (log_tail c) @ [e]\<rparr> \<Longrightarrow>
      reconcile_entries sha c n f (e # es) =
        reconcile_entries sha d (n @ [e]) (f @ [TruncateLogSuffixFrom (re_index e)]) es \<Longrightarrow>
      P d (n @ [e]) (f @ [TruncateLogSuffixFrom (re_index e)]) es \<Longrightarrow> P c n f (e # es)"
    and push: "\<And>c n f e es d. verify_integrity sha e \<Longrightarrow>
      first_uncompacted_index c \<le> re_index e \<Longrightarrow>
      re_index e = first_uncompacted_index c + length (log_tail c) \<Longrightarrow>
      d = c\<lparr>log_tail := log_tail c @ [e]\<rparr> \<Longrightarrow>
      reconcile_entries sha c n f (e # es) = reconcile_entries sha d (n @ [e]) f es \<Longrightarrow>
      P d (n @ [e]) f es \<Longrightarrow> P c n f (e # es)"
  shows "P c n f es"
proof (induction es arbitrary: c n f)
  case Nil
  then show ?case by (rule nil)
next
  case (Cons e es)
  let ?base = "first_uncompacted_index c"
  let ?pos = "re_index e - ?base"
  consider (bad) "\<not> verify_integrity sha e"
    | (replace) "verify_integrity sha e" "?base \<le> re_index e" "?pos < length (log_tail c)"
        "re_term (log_tail c ! ?pos) \<noteq> re_term e" "commit_index c < re_index e"
    | (push) "verify_integrity sha e" "?base \<le> re_index e" "?pos = length (log_tail c)"
    | (skip) "verify_integrity sha e"
        "re_index e < ?base \<or> ?pos < length (log_tail c) \<and>
           (re_term (log_tail c ! ?pos) = re_term e \<or> re_index e \<le> commit_index c) \<or>
         length (log_tail c) < ?pos"
    by fastforce
  then show ?case
  proof cases
    case bad
    then show ?thesis using assms(2) by simp
  next
    case replace
    show ?thesis
      by (rule assms(4) [OF replace(1) refl replace(2-5) refl _ Cons.IH])
        (use replace in \<open>simp add: log_get_def Let_def\<close>)
  next
    case push
    show ?thesis
      by (rule assms(5) [OF push(1,2) _ refl _ Cons.IH])
        (use push in \<open>auto simp: log_get_def Let_def\<close>)
  next
    case skip
    show ?thesis
      by (rule assms(3) [OF skip(1) _ _ Cons.IH])
        (use skip in \<open>auto simp: log_get_def Let_def split: if_splits\<close>)
  qed
qed

text \<open>Reconciliation changes nothing but the log, and emits nothing but truncations before the append
  and the commit.\<close>

definition reconciled_core :: "core_result + (ConsensusCore \<times> RaftLogEntry list \<times> ConsensusEffect list) \<Rightarrow> ConsensusCore" where
  "reconciled_core r = (case r of Inl (d, _) \<Rightarrow> d | Inr (d, _, _) \<Rightarrow> d)"

definition reconciled_effects :: "core_result + (ConsensusCore \<times> RaftLogEntry list \<times> ConsensusEffect list) \<Rightarrow> ConsensusEffect list" where
  "reconciled_effects r = (case r of Inl (_, f) \<Rightarrow> f | Inr (_, _, f) \<Rightarrow> f)"

lemma reconcile_entries_core:
  "\<exists>l. reconciled_core (reconcile_entries sha c newly effs es) = c\<lparr>log_tail := l\<rparr>"
proof (induction c newly effs es rule: reconcile_induct [of _ sha])
  case (nil c n f)
  then show ?case by (auto simp: reconciled_core_def intro: exI [of _ "log_tail c"])
next
  case (bad c n f e es)
  then show ?case by (auto simp: reconciled_core_def simp del: reconcile_entries.simps
        intro: exI [of _ "log_tail c"])
qed (auto simp del: reconcile_entries.simps)

lemma reconcile_entries_effects:
  "set (reconciled_effects (reconcile_entries sha c newly effs es)) \<subseteq>
     set effs \<union> range TruncateLogSuffixFrom"
  by (induction c newly effs es rule: reconcile_induct [of _ sha])
    (auto simp: reconciled_effects_def simp del: reconcile_entries.simps(2))

lemma reconcile_and_commit_cases:
  fixes sha c l es lc r effs
  obtains (rejected) tl f where "set f \<subseteq> set effs \<union> range TruncateLogSuffixFrom"
      "reconcile_entries sha c [] effs es = Inl (c\<lparr>log_tail := tl\<rparr>, f)"
      "reconcile_and_commit_entries sha c l es lc r effs =
        (c\<lparr>log_tail := tl\<rparr>, f @ [append_response c l False 0 None (sat_add64 (commit_index c) 1) r])"
  | (stored) tl newly d f where "d = c\<lparr>log_tail := tl\<rparr>"
      "set f \<subseteq> set effs \<union> range TruncateLogSuffixFrom"
      "reconcile_entries sha c [] effs es = Inr (d, newly, f)"
      "reconcile_and_commit_entries sha c l es lc r effs =
        (d\<lparr>commit_index := follower_target d lc\<rparr>, f @
          (if newly = [] then [] else [AppendLogEntries newly]) @ follower_advance d lc @
          [append_response c l True (last_log_index d) None 0 r])"
proof (cases "reconcile_entries sha c [] effs es")
  case (Inl x)
  then obtain d f where x: "x = (d, f)" by (cases x)
  obtain tl where tl: "d = c\<lparr>log_tail := tl\<rparr>"
    using reconcile_entries_core [of sha c "[]" effs es] by (auto simp: Inl x reconciled_core_def)
  have "set f \<subseteq> set effs \<union> range TruncateLogSuffixFrom"
    using reconcile_entries_effects [of sha c "[]" effs es] by (simp add: Inl x reconciled_effects_def)
  then show ?thesis
    by (rule rejected [of f tl])
      (simp_all add: Inl x tl reconcile_and_commit_entries_def append_response_def)
next
  case (Inr x)
  then obtain d n f where x: "x = (d, n, f)" by (cases x)
  obtain tl where tl: "d = c\<lparr>log_tail := tl\<rparr>"
    using reconcile_entries_core [of sha c "[]" effs es] by (auto simp: Inr x reconciled_core_def)
  have f: "set f \<subseteq> set effs \<union> range TruncateLogSuffixFrom"
    using reconcile_entries_effects [of sha c "[]" effs es] by (simp add: Inr x reconciled_effects_def)
  have last: "last_log_index (d\<lparr>commit_index := k\<rparr>) = last_log_index d" for k
    by (rule log_positions_cong) simp_all
  show ?thesis
    by (rule stored [OF tl f])
      (use last tl in \<open>simp_all add: Inr x reconcile_and_commit_entries_def
        append_response_def follower_commit_eq\<close>)
qed

section \<open>Splitting a step into its handlers\<close>

lemma core_step_rule [consumes 0, case_names ignored tick propose read pre_vote pre_vote_response
    vote vote_response append append_response chunk snapshot_response]:
  assumes "P Tick (on_tick sha c)"
    and "\<And>p e. P (Propose p e) (on_propose sha c p e)"
    and "\<And>r e. P (RequestLinearizableRead r e) (on_request_linearizable_read sha c r e)"
    and "\<And>from m. P (ReceiveMessage from m) (c, [])"
    and "\<And>pt cand li lt. roster_contains (roster c) cand \<Longrightarrow> cand \<noteq> local_id c \<Longrightarrow>
      P (ReceiveMessage cand (RequestPreVote pt cand li lt)) (on_request_pre_vote c pt cand li lt)"
    and "\<And>t pt v g. roster_contains (roster c) v \<Longrightarrow> v \<noteq> local_id c \<Longrightarrow>
      P (ReceiveMessage v (RequestPreVoteResponse t pt v g)) (on_request_pre_vote_response c t pt v g)"
    and "\<And>t cand li lt. roster_contains (roster c) cand \<Longrightarrow> cand \<noteq> local_id c \<Longrightarrow>
      P (ReceiveMessage cand (RequestVote t cand li lt)) (on_request_vote c t cand li lt)"
    and "\<And>t v g. roster_contains (roster c) v \<Longrightarrow> v \<noteq> local_id c \<Longrightarrow>
      P (ReceiveMessage v (RequestVoteResponse t v g)) (on_request_vote_response sha c t v g)"
    and "\<And>t l pi pt es lc r. roster_contains (roster c) l \<Longrightarrow> l \<noteq> local_id c \<Longrightarrow>
      P (ReceiveMessage l (AppendEntries t l pi pt es lc r)) (on_append_entries sha c t l pi pt es lc r)"
    and "\<And>t f s mi ct ci r. roster_contains (roster c) f \<Longrightarrow> f \<noteq> local_id c \<Longrightarrow>
      P (ReceiveMessage f (AppendEntriesResponse t f s mi ct ci r))
        (on_append_entries_response sha c t f s mi ct ci r)"
    and "\<And>t l ii it root tsha total_b off chunk d. roster_contains (roster c) l \<Longrightarrow> l \<noteq> local_id c \<Longrightarrow>
      P (ReceiveMessage l (InstallSnapshotChunk t l ii it root tsha total_b off chunk d))
        (on_install_snapshot_chunk sha c t l ii it root tsha total_b off chunk d)"
    and "\<And>t f ii no inst. roster_contains (roster c) f \<Longrightarrow> f \<noteq> local_id c \<Longrightarrow>
      P (ReceiveMessage f (InstallSnapshotResponse t f ii no inst))
        (on_install_snapshot_response sha c t f ii no inst)"
  shows "P i (core_step sha c i)"
proof (cases i)
  case (ReceiveMessage from_cell message)
  show ?thesis
  proof (cases "roster_contains (roster c) from_cell \<and> from_cell \<noteq> local_id c \<and>
      message_sender message = from_cell")
    case True
    then show ?thesis
      using assms(5-12) by (cases message) (auto simp: ReceiveMessage on_message_def)
  next
    case False
    then show ?thesis using assms(4) by (auto simp: ReceiveMessage on_message_def)
  qed
qed (use assms(1-3) in simp_all)

end
