(* ===== verification/RaftLog.thy ===== *)
theory RaftLog
  imports RaftFrames
begin

text \<open>
  The log of one replica: the retained tail is contiguous behind the snapshot, the commit index
  lies between the snapshot and the end of the log, and no step changes a committed entry. The
  facts hold for every input, messages from faulty peers included, as long as the indices in it
  leave room below \<open>u64::MAX\<close>.
\<close>

section \<open>Contiguous logs\<close>

definition contiguous :: "nat \<Rightarrow> RaftLogEntry list \<Rightarrow> bool" where
  "contiguous b es = (\<forall>i < length es. re_index (es ! i) = b + i)"

lemma contiguous_Nil [simp]: "contiguous b []"
  by (simp add: contiguous_def)

lemma contiguous_snoc [simp]:
  "contiguous b (es @ [e]) \<longleftrightarrow> contiguous b es \<and> re_index e = b + length es"
  by (auto simp: contiguous_def nth_append less_Suc_eq)

lemma contiguous_take [intro]: "contiguous b es \<Longrightarrow> contiguous b (take n es)"
  by (auto simp: contiguous_def)

lemma contiguous_drop: "contiguous b es \<Longrightarrow> contiguous (b + n) (drop n es)"
  by (auto simp: contiguous_def)

lemma contiguous_indices: "contiguous b es \<Longrightarrow> map re_index es = [b ..< b + length es]"
  by (rule nth_equalityI) (auto simp: contiguous_def)

lemma contiguous_filter_greater:
  assumes "contiguous (b + 1) es" "b \<le> k"
  shows "filter (\<lambda>e. re_index e > k) es = drop (k - b) es"
proof -
  have "filter (\<lambda>e. b + 1 + (k - b) \<le> re_index e) es = drop (k - b) es"
    by (rule filter_greater_contiguous) (use assms(1) in \<open>simp add: contiguous_def\<close>)
  then show ?thesis using assms(2) by (simp add: Suc_le_eq)
qed

lemma contiguous_filter_range:
  assumes "contiguous b es" "b \<le> lo" "lo \<le> hi" "hi < b + length es"
  shows "filter (\<lambda>e. lo \<le> re_index e \<and> re_index e \<le> hi) es = take (hi + 1 - lo) (drop (lo - b) es)"
proof -
  have split: "es = take (lo - b) es @ take (hi + 1 - lo) (drop (lo - b) es) @ drop (hi + 1 - b) es"
    using assms(2,3) append_take_drop_id [of "hi + 1 - lo" "drop (lo - b) es"]
    by (simp add: Suc_diff_le)
  have idx: "\<And>i. i < length es \<Longrightarrow> re_index (es ! i) = b + i"
    using assms(1) by (simp add: contiguous_def)
  have "filter (\<lambda>e. lo \<le> re_index e \<and> re_index e \<le> hi) (take (lo - b) es) = []"
    using idx by (auto simp: filter_empty_conv in_set_conv_nth)
  moreover have "filter (\<lambda>e. lo \<le> re_index e \<and> re_index e \<le> hi) (drop (hi + 1 - b) es) = []"
  proof -
    have "hi < re_index (drop (hi + 1 - b) es ! i)" if "i < length (drop (hi + 1 - b) es)" for i
      using that idx [of "hi + 1 - b + i"] assms(2,3) by simp
    then show ?thesis by (fastforce simp: filter_empty_conv in_set_conv_nth)
  qed
  moreover have "filter (\<lambda>e. lo \<le> re_index e \<and> re_index e \<le> hi) (take (hi + 1 - lo) (drop (lo - b) es))
      = take (hi + 1 - lo) (drop (lo - b) es)"
  proof -
    let ?t = "take (hi + 1 - lo) (drop (lo - b) es)"
    have "lo \<le> re_index (?t ! i) \<and> re_index (?t ! i) \<le> hi" if "i < length ?t" for i
      using that idx [of "lo - b + i"] assms by simp
    then show ?thesis by (auto simp: filter_id_conv in_set_conv_nth)
  qed
  ultimately show ?thesis by (subst split) simp
qed

section \<open>The log invariant\<close>

definition log_inv :: "ConsensusCore \<Rightarrow> bool" where
  "log_inv c = (contiguous (snapshot_index c + 1) (log_tail c) \<and> snapshot_index c < u64_max \<and>
     (\<forall>m. snapshot_meta c = Some m \<longrightarrow> 0 < included_index m) \<and>
     (snapshot_meta c = None \<longleftrightarrow> snapshot_bytes c = None) \<and>
     snapshot_index c \<le> commit_index c \<and>
     commit_index c \<le> snapshot_index c + length (log_tail c) \<and>
     snapshot_index c + length (log_tail c) \<le> u64_max)"

definition entry_at :: "ConsensusCore \<Rightarrow> LogIndex \<Rightarrow> RaftLogEntry option" where
  "entry_at c i = (if i \<le> snapshot_index c then None
     else log_get (log_tail c) (i - snapshot_index c - 1))"

lemma log_inv_contiguous: "log_inv c \<Longrightarrow> contiguous (snapshot_index c + 1) (log_tail c)"
  by (simp add: log_inv_def)

lemma log_inv_last_log_index:
  "log_inv c \<Longrightarrow> last_log_index c = snapshot_index c + length (log_tail c)"
  by (auto simp: log_inv_def last_log_index_def contiguous_def last_conv_nth snapshot_index_def
      split: option.split)

lemma log_inv_first_uncompacted:
  "log_inv c \<Longrightarrow> first_uncompacted_index c = snapshot_index c + 1"
  by (auto simp: log_inv_def first_uncompacted_index_def snapshot_index_def split: option.split)

lemma log_inv_commit_le: "log_inv c \<Longrightarrow> commit_index c \<le> last_log_index c"
  using log_inv_last_log_index by (simp add: log_inv_def)

lemma entry_at_index: "log_inv c \<Longrightarrow> entry_at c i = Some e \<Longrightarrow> re_index e = i"
  by (auto simp: entry_at_def log_inv_def contiguous_def log_get_def split: if_splits)

lemma entry_at_iff:
  "log_inv c \<Longrightarrow> (\<exists>e. entry_at c i = Some e) \<longleftrightarrow> snapshot_index c < i \<and> i \<le> last_log_index c"
  by (auto simp: entry_at_def log_get_def log_inv_last_log_index)

lemma entry_at_mem: "log_inv c \<Longrightarrow> e \<in> set (log_tail c) \<longleftrightarrow> entry_at c (re_index e) = Some e"
proof
  assume inv: "log_inv c" and "e \<in> set (log_tail c)"
  then obtain i where "i < length (log_tail c)" "log_tail c ! i = e"
    by (auto simp: in_set_conv_nth)
  moreover with inv have "re_index e = snapshot_index c + 1 + i"
    by (auto simp: log_inv_def contiguous_def)
  ultimately show "entry_at c (re_index e) = Some e" by (simp add: entry_at_def log_get_def)
next
  assume "entry_at c (re_index e) = Some e"
  then show "e \<in> set (log_tail c)" by (metis entry_at_def log_get_def nth_mem option.distinct(1) option.inject)
qed

lemma log_inv_term_at:
  "log_inv c \<Longrightarrow> snapshot_index c < i \<Longrightarrow> term_at c i = map_option re_term (entry_at c i)"
  by (auto simp: term_at_def term_at_tail_def entry_at_def Let_def log_inv_first_uncompacted
      snapshot_index_def split: option.split)

lemma log_inv_term_at_snapshot:
  "log_inv c \<Longrightarrow> snapshot_meta c = Some m \<Longrightarrow> term_at c (included_index m) = Some (included_term m)"
  by (auto simp: term_at_def log_inv_def)

lemma collect_range_committed:
  assumes "log_inv c" "snapshot_index c \<le> lo" "lo < hi" "hi \<le> last_log_index c"
  shows "map re_index (collect_range c (lo + 1) hi) = [lo + 1 ..< hi + 1]"
    and "\<forall>e\<in>set (collect_range c (lo + 1) hi). entry_at c (re_index e) = Some e"
proof -
  let ?b = "snapshot_index c + 1"
  have cont: "contiguous ?b (log_tail c)" by (rule log_inv_contiguous [OF assms(1)])
  have hi: "hi < ?b + length (log_tail c)"
    using assms(1,4) by (simp add: log_inv_last_log_index)
  have range: "collect_range c (lo + 1) hi = take (hi - lo) (drop (lo + 1 - ?b) (log_tail c))"
    using assms(2,3) hi contiguous_filter_range [OF cont, of "lo + 1" hi] by (simp add: collect_range_def)
  have drop: "contiguous (lo + 1) (drop (lo + 1 - ?b) (log_tail c))"
    using contiguous_drop [OF cont, of "lo + 1 - ?b"] assms(2) by simp
  then have "contiguous (lo + 1) (collect_range c (lo + 1) hi)"
    unfolding range by blast
  moreover have "length (collect_range c (lo + 1) hi) = hi - lo"
    unfolding range using hi assms(2,3) by simp
  ultimately show "map re_index (collect_range c (lo + 1) hi) = [lo + 1 ..< hi + 1]"
    using assms(3) by (simp add: contiguous_indices)
  show "\<forall>e\<in>set (collect_range c (lo + 1) hi). entry_at c (re_index e) = Some e"
    using assms(1) entry_at_mem by (auto simp: collect_range_def)
qed

section \<open>What a step may do to the log\<close>

definition log_advances :: "ConsensusCore \<Rightarrow> ConsensusCore \<Rightarrow> bool" where
  "log_advances c d = (log_inv d \<and> commit_index c \<le> commit_index d \<and>
     snapshot_index c \<le> snapshot_index d \<and>
     (\<forall>i. snapshot_index d < i \<and> i \<le> commit_index c \<longrightarrow> entry_at d i = entry_at c i))"

lemma log_advances_refl [intro, simp]: "log_inv c \<Longrightarrow> log_advances c c"
  by (simp add: log_advances_def)

lemma log_advances_trans: "log_advances c d \<Longrightarrow> log_advances d e \<Longrightarrow> log_advances c e"
  unfolding log_advances_def by (metis le_trans le_less_trans)

lemma log_advances_inv: "log_advances c d \<Longrightarrow> log_inv d"
  by (simp add: log_advances_def)

lemma log_inv_cong:
  assumes "snapshot_meta d = snapshot_meta c" "snapshot_bytes d = snapshot_bytes c"
    "log_tail d = log_tail c" "commit_index d = commit_index c"
  shows "log_inv d = log_inv c"
  using assms by (simp add: log_inv_def log_positions_cong(1) [OF assms(1,3)])

lemma log_advances_cong:
  assumes "snapshot_meta d = snapshot_meta d'" "snapshot_bytes d = snapshot_bytes d'"
    "log_tail d = log_tail d'" "commit_index d = commit_index d'"
  shows "log_advances c d = log_advances c d'"
  using assms log_inv_cong [OF assms] log_positions_cong(1) [OF assms(1,3)]
  by (simp add: log_advances_def entry_at_def)

lemma log_advances_like:
  assumes "log_advances c d'" "snapshot_meta d = snapshot_meta d'" "snapshot_bytes d = snapshot_bytes d'"
    "log_tail d = log_tail d'" "commit_index d = commit_index d'"
  shows "log_advances c d"
  using assms(1) log_advances_cong [OF assms(2-5), of c] by blast

text \<open>Only four fields of the new core matter to the log; rewriting with \<open>log_advances_view\<close> leaves
  those.\<close>

definition log_advances_to ::
  "ConsensusCore \<Rightarrow> SnapshotMetadata option \<Rightarrow> byte list option \<Rightarrow> RaftLogEntry list \<Rightarrow> LogIndex \<Rightarrow> bool" where
  "log_advances_to c m b l k =
     log_advances c (c\<lparr>snapshot_meta := m, snapshot_bytes := b, log_tail := l, commit_index := k\<rparr>)"

lemma log_advances_view:
  "log_advances c d = log_advances_to c (snapshot_meta d) (snapshot_bytes d) (log_tail d) (commit_index d)"
  unfolding log_advances_to_def by (rule log_advances_cong) simp_all

lemma log_advances_to_same:
  "log_inv c \<Longrightarrow> snapshot_meta c = m \<Longrightarrow>
   log_advances_to c m (snapshot_bytes c) (log_tail c) (commit_index c)"
  using log_advances_refl [of c] by (simp add: log_advances_view)

lemma log_advances_same:
  assumes "log_inv c" "snapshot_meta d = snapshot_meta c" "snapshot_bytes d = snapshot_bytes c"
    "log_tail d = log_tail c" "commit_index d = commit_index c"
  shows "log_advances c d"
  using assms(1) log_advances_cong [OF assms(2-5), of c] by blast

lemma log_advances_commit:
  assumes "log_inv c" "commit_index c \<le> k" "k \<le> last_log_index c"
  shows "log_advances c (c\<lparr>commit_index := k\<rparr>)"
  using assms by (auto simp: log_advances_def log_inv_def log_inv_last_log_index [OF assms(1)]
      entry_at_def snapshot_index_def)

lemma log_advances_append:
  assumes "log_inv c" "re_index e = last_log_index c + 1" "re_index e \<le> u64_max"
  shows "log_advances c (c\<lparr>log_tail := log_tail c @ [e]\<rparr>)"
proof -
  have idx: "snapshot_index (c\<lparr>log_tail := log_tail c @ [e]\<rparr>) = snapshot_index c"
    by (simp add: snapshot_index_def)
  show ?thesis
    using assms by (auto simp: log_advances_def log_inv_def idx entry_at_def log_get_def nth_append
        log_inv_last_log_index [OF assms(1)])
qed

lemma log_advances_replace:
  assumes "log_inv c" "pos < length (log_tail c)" "re_index e = snapshot_index c + 1 + pos"
    "commit_index c < re_index e"
  shows "log_advances c (c\<lparr>log_tail := take pos (log_tail c) @ [e]\<rparr>)"
proof -
  have idx: "snapshot_index (c\<lparr>log_tail := take pos (log_tail c) @ [e]\<rparr>) = snapshot_index c"
    by (simp add: snapshot_index_def)
  show ?thesis
    using assms by (auto simp: log_advances_def log_inv_def idx entry_at_def log_get_def nth_append
        min_def)
qed

section \<open>Steps of the core\<close>

fun message_in_range :: "RaftMessage \<Rightarrow> bool" where
  "message_in_range (AppendEntries t l pi pt es lc r) = (\<forall>e\<in>set es. re_index e \<le> u64_max)"
| "message_in_range (InstallSnapshotChunk t l ii it root tsha total_b off chunk d) = (ii < u64_max)"
| "message_in_range m = True"

fun input_in_range :: "ConsensusInput \<Rightarrow> bool" where
  "input_in_range (ReceiveMessage from m) = message_in_range m"
| "input_in_range i = True"

lemma reconcile_entries_log:
  assumes "log_inv c" "\<forall>e\<in>set es. re_index e \<le> u64_max"
  shows "log_advances c (reconciled_core (reconcile_entries sha c newly effs es))"
  using assms
proof (induction c newly effs es rule: reconcile_induct [of _ sha])
  case (nil c n f)
  then show ?case by (simp add: reconciled_core_def)
next
  case (bad c n f e es)
  then show ?case by (simp add: reconciled_core_def del: reconcile_entries.simps)
next
  case (skip c n f e es)
  then show ?case by (simp del: reconcile_entries.simps)
next
  case (replace c n f e es pos d)
  have adv: "log_advances c d"
    using replace log_inv_first_uncompacted [OF replace.prems(1)]
    by (auto intro!: log_advances_replace)
  from replace.IH replace.prems(2) log_advances_inv [OF adv] adv show ?case
    by (auto simp: replace.hyps(8) simp del: reconcile_entries.simps intro: log_advances_trans)
next
  case (push c n f e es d)
  have adv: "log_advances c d"
    using push log_inv_first_uncompacted [OF push.prems(1)] log_inv_last_log_index [OF push.prems(1)]
    by (auto intro!: log_advances_append)
  from push.IH push.prems(2) log_advances_inv [OF adv] adv show ?case
    by (auto simp: push.hyps(5) simp del: reconcile_entries.simps intro: log_advances_trans)
qed

lemma follower_commit_log:
  assumes "log_inv d"
  shows "log_advances d (d\<lparr>commit_index := follower_target d lc\<rparr>)"
  using assms log_inv_commit_le [OF assms] by (intro log_advances_commit) (auto simp: follower_target_def)

lemma reconcile_and_commit_log:
  assumes "log_inv c" "\<forall>e\<in>set es. re_index e \<le> u64_max"
  shows "log_advances c (fst (reconcile_and_commit_entries sha c l es lc r effs))"
proof (cases rule: reconcile_and_commit_cases [of effs sha c es l lc r])
  case (stored tl newly d f)
  with reconcile_entries_log [OF assms, of sha "[]" effs] have adv: "log_advances c d"
    by (simp add: reconciled_core_def)
  show ?thesis
    using log_advances_trans [OF adv follower_commit_log [OF log_advances_inv [OF adv]]] stored by simp
qed (use reconcile_entries_log [OF assms, of sha "[]" effs] in \<open>simp add: reconciled_core_def\<close>)

lemma leader_contact_log:
  assumes "log_inv c"
  shows "log_advances c (leader_contact t l c)" and "log_inv (leader_contact t l c)"
    and "log_advances c ((leader_contact t l c)\<lparr>inbound_snapshot := x\<rparr>)"
  using assms by (auto intro!: log_advances_same intro: log_advances_inv)

lemma on_append_entries_log:
  assumes "log_inv c" "\<forall>e\<in>set es. re_index e \<le> u64_max"
  shows "log_advances c (fst (on_append_entries sha c t l pi pt es lc r))"
proof (cases rule: on_append_entries_cases [of t c sha l pi pt es lc r])
  case (below e es2)
  then have "set (e # es2) \<subseteq> set es" by (metis filter_is_subset)
  then show ?thesis
    using below assms log_advances_trans [OF leader_contact_log(1) reconcile_and_commit_log]
      leader_contact_log(2) by (metis subsetD)
next
  case match
  then show ?thesis
    using assms log_advances_trans [OF leader_contact_log(1) reconcile_and_commit_log]
      leader_contact_log(2) by metis
qed (use assms(1) leader_contact_log(1) in simp_all)

lemma install_completed_log:
  assumes "log_inv c" "commit_index c < included_index m" "included_index m < u64_max"
  shows "log_advances c (fst (install_completed c l m buf total_b effs))"
proof -
  let ?k = "included_index m"
  let ?tail = "if term_at c ?k = Some (included_term m) then filter (\<lambda>e. re_index e > ?k) (log_tail c) else []"
  have snap: "snapshot_index c < ?k" using assms(1,2) by (auto simp: log_inv_def)
  have cont: "contiguous (?k + 1) ?tail \<and> ?k + length ?tail \<le> u64_max"
  proof (cases "term_at c ?k = Some (included_term m)")
    case True
    have drop: "filter (\<lambda>e. re_index e > ?k) (log_tail c) = drop (?k - snapshot_index c) (log_tail c)"
      using snap contiguous_filter_greater [of "snapshot_index c" "log_tail c" ?k] assms(1)
      by (simp add: log_inv_def)
    from True have "\<exists>e. entry_at c ?k = Some e"
      using log_inv_term_at [OF assms(1) snap] by auto
    then have "?k \<le> last_log_index c" using entry_at_iff [OF assms(1)] by blast
    then show ?thesis
      using True snap assms(1) drop contiguous_drop [of "snapshot_index c + 1" "log_tail c" "?k - snapshot_index c"]
      by (auto simp: log_inv_def log_inv_last_log_index)
  next
    case False
    then show ?thesis using assms(3) by simp
  qed
  then show ?thesis
    using assms snap
    by (auto simp: install_completed_def Let_def log_advances_def log_inv_def snapshot_index_def)
qed

lemma on_install_snapshot_chunk_log:
  assumes "log_inv c" "ii < u64_max"
  shows "log_advances c (fst (on_install_snapshot_chunk sha c t l ii it root tsha b off chunk d))"
proof (cases rule: on_install_snapshot_chunk_cases [of t c sha l ii it root tsha b off chunk d])
  case (install buf)
  let ?d = "(leader_contact t l c)\<lparr>inbound_snapshot := None\<rparr>"
  have adv: "log_advances c ?d" by (rule leader_contact_log(3) [OF assms(1)])
  show ?thesis
    unfolding install(5)
    by (rule log_advances_trans [OF adv install_completed_log])
      (use install(2) assms(2) log_advances_inv [OF adv] in simp_all)
qed (use assms(1) leader_contact_log(3) in simp_all)

lemma leader_advance_log:
  assumes "log_inv c"
  shows "log_advances c (c\<lparr>commit_index := best_commit c\<rparr>)"
  by (rule log_advances_commit [OF assms])
    (use best_commit_cases [of c] log_inv_commit_le [OF assms] in auto)

lemma on_propose_log:
  assumes "log_inv c" "last_log_index c < u64_max"
  shows "log_advances c (fst (on_propose sha c p e))"
proof -
  let ?e = "log_entry_new sha (last_log_index c + 1) (current_term c) p"
  let ?d = "c\<lparr>log_tail := log_tail c @ [?e]\<rparr>"
  have adv: "log_advances c ?d"
    using assms by (intro log_advances_append) (auto simp: log_entry_new_def)
  have last: "last_log_index ?d = last_log_index c + 1"
    by (simp add: last_log_index_def log_entry_new_def)
  have commit: "log_advances c (?d\<lparr>commit_index := last_log_index c + 1\<rparr>)"
    by (rule log_advances_trans [OF adv log_advances_commit])
      (use last log_advances_inv [OF adv] log_inv_commit_le [OF assms(1)] in auto)
  show ?thesis
    using assms adv commit
    by (auto simp: on_propose_def core_eqs Let_def log_advances_view log_advances_to_same split: sum.split)
qed

lemma matched_advance_log:
  assumes "log_inv c" "snapshot_meta c = m"
  shows "log_advances_to c m (snapshot_bytes c) (log_tail c) (best_commit (record_match f k c))"
proof -
  let ?d = "record_match f k c"
  have d: "log_advances c ?d" using assms(1) by (auto intro!: log_advances_same)
  have "log_advances c (?d\<lparr>commit_index := best_commit ?d\<rparr>)"
    by (rule log_advances_trans [OF d leader_advance_log [OF log_advances_inv [OF d]]])
  then show ?thesis using assms(2) by (simp add: log_advances_view)
qed

lemma replication_responses_log:
  assumes "log_inv c"
  shows "log_advances c (fst (on_append_entries_response sha c t f s mi ct ci r))"
    and "log_advances c (fst (on_install_snapshot_response sha c t f ii no inst))"
  using assms
  by (auto simp: on_append_entries_response_def on_append_accepted_def on_append_conflict_def
      on_install_snapshot_response_def on_snapshot_installed_def core_eqs Let_def log_advances_view
      log_advances_to_same matched_advance_log split: option.split)

lemma election_handlers_log:
  assumes "log_inv c"
  shows "log_advances c (fst (on_tick sha c))"
    and "log_advances c (fst (on_request_linearizable_read sha c r e))"
    and "log_advances c (fst (on_request_pre_vote c pt cand li lt))"
    and "log_advances c (fst (on_request_pre_vote_response c t pt v g))"
    and "log_advances c (fst (on_request_vote c t cand li lt))"
    and "log_advances c (fst (on_request_vote_response sha c t v g))"
  using assms
  by (auto intro!: log_advances_same simp: on_tick_def on_request_linearizable_read_def
      on_request_pre_vote_def on_request_pre_vote_response_def on_request_vote_def
      on_request_vote_response_def become_leader_def start_pre_vote_def start_real_election_def
      core_eqs Let_def split: sum.split option.split bool.split)

theorem core_step_log:
  assumes "log_inv c" "input_in_range i" "last_log_index c < u64_max"
  shows "log_advances c (fst (core_step sha c i))"
  using assms(2)
proof (rule core_step_rule [where P = "\<lambda>i r. input_in_range i \<longrightarrow> log_advances c (fst r)", THEN mp, rotated -1])
qed (use assms election_handlers_log [OF assms(1)] on_propose_log [OF assms(1,3)]
    on_append_entries_log [OF assms(1)] replication_responses_log [OF assms(1)]
    on_install_snapshot_chunk_log [OF assms(1)] in auto)

end
