(* ===== verification/RaftCommit.thy ===== *)
theory RaftCommit
  imports RaftLog
begin

text \<open>
  Commit: which entries an \<open>AdvanceCommitIndex\<close> effect carries and when a replica may emit one,
  local snapshots, and the runs of one core with its log invariant.
\<close>

section \<open>Effects that advance the commit index\<close>

definition advance_ok :: "ConsensusCore \<Rightarrow> ConsensusCore \<Rightarrow> LogIndex \<Rightarrow> ConsensusTerm \<Rightarrow> RaftLogEntry list \<Rightarrow> bool" where
  "advance_ok c d k t es = (k = commit_index d \<and> commit_index c < k \<and> t = current_term d \<and>
     map re_index es = [commit_index c + 1 ..< k + 1] \<and>
     (\<forall>e\<in>set es. entry_at d (re_index e) = Some e))"

lemma advance_ok_collect:
  assumes "log_inv c" "commit_index c < k" "k \<le> last_log_index c"
    "commit_index d = k" "current_term d = current_term c" "snapshot_meta d = snapshot_meta c"
    "log_tail d = log_tail c"
  shows "advance_ok c d k (current_term c) (collect_range c (commit_index c + 1) k)"
proof -
  have "snapshot_index c \<le> commit_index c" using assms(1) by (simp add: log_inv_def)
  moreover have "entry_at d i = entry_at c i" for i
    using assms(7) log_positions_cong(1) [OF assms(6,7)] by (simp add: entry_at_def)
  ultimately show ?thesis
    using collect_range_committed [OF assms(1) _ assms(2,3)] assms(2,4,5)
    by (simp add: advance_ok_def del: upt_Suc)
qed

lemma leader_advance_mem:
  "AdvanceCommitIndex k t es \<in> set (leader_advance c) \<longleftrightarrow>
     k = best_commit c \<and> commit_index c < k \<and> t = current_term c \<and>
     es = collect_range c (commit_index c + 1) k"
  by (auto simp: leader_advance_def try_advance_leader_commit_def Let_def)

lemma follower_advance_mem:
  "AdvanceCommitIndex k t es \<in> set (follower_advance c lc) \<longleftrightarrow>
     k = follower_target c lc \<and> commit_index c < k \<and> t = current_term c \<and>
     es = collect_range c (commit_index c + 1) k"
  by (auto simp: follower_advance_def follower_commit_def follower_target_def Let_def max_def min_def)

lemma no_advance_effects [simp]:
  "AdvanceCommitIndex k t es \<notin> set (step_down_effects t' c)"
  "AdvanceCommitIndex k t es \<notin> set (caught_up_effects t' c)"
  "AdvanceCommitIndex k t es \<notin> set (swept_reads c)"
  "AdvanceCommitIndex k t es \<notin> set (broadcast_replication_or_heartbeat sha c r)"
  using set_step_down_effects [of t' c]
  by (auto simp: caught_up_effects_def swept_reads_def sweep_confirmed_quorum_rounds_def Let_def
      set_broadcast)

lemma no_advance_replies [simp]:
  "append_response c l s mi ct ci r \<noteq> AdvanceCommitIndex k t es"
  "snapshot_response c l ii no inst \<noteq> AdvanceCommitIndex k t es"
  "AdvanceCommitIndex k t es \<noteq> append_response c l s mi ct ci r"
  "AdvanceCommitIndex k t es \<noteq> snapshot_response c l ii no inst"
  by (simp_all add: append_response_def snapshot_response_def)

lemma reconcile_and_commit_advance:
  assumes "log_inv c" "\<forall>e\<in>set es. re_index e \<le> u64_max" "AdvanceCommitIndex k t es' \<notin> set effs"
    "AdvanceCommitIndex k t es' \<in> set (snd (reconcile_and_commit_entries sha c l es lc r effs))"
  shows "advance_ok c (fst (reconcile_and_commit_entries sha c l es lc r effs)) k t es' \<and> k \<le> lc \<and>
    t = current_term c"
proof (cases rule: reconcile_and_commit_cases [of effs sha c es l lc r])
  case (stored tl newly d f)
  with reconcile_entries_log [OF assms(1,2), of sha "[]" effs] have inv: "log_inv d"
    by (auto simp: reconciled_core_def intro: log_advances_inv)
  have mem: "AdvanceCommitIndex k t es' \<in> set (follower_advance d lc)"
    using assms(3,4) stored(2,4) by (auto split: if_splits)
  have k: "k = follower_target d lc" "commit_index d < k" "k \<le> last_log_index d" "k \<le> lc"
    using mem log_inv_commit_le [OF inv]
    by (auto simp: follower_advance_mem follower_target_def max_def split: if_splits)
  have "advance_ok d (d\<lparr>commit_index := k\<rparr>) k (current_term d) (collect_range d (commit_index d + 1) k)"
    by (rule advance_ok_collect) (use inv k in simp_all)
  then show ?thesis
    using mem k(1,4) stored(1,4) by (simp add: follower_advance_mem advance_ok_def)
qed (use assms(3,4) in auto)

lemma leader_contact_advance:
  assumes "log_inv c" "current_term c \<le> t" "\<forall>e\<in>set es. re_index e \<le> u64_max"
    "AdvanceCommitIndex k t' es' \<in> set (snd (reconcile_and_commit_entries sha (leader_contact t l c) l es
      lc r (caught_up_effects t c)))"
  shows "advance_ok c (fst (reconcile_and_commit_entries sha (leader_contact t l c) l es
      lc r (caught_up_effects t c))) k t' es' \<and> k \<le> lc \<and> t' = t"
  using reconcile_and_commit_advance [OF leader_contact_log(2) assms(3) no_advance_effects(2) assms(4)] assms(1,2)
  by (auto simp: advance_ok_def)

lemma on_append_entries_advance:
  assumes "log_inv c" "\<forall>e\<in>set es. re_index e \<le> u64_max"
    "AdvanceCommitIndex k t' es' \<in> set (snd (on_append_entries sha c t l pi pt es lc r))"
  shows "advance_ok c (fst (on_append_entries sha c t l pi pt es lc r)) k t' es' \<and> k \<le> lc \<and> t' = t"
proof (cases rule: on_append_entries_cases [of t c sha l pi pt es lc r])
  case (below e es2)
  then have "set (e # es2) \<subseteq> set es" by (metis filter_is_subset)
  with below assms leader_contact_advance [OF assms(1) below(1), of "e # es2"] show ?thesis
    by (metis subsetD)
next
  case match
  with assms leader_contact_advance [OF assms(1) match(1), of es] show ?thesis by metis
qed (use assms(3) in simp_all)

section \<open>What a leader may commit\<close>

definition commits_by_quorum :: "ConsensusCore \<Rightarrow> LogIndex \<Rightarrow> bool" where
  "commits_by_quorum d k = (role d = Leader \<and> term_at d k = Some (current_term d) \<and>
     quorum_size (roster d) \<le> card (replicated_domains d k))"

lemma leader_advance_quorum:
  assumes "role c = Leader" "AdvanceCommitIndex k t es \<in> set (leader_advance c)"
    "role d = role c" "current_term d = current_term c" "roster d = roster c"
    "match_index d = match_index c" "snapshot_meta d = snapshot_meta c" "log_tail d = log_tail c"
  shows "commits_by_quorum d k"
proof -
  have "best_commit c \<noteq> commit_index c" "k = best_commit c"
    using assms(2) by (auto simp: leader_advance_mem)
  then show ?thesis
    using best_commit_cases [of c] assms log_positions_cong(5) [OF assms(7,8)]
    by (auto simp: commits_by_quorum_def replicated_domains_def)
qed

lemma leader_advance_ok:
  assumes "log_inv c" "AdvanceCommitIndex k t es \<in> set (leader_advance c)"
    "commit_index d = best_commit c" "current_term d = current_term c"
    "snapshot_meta d = snapshot_meta c" "log_tail d = log_tail c"
  shows "advance_ok c d k t es"
proof -
  have k: "k = best_commit c" "commit_index c < k" "t = current_term c"
    "es = collect_range c (commit_index c + 1) k"
    using assms(2) by (auto simp: leader_advance_mem)
  then have "k \<le> last_log_index c" using best_commit_cases [of c] by auto
  with k show ?thesis using advance_ok_collect [OF assms(1)] assms(3-6) by simp
qed

lemma on_append_accepted_advance:
  assumes "log_inv c" "role c = Leader"
    "AdvanceCommitIndex k t es \<in> set (snd (on_append_accepted sha c f mi r))"
  shows "advance_ok c (fst (on_append_accepted sha c f mi r)) k t es \<and>
    commits_by_quorum (fst (on_append_accepted sha c f mi r)) k"
proof -
  define m where "m = min (max (bt_get_or 0 (match_index c) f) mi) (last_log_index c)"
  let ?c = "record_match f m c"
  let ?d = "fst (on_append_accepted sha c f mi r)"
  have d: "commit_index ?d = best_commit ?c" "current_term ?d = current_term ?c"
    "snapshot_meta ?d = snapshot_meta ?c" "log_tail ?d = log_tail ?c" "role ?d = role ?c"
    "roster ?d = roster ?c" "match_index ?d = match_index ?c"
    by (simp_all add: on_append_accepted_def core_eqs Let_def m_def)
  have mem: "AdvanceCommitIndex k t es \<in> set (leader_advance ?c)"
    using assms(3)
    by (simp add: on_append_accepted_def core_eqs Let_def m_def del: record_match_sel split: if_splits)
  have inv: "log_inv ?c" using assms(1) by (simp add: log_inv_cong [of ?c c])
  have "advance_ok ?c ?d k t es" by (rule leader_advance_ok [OF inv mem d(1-4)])
  then show ?thesis
    using leader_advance_quorum [OF _ mem d(5,2,6,7,3,4)] assms(2) by (simp add: advance_ok_def)
qed

lemma on_snapshot_installed_advance:
  assumes "log_inv c" "role c = Leader"
    "AdvanceCommitIndex k t es \<in> set (snd (on_snapshot_installed sha c f ii))"
  shows "advance_ok c (fst (on_snapshot_installed sha c f ii)) k t es \<and>
    commits_by_quorum (fst (on_snapshot_installed sha c f ii)) k"
proof -
  define m where "m = max (bt_get_or 0 (match_index c) f) ii"
  let ?c = "record_match f m c"
  let ?d = "fst (on_snapshot_installed sha c f ii)"
  have d: "commit_index ?d = best_commit ?c" "current_term ?d = current_term ?c"
    "snapshot_meta ?d = snapshot_meta ?c" "log_tail ?d = log_tail ?c" "role ?d = role ?c"
    "roster ?d = roster ?c" "match_index ?d = match_index ?c"
    by (simp_all add: on_snapshot_installed_def core_eqs Let_def m_def)
  have mem: "AdvanceCommitIndex k t es \<in> set (leader_advance ?c)"
    using assms(3)
    by (simp add: on_snapshot_installed_def core_eqs Let_def m_def split: if_splits)
  have inv: "log_inv ?c" using assms(1) by (simp add: log_inv_cong [of ?c c])
  have "advance_ok ?c ?d k t es" by (rule leader_advance_ok [OF inv mem d(1-4)])
  then show ?thesis
    using leader_advance_quorum [OF _ mem d(5,2,6,7,3,4)] assms(2) by (simp add: advance_ok_def)
qed

section \<open>Steps\<close>

definition same_identity :: "ConsensusCore \<Rightarrow> ConsensusCore \<Rightarrow> bool" where
  "same_identity c d = (local_id d = local_id c \<and> local_domain d = local_domain c \<and>
     roster d = roster c \<and> timing d = timing c)"

lemma reconcile_and_commit_identity:
  "same_identity c (fst (reconcile_and_commit_entries sha c l es lc r effs))"
  by (cases rule: reconcile_and_commit_cases [of effs sha c es l lc r])
    (simp_all add: same_identity_def)

lemma core_step_identity: "same_identity c (fst (core_step sha c i))"
proof (rule core_step_rule [where P = "\<lambda>i r. same_identity c (fst r)"])
  fix t l pi pt es lc r
  show "same_identity c (fst (on_append_entries sha c t l pi pt es lc r))"
    using reconcile_and_commit_identity [of "leader_contact t l c"]
    by (cases rule: on_append_entries_cases [of t c sha l pi pt es lc r])
      (simp_all add: same_identity_def)
next
  fix t l ii it root tsha total_b off chunk d
  show "same_identity c (fst (on_install_snapshot_chunk sha c t l ii it root tsha total_b off chunk d))"
    by (cases rule: on_install_snapshot_chunk_cases [of t c sha l ii it root tsha total_b off chunk d])
      (simp_all add: same_identity_def install_completed_def Let_def)
qed (auto simp: same_identity_def on_tick_def on_propose_def on_request_linearizable_read_def
    on_request_pre_vote_def on_request_pre_vote_response_def on_request_vote_def
    on_request_vote_response_def become_leader_def start_pre_vote_def start_real_election_def
    on_append_entries_response_def on_append_accepted_def on_append_conflict_def
    on_install_snapshot_response_def on_snapshot_installed_def
    core_eqs Let_def split: sum.split option.split bool.split)

definition core_inv :: "ConsensusCore \<Rightarrow> bool" where
  "core_inv c = (log_inv c \<and> roster_contains (roster c) (local_id c) \<and>
     (length (roster c) = 1 \<longrightarrow> commit_index c = last_log_index c))"

lemma lone_roster_ignores:
  assumes "core_inv c" "length (roster c) = 1" "roster_contains (roster c) x"
  shows "x = local_id c"
  using assms by (cases "roster c") (auto simp: core_inv_def roster_contains_def)

lemma on_propose_commit:
  fixes sha p e
  assumes "core_inv c" "last_log_index c < u64_max"
  defines "d \<equiv> fst (on_propose sha c p e)"
  shows "length (roster c) = 1 \<Longrightarrow> commit_index d = last_log_index d"
    and "AdvanceCommitIndex k t es \<in> set (snd (on_propose sha c p e)) \<Longrightarrow>
      length (roster c) = 1 \<and> advance_ok c d k t es"
proof -
  let ?e = "log_entry_new sha (last_log_index c + 1) (current_term c) p"
  have inv: "log_inv c" using assms(1) by (simp add: core_inv_def)
  have e: "re_index ?e = last_log_index c + 1" by (simp add: log_entry_new_def)
  have tail: "last_log_index d = last_log_index c + 1 \<and> entry_at d (last_log_index c + 1) = Some ?e"
    if "log_tail d = log_tail c @ [?e]" "snapshot_meta d = snapshot_meta c" for d
    using that e log_inv_last_log_index [OF inv]
    by (simp add: last_log_index_def entry_at_def log_get_def snapshot_index_def)
  show "length (roster c) = 1 \<Longrightarrow> commit_index d = last_log_index d"
    using assms tail [of d]
    by (auto simp: d_def on_propose_def core_inv_def Let_def split: sum.split)
  show "AdvanceCommitIndex k t es \<in> set (snd (on_propose sha c p e)) \<Longrightarrow>
      length (roster c) = 1 \<and> advance_ok c d k t es"
    using assms tail [of d] e
    by (auto simp: d_def on_propose_def core_inv_def core_eqs Let_def advance_ok_def set_broadcast
        split: sum.splits if_splits)
qed

lemma core_inv_step:
  assumes "core_inv c" "input_in_range i" "last_log_index c < u64_max"
  shows "core_inv (fst (core_step sha c i))"
proof -
  have inv: "log_inv c" using assms(1) by (simp add: core_inv_def)
  have "log_inv (fst (core_step sha c i))"
    by (rule log_advances_inv [OF core_step_log [OF inv assms(2,3)]])
  moreover have "length (roster c) = 1 \<longrightarrow>
      commit_index (fst (core_step sha c i)) = last_log_index (fst (core_step sha c i))"
  proof (rule core_step_rule [where P = "\<lambda>i r. length (roster c) = 1 \<longrightarrow> commit_index (fst r) = last_log_index (fst r)"])
    fix p e
    show "length (roster c) = 1 \<longrightarrow> commit_index (fst (on_propose sha c p e)) = last_log_index (fst (on_propose sha c p e))"
      using on_propose_commit(1) [OF assms(1,3)] by blast
  qed (use lone_roster_ignores [OF assms(1)] assms(1) in \<open>auto simp: core_inv_def on_tick_def
      on_request_linearizable_read_def split: sum.split\<close>)
  ultimately show ?thesis
    using core_step_identity [of c sha i] assms(1) by (simp add: core_inv_def same_identity_def)
qed

definition follows_leader_commit :: "ConsensusInput \<Rightarrow> ConsensusTerm \<Rightarrow> LogIndex \<Rightarrow> bool" where
  "follows_leader_commit i t k =
     (case i of ReceiveMessage from (AppendEntries t' l pi pt es lc r) \<Rightarrow> t' = t \<and> k \<le> lc | _ \<Rightarrow> False)"

lemma core_step_advance:
  assumes "core_inv c" "input_in_range i" "last_log_index c < u64_max"
    "AdvanceCommitIndex k t es \<in> set (snd (core_step sha c i))"
  shows "advance_ok c (fst (core_step sha c i)) k t es \<and>
    (length (roster c) = 1 \<or> commits_by_quorum (fst (core_step sha c i)) k \<or> follows_leader_commit i t k)"
proof -
  have inv: "log_inv c" using assms(1) by (simp add: core_inv_def)
  let ?P = "\<lambda>i res. input_in_range i \<longrightarrow> AdvanceCommitIndex k t es \<in> set (snd res) \<longrightarrow>
    advance_ok c (fst res) k t es \<and>
    (length (roster c) = 1 \<or> commits_by_quorum (fst res) k \<or> follows_leader_commit i t k)"
  have "?P i (core_step sha c i)"
  proof (rule core_step_rule [where P = ?P])
    fix p e
    show "?P (Propose p e) (on_propose sha c p e)"
      using on_propose_commit(2) [OF assms(1,3)] by blast
  next
    fix t' l pi pt es' lc r
    show "?P (ReceiveMessage l (AppendEntries t' l pi pt es' lc r)) (on_append_entries sha c t' l pi pt es' lc r)"
      using on_append_entries_advance [OF inv, of es' k t es sha t' l pi pt lc r]
      by (auto simp: follows_leader_commit_def)
  next
    fix t' f s mi ct ci r
    show "?P (ReceiveMessage f (AppendEntriesResponse t' f s mi ct ci r))
      (on_append_entries_response sha c t' f s mi ct ci r)"
      using on_append_accepted_advance [OF inv]
      by (auto simp: on_append_entries_response_def on_append_conflict_def core_eqs Let_def)
  next
    fix t' l ii it root tsha total_b off chunk d
    show "?P (ReceiveMessage l (InstallSnapshotChunk t' l ii it root tsha total_b off chunk d))
      (on_install_snapshot_chunk sha c t' l ii it root tsha total_b off chunk d)"
      by (cases rule: on_install_snapshot_chunk_cases [of t' c sha l ii it root tsha total_b off chunk d])
        (simp_all add: install_completed_def Let_def)
  next
    fix t' f ii no inst
    show "?P (ReceiveMessage f (InstallSnapshotResponse t' f ii no inst))
      (on_install_snapshot_response sha c t' f ii no inst)"
      using on_snapshot_installed_advance [OF inv]
      by (auto simp: on_install_snapshot_response_def core_eqs Let_def split: option.splits if_splits)
  qed (auto simp: on_tick_def on_request_linearizable_read_def
      on_request_pre_vote_def on_request_pre_vote_response_def on_request_vote_def
      on_request_vote_response_def become_leader_def start_pre_vote_def start_real_election_def
      core_eqs Let_def set_broadcast split: sum.splits option.splits bool.splits if_splits)
  with assms(2,4) show ?thesis by blast
qed

end
