(* ===== verification/RaftExec.thy ===== *)
theory RaftExec
  imports RaftCommit
begin

text \<open>
  Symbolic execution of the consensus core: the rewrite rules under which \<open>simp\<close> runs the handlers
  on a concrete core, for every hash function, and a three-replica configuration on which the
  witnesses and the concrete runs are evaluated.
\<close>

named_theorems core_exec \<open>equations that run the core\<close>

definition core_feed :: "sha256_fn \<Rightarrow> ConsensusCore \<Rightarrow> ConsensusInput list \<Rightarrow> ConsensusCore" where
  "core_feed sha c inputs = foldl (\<lambda>c i. fst (core_step sha c i)) c inputs"

lemma core_feed_simps [simp]:
  "core_feed sha c [] = c"
  "core_feed sha c (i # inputs) = core_feed sha (fst (core_step sha c i)) inputs"
  by (simp_all add: core_feed_def)

lemma log_entry_new_sel [simp]:
  "re_index (log_entry_new sha i t p) = i" "re_term (log_entry_new sha i t p) = t"
  "re_proposal (log_entry_new sha i t p) = p"
  by (simp_all add: log_entry_new_def)

lemma verify_integrity_new [simp]: "verify_integrity sha (log_entry_new sha i t p)"
  by (simp add: verify_integrity_def log_entry_new_def)

lemma image_set_filter:
  "f ` set (filter P xs) = foldr (\<lambda>x s. if P x then insert (f x) s else s) xs {}"
  by (induction xs) auto

lemma replicated_domains_exec [core_exec]:
  "replicated_domains c idx = foldr (\<lambda>v s. if bt_get_or 0 (match_index c) (cell_identity v) \<ge> idx
     then insert (control_domain_id v) s else s) (roster c) {}"
  unfolding replicated_domains_def by (rule image_set_filter)

lemmas [core_exec] = on_tick_def start_pre_vote_def start_real_election_def on_message_def
  on_request_pre_vote_def on_request_pre_vote_response_def on_request_vote_def
  on_request_vote_response_def step_down_to_higher_term_def become_leader_def log_up_to_date_def
  check_leader_gate_def on_propose_def on_request_linearizable_read_def roster_contains_def
  domain_of_def quorum_size_def allocate_and_broadcast_def allocate_and_replicate_def
  allocate_quorum_round_def broadcast_replication_or_heartbeat_def build_replication_for_peer_def
  peers_def collect_range_def last_log_index_def last_log_term_def first_uncompacted_index_def
  snapshot_index_def term_at_def term_at_tail_def log_get_def on_append_entries_def
  reconcile_and_commit_entries_def follower_commit_def append_response_def
  on_append_entries_response_def on_append_accepted_def on_append_conflict_def
  try_advance_leader_commit_def best_commit_def record_match_def ack_round_def
  sweep_confirmed_quorum_rounds_def round_confirmed_def has_authoritative_commit_view_def
  bt_get_or_def bt_get_def bt_remove_def sat_add32_def u32_max_def sat_add64_def u64_max_def Let_def

section \<open>A three-replica configuration\<close>

definition demo_roster :: ValidatedVoterRoster where
  "demo_roster = [\<lparr>cell_identity = 1, control_domain_id = 11\<rparr>,
     \<lparr>cell_identity = 2, control_domain_id = 12\<rparr>, \<lparr>cell_identity = 3, control_domain_id = 13\<rparr>]"

definition demo_timing :: ConsensusTimingConfig where
  "demo_timing = \<lparr>heartbeat_interval_ticks = 1, leader_lease_ticks = 2, election_timeout_ticks = 3,
     max_snapshot_chunk_bytes = 64\<rparr>"

definition demo_follower :: "CellIdentity \<Rightarrow> ControlDomainId \<Rightarrow> ConsensusCore" where
  "demo_follower cell domain =
     \<lparr>local_id = cell, local_domain = domain, roster = demo_roster, timing = demo_timing,
      role = Follower, current_term = 0, voted_for = None, known_leader = None,
      former_leader_term = None, snapshot_meta = None, snapshot_bytes = None,
      log_tail = [], commit_index = 0, ticks_since_leader_contact = 0,
      ticks_since_heartbeat_sent = 0, pre_vote_prospective_term = 0,
      pre_votes_granted_domains = {}, votes_granted_domains = {},
      next_index = [], match_index = [], snapshot_send_offset = [],
      inbound_snapshot = None, next_quorum_round_id = 1, quorum_rounds = [],
      leader_lease = \<lparr>ll_term = 0, ll_remaining_ticks = 0, ll_last_confirmed_round = 0\<rparr>\<rparr>"

lemmas demo_defs = demo_roster_def demo_timing_def demo_follower_def

lemma demo_follower_new:
  "core_new 1 demo_roster demo_timing = Inr (demo_follower 1 11)"
  "core_new 2 demo_roster demo_timing = Inr (demo_follower 2 12)"
  "core_new 3 demo_roster demo_timing = Inr (demo_follower 3 13)"
  by (simp_all add: core_new_def demo_defs timing_validate_def domain_of_def)

lemma demo_roster_new: "roster_new demo_roster = Inr demo_roster"
  by (simp add: roster_new_def demo_roster_def bt_get_def)

definition demo_proposal :: ControlPlaneProposal where
  "demo_proposal = \<lparr>idempotency_key = 7, command = CellDirectoryMutation (DecommissionCell 9 9)\<rparr>"

text \<open>The inputs that make replica 1 the leader of term 1 with the vote of replica 2.\<close>

definition election_inputs :: "ConsensusInput list" where
  "election_inputs = [Tick, Tick, Tick, ReceiveMessage 2 (RequestPreVoteResponse 0 1 2 True),
     ReceiveMessage 2 (RequestVoteResponse 1 2 True)]"

definition demo_leader :: ConsensusCore where
  "demo_leader = (demo_follower 1 11)
     \<lparr>role := Leader, current_term := 1, voted_for := Some 1, known_leader := Some 1,
      pre_vote_prospective_term := 1, votes_granted_domains := {12, 11},
      next_index := [(1, 1), (2, 1), (3, 1)], match_index := [(1, 0), (2, 0), (3, 0)],
      next_quorum_round_id := 2, quorum_rounds := [(1, \<lparr>qr_term = 1, qr_commit_index_at_issue = 0,
        qr_acked_domains = {11}, qr_waiting_read_ids = []\<rparr>)],
      leader_lease := \<lparr>ll_term = 1, ll_remaining_ticks = 0, ll_last_confirmed_round = 0\<rparr>\<rparr>"

lemma demo_leader_elected: "core_feed sha (demo_follower 1 11) election_inputs = demo_leader"
  by (simp add: election_inputs_def demo_leader_def demo_defs core_exec)

end
