(* ===== verification/RaftProps.thy ===== *)
theory RaftProps
  imports RaftExec
begin

text \<open>
  Runs of one consensus core, from \<open>ConsensusCore::new\<close> or \<open>rehydrate\<close> through any inputs and local
  snapshots that compact the whole prefix they cover, and what holds of the commit effects along
  them. Snapshots that compact less are in \<open>RaftCompaction\<close>.
\<close>

section \<open>Local snapshots and recovery\<close>

definition compacted :: "SnapshotMetadata \<Rightarrow> byte list \<Rightarrow> ConsensusCore \<Rightarrow> ConsensusCore" where
  "compacted m b c = c\<lparr>log_tail := filter (\<lambda>e. re_index e > included_index m) (log_tail c),
     snapshot_meta := Some m, snapshot_bytes := Some b, snapshot_send_offset := []\<rparr>"

lemma record_local_snapshot_cases:
  obtains (refused) "record_local_snapshot m b (included_index m) c = (c, False)"
  | (taken) "0 < included_index m" "included_index m \<le> commit_index c"
      "snapshot_index c \<le> included_index m"
      "record_local_snapshot m b (included_index m) c = (compacted m b c, True)"
proof (cases "included_index m = 0 \<or> included_index m > commit_index c \<or> included_index m < snapshot_index c")
  case True
  then have "record_local_snapshot m b (included_index m) c = (c, False)"
    by (cases "snapshot_meta c") (auto simp: record_local_snapshot_def snapshot_index_def)
  then show ?thesis by (rule refused)
next
  case False
  then have "record_local_snapshot m b (included_index m) c = (compacted m b c, True)"
    by (cases "snapshot_meta c")
      (simp_all add: record_local_snapshot_def snapshot_index_def compacted_def Let_def)
  then show ?thesis using False taken by simp
qed

lemma compacted_log:
  assumes "log_inv c" "last_log_index c < u64_max" "0 < included_index m"
    "included_index m \<le> commit_index c" "snapshot_index c \<le> included_index m"
  shows "log_advances c (compacted m b c)" and "last_log_index (compacted m b c) = last_log_index c"
proof -
  let ?k = "included_index m"
  let ?d = "compacted m b c"
  have tail: "log_tail ?d = drop (?k - snapshot_index c) (log_tail c)"
    using assms(5) contiguous_filter_greater [of "snapshot_index c" "log_tail c" ?k] assms(1)
    by (simp add: log_inv_def compacted_def)
  have d: "snapshot_index ?d = ?k" "snapshot_meta ?d = Some m" "snapshot_bytes ?d = Some b"
    "commit_index ?d = commit_index c"
    by (simp_all add: compacted_def snapshot_index_def)
  have len: "?k + length (log_tail ?d) = last_log_index c"
    using assms(4,5) log_inv_last_log_index [OF assms(1)] log_inv_commit_le [OF assms(1)]
    by (simp add: tail)
  have "contiguous (?k + 1) (log_tail ?d)"
    using contiguous_drop [OF log_inv_contiguous [OF assms(1)], of "?k - snapshot_index c"] assms(5)
    by (simp add: tail)
  then have inv: "log_inv ?d"
    using assms(2,3,4) len log_inv_commit_le [OF assms(1)] by (simp add: log_inv_def d)
  moreover have "entry_at ?d i = entry_at c i" if "?k < i" for i
    using that assms(5) by (auto simp: entry_at_def d tail log_get_def)
  ultimately show "log_advances c ?d"
    using assms(5) by (simp add: log_advances_def d)
  show "last_log_index ?d = last_log_index c"
    using log_inv_last_log_index [OF inv] len by (simp add: d)
qed

lemma record_local_snapshot_log:
  fixes m b
  assumes "log_inv c" "last_log_index c < u64_max"
  defines "d \<equiv> fst (record_local_snapshot m b (included_index m) c)"
  shows "log_advances c d \<and> last_log_index d = last_log_index c \<and> roster d = roster c \<and>
    local_id d = local_id c \<and> commit_index d = commit_index c"
  using assms(1) compacted_log [OF assms(1,2), of m b]
  by (cases rule: record_local_snapshot_cases [of m b c]) (simp_all add: d_def compacted_def)

definition recoverable :: "RehydratedCoreState \<Rightarrow> bool" where
  "recoverable st =
     (let snap = (case rh_snapshot st of Some (m, _) \<Rightarrow> included_index m | None \<Rightarrow> 0)
      in contiguous (snap + 1) (rh_log_tail st) \<and> snap < u64_max \<and>
         (rh_snapshot st \<noteq> None \<longrightarrow> 0 < snap) \<and> rh_commit_index st \<le> snap + length (rh_log_tail st) \<and>
         snap + length (rh_log_tail st) \<le> u64_max)"

lemma core_new_facts:
  assumes "core_new local r tm = Inr c"
  shows "roster c = r \<and> local_id c = local \<and> domain_of r local = Some (local_domain c) \<and>
    snapshot_meta c = None \<and> snapshot_bytes c = None \<and> log_tail c = [] \<and> commit_index c = 0"
proof (cases "timing_validate tm")
  case (Inr x)
  show ?thesis
  proof (cases "domain_of r local")
    case (Some d)
    show ?thesis
      using assms Inr Some by (cases "length r = 1"; clarsimp simp: core_new_def)
  qed (use assms Inr in \<open>simp add: core_new_def\<close>)
qed (use assms in \<open>simp add: core_new_def\<close>)

lemma domain_of_contains: "domain_of r x = Some d \<Longrightarrow> roster_contains r x"
  by (auto simp: roster_contains_def domain_of_def list_ex_iff dest: find_eq_Some_mem)

lemma core_new_inv:
  assumes "core_new local r tm = Inr c"
  shows "core_inv c"
proof -
  have "(0::nat) < u64_max" by (simp add: u64_max_def)
  then show ?thesis
    using core_new_facts [OF assms] domain_of_contains [of r local "local_domain c"]
    by (simp add: core_inv_def log_inv_def snapshot_index_def last_log_index_def)
qed

definition recovered_log :: "RehydratedCoreState \<Rightarrow> ConsensusCore \<Rightarrow> ConsensusCore" where
  "recovered_log st c = c\<lparr>snapshot_meta := map_option fst (rh_snapshot st),
     snapshot_bytes := map_option snd (rh_snapshot st), log_tail := rh_log_tail st,
     commit_index := max (rh_commit_index st)
       (case map_option fst (rh_snapshot st) of None \<Rightarrow> 0 | Some m \<Rightarrow> included_index m)\<rparr>"

lemma recovered_log_inv:
  assumes "recoverable st"
  shows "log_inv (recovered_log st c)"
  using assms by (cases "rh_snapshot st")
    (auto simp: recoverable_def recovered_log_def log_inv_def snapshot_index_def Let_def)

lemma rehydrate_inv:
  assumes "rehydrate local r tm st = Inr c" "recoverable st"
  shows "core_inv c \<and> log_tail c = rh_log_tail st \<and> snapshot_meta c = map_option fst (rh_snapshot st)"
proof -
  obtain c0 where c0: "core_new local r tm = Inr c0"
    using assms(1) by (auto simp: rehydrate_def result_bind_eq_Inr)
  let ?d = "recovered_log st c0"
  have inv: "log_inv ?d" by (rule recovered_log_inv [OF assms(2)])
  have "log_advances ?d (?d\<lparr>commit_index := last_log_index ?d\<rparr>)"
    by (rule log_advances_commit) (use inv log_inv_commit_le [OF inv] in simp_all)
  then have inv1: "log_inv (?d\<lparr>commit_index := last_log_index ?d\<rparr>)" by (rule log_advances_inv)
  have c: "snapshot_meta c = snapshot_meta ?d" "snapshot_bytes c = snapshot_bytes ?d"
    "log_tail c = log_tail ?d" "roster c = r" "local_id c = local"
    "commit_index c = (if length r = 1 then last_log_index ?d else commit_index ?d)"
    using assms(1) c0 core_new_facts [OF c0]
    by (cases "length r = 1"; clarsimp simp: rehydrate_def recovered_log_def Let_def)+
  have "log_inv c"
    using inv inv1 log_inv_cong [of c ?d] log_inv_cong [of c "?d\<lparr>commit_index := last_log_index ?d\<rparr>"] c
    by (cases "length r = 1") simp_all
  then show ?thesis
    using c core_new_facts [OF c0] domain_of_contains log_positions_cong(3) [of c ?d]
    by (auto simp: core_inv_def recovered_log_def)
qed

section \<open>Runs\<close>

definition core_init :: "ConsensusCore \<Rightarrow> bool" where
  "core_init c = ((\<exists>local r tm. core_new local r tm = Inr c) \<or>
     (\<exists>local r tm st. recoverable st \<and> rehydrate local r tm st = Inr c))"

inductive core_trans :: "sha256_fn \<Rightarrow> ConsensusCore \<Rightarrow> ConsensusCore \<Rightarrow> bool" for sha where
  core_input: "input_in_range i \<Longrightarrow> last_log_index c < u64_max \<Longrightarrow> core_trans sha c (fst (core_step sha c i))"
| core_compact: "last_log_index c < u64_max \<Longrightarrow>
    core_trans sha c (fst (record_local_snapshot m b (included_index m) c))"

lemma core_trans_advances:
  assumes "core_inv c" "core_trans sha c d"
  shows "core_inv d \<and> log_advances c d"
  using assms(2)
proof cases
  case (core_input i)
  then show ?thesis
    using core_inv_step [OF assms(1), of i sha] core_step_log [of c i sha] assms(1)
    by (simp add: core_inv_def)
next
  case (core_compact m b)
  have inv: "log_inv c" using assms(1) by (simp add: core_inv_def)
  show ?thesis
    using record_local_snapshot_log [OF inv core_compact(2), of m b] assms(1)
    by (auto simp: core_inv_def core_compact(1) dest: log_advances_inv)
qed

interpretation core: invariant_system core_init "core_trans sha" core_inv
  by unfold_locales (auto simp: core_init_def dest: core_new_inv rehydrate_inv core_trans_advances)

fun feed_ok :: "sha256_fn \<Rightarrow> ConsensusCore \<Rightarrow> ConsensusInput list \<Rightarrow> bool" where
  "feed_ok sha c [] = True"
| "feed_ok sha c (i # inputs) = (input_in_range i \<and> last_log_index c < u64_max \<and>
     feed_ok sha (fst (core_step sha c i)) inputs)"

lemma core_feed_run: "feed_ok sha c inputs \<Longrightarrow> (core_trans sha)\<^sup>*\<^sup>* c (core_feed sha c inputs)"
  by (induction inputs arbitrary: c)
    (auto intro: core_trans.core_input converse_rtranclp_into_rtranclp)

lemma reach_run: "reach core_init (core_trans sha) c \<Longrightarrow> (core_trans sha)\<^sup>*\<^sup>* c d \<Longrightarrow>
  reach core_init (core_trans sha) d"
  by (rotate_tac, induction rule: rtranclp_induct) (auto intro: reach.reach_step)

lemma demo_follower_reach: "reach core_init (core_trans sha) (demo_follower 1 11)"
  by (rule reach.reach_init) (auto simp: core_init_def intro: demo_follower_new)

lemma core_trans_feed:
  "reach core_init (core_trans sha) c \<Longrightarrow> input_in_range i \<Longrightarrow> last_log_index c < u64_max \<Longrightarrow>
   reach core_init (core_trans sha) (fst (core_step sha c i))"
  by (blast intro: reach.reach_step core_trans.core_input)

lemma demo_leader_reach: "reach core_init (core_trans sha) demo_leader"
proof -
  have "(core_trans sha)\<^sup>*\<^sup>* (demo_follower 1 11) (core_feed sha (demo_follower 1 11) election_inputs)"
    by (rule core_feed_run) (simp add: election_inputs_def demo_defs core_exec)
  then show ?thesis
    using reach_run [OF demo_follower_reach] by (simp add: demo_leader_elected)
qed

definition demo_appended :: "sha256_fn \<Rightarrow> ConsensusCore" where
  "demo_appended sha = fst (core_step sha demo_leader (Propose demo_proposal None))"

definition demo_ack :: ConsensusInput where
  "demo_ack = ReceiveMessage 2 (AppendEntriesResponse 1 2 True 1 None 0 2)"

lemma demo_appended_reach: "reach core_init (core_trans sha) (demo_appended sha)"
  unfolding demo_appended_def
  by (rule core_trans_feed [OF demo_leader_reach])
    (simp_all add: demo_leader_def demo_defs last_log_index_def u64_max_def)

lemma demo_appended_eq:
  "demo_appended sha = demo_leader\<lparr>log_tail := [log_entry_new sha 1 1 demo_proposal],
     next_index := [(1, 2), (2, 1), (3, 1)], match_index := [(1, 1), (2, 0), (3, 0)],
     next_quorum_round_id := 3, quorum_rounds := quorum_rounds demo_leader @
       [(2, \<lparr>qr_term = 1, qr_commit_index_at_issue = 0, qr_acked_domains = {11}, qr_waiting_read_ids = []\<rparr>)]\<rparr>"
  by (simp add: demo_appended_def demo_leader_def demo_defs core_exec)

lemma demo_appended_last: "last_log_index (demo_appended sha) = 1" "commit_index (demo_appended sha) = 0"
  by (simp_all add: demo_appended_eq last_log_index_def demo_leader_def demo_defs)

definition demo_committed :: "sha256_fn \<Rightarrow> ConsensusCore" where
  "demo_committed sha = fst (core_step sha (demo_appended sha) demo_ack)"

lemma demo_commit:
  "snd (core_step sha (demo_appended sha) demo_ack) =
     [AdvanceCommitIndex 1 1 [log_entry_new sha 1 1 demo_proposal]]"
  "commit_index (demo_committed sha) = 1" "role (demo_committed sha) = Leader"
  "log_tail (demo_committed sha) = [log_entry_new sha 1 1 demo_proposal]"
  "snapshot_meta (demo_committed sha) = None"
  by (simp_all add: demo_committed_def demo_ack_def demo_appended_eq demo_leader_def demo_defs core_exec)

lemma demo_ack_hyps:
  "input_in_range demo_ack" "last_log_index (demo_appended sha) < u64_max"
  "AdvanceCommitIndex 1 1 [log_entry_new sha 1 1 demo_proposal] \<in>
     set (snd (core_step sha (demo_appended sha) demo_ack))"
  "length (roster (demo_appended sha)) \<noteq> 1"
  by (simp_all only: demo_commit demo_appended_last)
    (simp_all add: demo_ack_def u64_max_def demo_appended_eq demo_leader_def demo_defs)

section \<open>Properties\<close>

text \<open>C25: Whenever a step of a core reached by inputs and full local compactions emits a commit effect, for an input in range and a log
  that has not reached the largest index, the effect is exact: it names the new commit index and
  term, the index has grown, and its entries are the log entries from the old commit index to the new
  one, in order.\<close>

theorem commit_effect_exact:
  assumes "reach core_init (core_trans sha) c" "input_in_range i" "last_log_index c < u64_max"
    "AdvanceCommitIndex k t es \<in> set (snd (core_step sha c i))" "d = fst (core_step sha c i)"
  shows "k = commit_index d \<and> commit_index c < k \<and> t = current_term d \<and>
    map re_index es = [commit_index c + 1 ..< k + 1] \<and> (\<forall>e\<in>set es. entry_at d (re_index e) = Some e)"
  using core_step_advance [OF core.inv_reach [OF assms(1)] assms(2-4)] assms(5)
  by (simp add: advance_ok_def del: upt_Suc)

theorem commit_effect_exact_witness:
  "entry_at (demo_committed (\<lambda>_. 0)) 1 = Some (log_entry_new (\<lambda>_. 0) 1 1 demo_proposal) \<and>
   commit_index (demo_appended (\<lambda>_. 0)) < 1"
  using commit_effect_exact [OF demo_appended_reach demo_ack_hyps(1-3) demo_committed_def] by simp

text \<open>C9: In a roster of more than one voter a commit effect has one of two causes: a leader whose match
  indices show the entry, which is of its own term, on a majority of control domains; or an append
  message of the current term, whose commit index is at least the committed one. The match indices
  are what followers reported. Installing a snapshot raises the commit index without such an effect
  and is not covered here.\<close>

theorem commit_rule:
  assumes "reach core_init (core_trans sha) c" "input_in_range i" "last_log_index c < u64_max"
    "AdvanceCommitIndex k t es \<in> set (snd (core_step sha c i))" "d = fst (core_step sha c i)"
    "length (roster c) \<noteq> 1"
  shows "role d = Leader \<and> term_at d k = Some (current_term d) \<and>
      quorum_size (roster d) \<le> card (replicated_domains d k) \<or>
    (\<exists>from l pi pt es' lc r. i = ReceiveMessage from (AppendEntries t l pi pt es' lc r) \<and> k \<le> lc)"
  using core_step_advance [OF core.inv_reach [OF assms(1)] assms(2-4)] assms(5,6)
  by (auto simp: commits_by_quorum_def follows_leader_commit_def
      split: ConsensusInput.splits RaftMessage.splits)

theorem commit_rule_witness:
  "role (demo_committed (\<lambda>_. 0)) = Leader \<and>
   quorum_size (roster (demo_committed (\<lambda>_. 0))) \<le> card (replicated_domains (demo_committed (\<lambda>_. 0)) 1)"
  using commit_rule [OF demo_appended_reach demo_ack_hyps(1-3) demo_committed_def demo_ack_hyps(4)]
  by (simp add: demo_ack_def)

end
