(* ===== verification/RaftCompaction.thy ===== *)
theory RaftCompaction
  imports RaftProps
begin

text \<open>
  Compaction of the log of one core. \<open>record_local_snapshot\<close> takes the index up to which to compact
  beside the snapshot. The multi-host driver always passes the index the snapshot covers; the single
  node passes whatever \<open>compact_log_up_to\<close> was called with, and then the retained log starts above
  the recorded snapshot and below the snapshot on disk. The log properties are stated for both
  callers, and \<open>partial_compaction_shifts\<close> shows what the same call would do to a core that reads
  its log by position.
\<close>

section \<open>The log of a lone voter\<close>

definition lone_log :: "ConsensusCore \<Rightarrow> bool" where
  "lone_log c = (snapshot_index c \<le> last_log_index c \<and> commit_index c = last_log_index c \<and>
     (\<exists>first. snapshot_index c < first \<and> first \<le> last_log_index c + 1 \<and>
       map re_index (log_tail c) = [first ..< last_log_index c + 1]))"

text \<open>What a step keeps: the positions only grow, and an entry at a committed index that is in the log
  afterwards was there before.\<close>

definition log_kept :: "ConsensusCore \<Rightarrow> ConsensusCore \<Rightarrow> bool" where
  "log_kept c d = (commit_index c \<le> commit_index d \<and> snapshot_index c \<le> snapshot_index d \<and>
     (\<forall>e\<in>set (log_tail d). re_index e \<le> commit_index c \<longrightarrow> e \<in> set (log_tail c)))"

lemma log_kept_refl [simp]: "log_kept c c"
  by (simp add: log_kept_def)

lemma log_kept_trans: "log_kept c d \<Longrightarrow> log_kept d e \<Longrightarrow> log_kept c e"
  unfolding log_kept_def by (meson le_trans)

lemma log_advances_kept:
  assumes "log_inv c" "log_advances c d"
  shows "log_kept c d"
proof -
  have d: "log_inv d" by (rule log_advances_inv [OF assms(2)])
  have "e \<in> set (log_tail c)" if "e \<in> set (log_tail d)" "re_index e \<le> commit_index c" for e
  proof -
    have at: "entry_at d (re_index e) = Some e" using entry_at_mem [OF d] that(1) by simp
    then have "snapshot_index d < re_index e" using entry_at_iff [OF d, of "re_index e"] by auto
    then have "entry_at c (re_index e) = Some e" using assms(2) at that(2) by (simp add: log_advances_def)
    then show ?thesis using entry_at_mem [OF assms(1)] by simp
  qed
  then show ?thesis using assms(2) by (simp add: log_kept_def log_advances_def)
qed

lemma last_log_index_tail: "log_tail c \<noteq> [] \<Longrightarrow> last_log_index c = last (map re_index (log_tail c))"
  by (simp add: last_log_index_def last_map)

lemma last_log_index_Nil: "log_tail c = [] \<Longrightarrow> last_log_index c = snapshot_index c"
  by (simp add: last_log_index_def snapshot_index_def split: option.split)

lemma log_inv_lone_log:
  assumes "log_inv c" "commit_index c = last_log_index c"
  shows "lone_log c"
  using assms contiguous_indices [OF log_inv_contiguous [OF assms(1)]] log_inv_last_log_index [OF assms(1)]
  by (auto simp: lone_log_def log_inv_def simp del: upt_Suc intro!: exI [of _ "snapshot_index c + 1"])

lemma lone_log_append:
  assumes "lone_log c" "re_index e = last_log_index c + 1" "log_tail d = log_tail c @ [e]"
    "snapshot_meta d = snapshot_meta c" "commit_index d = last_log_index c + 1"
  shows "lone_log d \<and> log_kept c d"
proof -
  obtain first where first: "snapshot_index c < first" "first \<le> last_log_index c + 1"
      "map re_index (log_tail c) = [first ..< last_log_index c + 1]"
    using assms(1) by (auto simp: lone_log_def)
  have d: "snapshot_index d = snapshot_index c" "last_log_index d = last_log_index c + 1"
    using assms(2-4) by (simp_all add: snapshot_index_def last_log_index_def)
  have "map re_index (log_tail d) = [first ..< last_log_index d + 1]"
    using assms(2,3) first(2,3) d(2) by simp
  then have "lone_log d" using assms(1,5) first(1,2) d unfolding lone_log_def by fastforce
  then show ?thesis using assms by (auto simp: log_kept_def lone_log_def d)
qed

lemma map_filter_greater:
  assumes "map f xs = [a ..< b]"
  shows "map f (filter (\<lambda>x. k < f x) xs) = [max a (k + 1) ..< b]"
proof -
  have "map f (filter (\<lambda>x. k < f x) xs) = filter (\<lambda>i. k < i) (map f xs)" by (simp add: filter_map comp_def)
  also have "\<dots> = [max a (k + 1) ..< b]" unfolding assms by (induction b) (auto simp: max_def)
  finally show ?thesis .
qed

lemma lone_log_compact:
  assumes "lone_log c"
  shows "lone_log (fst (record_local_snapshot m b k c)) \<and> log_kept c (fst (record_local_snapshot m b k c))"
proof (cases "included_index m = 0 \<or> included_index m > commit_index c \<or> included_index m < snapshot_index c")
  case True
  then have "fst (record_local_snapshot m b k c) = c"
    by (cases "snapshot_meta c") (auto simp: record_local_snapshot_def snapshot_index_def)
  then show ?thesis using assms by simp
next
  case False
  define t where "t = min k (included_index m)"
  let ?d = "fst (record_local_snapshot m b k c)"
  have d: "log_tail ?d = filter (\<lambda>e. t < re_index e) (log_tail c)" "commit_index ?d = commit_index c"
    "snapshot_index ?d = (if t = included_index m then t else snapshot_index c)"
    using False by (cases "snapshot_meta c"; simp add: record_local_snapshot_def t_def snapshot_index_def Let_def)+
  obtain first where first: "snapshot_index c < first" "first \<le> last_log_index c + 1"
      "map re_index (log_tail c) = [first ..< last_log_index c + 1]"
    and c: "snapshot_index c \<le> last_log_index c" "commit_index c = last_log_index c"
    using assms by (auto simp: lone_log_def)
  have tail: "map re_index (log_tail ?d) = [max first (t + 1) ..< last_log_index c + 1]"
    unfolding d(1) by (rule map_filter_greater [OF first(3)])
  have t: "t \<le> included_index m" "included_index m \<le> last_log_index c" using False c(2) by (auto simp: t_def)
  have last: "last_log_index ?d = last_log_index c"
  proof (cases "log_tail ?d = []")
    case True
    with tail have "[max first (t + 1) ..< last_log_index c + 1] = []" by (simp only: list.map)
    then have "t = last_log_index c \<or> first = last_log_index c + 1" using t first(2) by (auto simp del: upt_Suc)
    then have "snapshot_index ?d = last_log_index c"
    proof
      assume "first = last_log_index c + 1"
      then have "log_tail c = []" using first(3) by simp
      then have "snapshot_index c = last_log_index c" by (simp add: last_log_index_Nil)
      then show ?thesis using False t d(3) by auto
    qed (use t d(3) in auto)
    then show ?thesis using last_log_index_Nil [OF True] by simp
  next
    case ne: False
    then have "[max first (t + 1) ..< last_log_index c + 1] \<noteq> []" unfolding tail [symmetric] by simp
    then have "max first (t + 1) < last_log_index c + 1" by (simp add: not_le del: upt_Suc)
    then show ?thesis using last_log_index_tail [OF ne] unfolding tail by (simp add: last_upt del: upt_Suc)
  qed
  have pos: "snapshot_index ?d < max first (t + 1)" "snapshot_index c \<le> snapshot_index ?d"
      "snapshot_index ?d \<le> last_log_index c"
    using first(1) False c t d(3) by auto
  have "lone_log ?d"
    unfolding lone_log_def last d(2) c(2)
    using pos first(2) t tail by (intro conjI exI [of _ "max first (t + 1)"]) auto
  moreover have "log_kept c ?d" using pos(2) by (auto simp: log_kept_def d(1,2))
  ultimately show ?thesis by blast
qed

lemma lone_log_step:
  assumes "lone_log c" "length (roster c) = 1" "roster_contains (roster c) (local_id c)" "last_log_index c < u64_max"
  shows "lone_log (fst (core_step sha c i)) \<and> log_kept c (fst (core_step sha c i))"
proof (cases i)
  case (Propose p expected)
  let ?e = "log_entry_new sha (last_log_index c + 1) (current_term c) p"
  let ?d = "fst (on_propose sha c p expected)"
  have room: "sat_add64 (last_log_index c) 1 = last_log_index c + 1" using assms(4) by (simp add: sat_add64_def)
  show ?thesis
  proof (cases "check_leader_gate c expected")
    case (Inr x)
    have d: "log_tail ?d = log_tail c @ [?e]" "snapshot_meta ?d = snapshot_meta c"
        "commit_index ?d = last_log_index c + 1"
      using assms(2) room by (simp_all add: on_propose_def Inr Let_def)
    have "re_index ?e = last_log_index c + 1" by (simp add: log_entry_new_def)
    from lone_log_append [OF assms(1) this d] show ?thesis by (simp add: Propose)
  qed (use assms(1) Propose in \<open>simp add: on_propose_def\<close>)
next
  case (ReceiveMessage x m)
  have "x = local_id c" if "roster_contains (roster c) x"
    using that assms(2,3) by (cases "roster c") (auto simp: roster_contains_def)
  then show ?thesis using ReceiveMessage assms(1) by (auto simp: on_message_def)
qed (use assms(1,2) in \<open>auto simp: on_tick_def on_request_linearizable_read_def split: sum.split\<close>)

section \<open>Runs with the compactions of both callers\<close>

text \<open>A core in a roster of several voters compacts the whole prefix its snapshot covers
  (\<open>net_driver.rs\<close>), the lone voter any prefix of it (\<open>single_node.rs\<close>).\<close>

inductive core_call :: "sha256_fn \<Rightarrow> ConsensusCore \<Rightarrow> ConsensusCore \<Rightarrow> bool" for sha where
  call_input: "input_in_range i \<Longrightarrow> last_log_index c < u64_max \<Longrightarrow> core_call sha c (fst (core_step sha c i))"
| call_compact: "last_log_index c < u64_max \<Longrightarrow> included_index m \<le> k \<or> length (roster c) = 1 \<Longrightarrow>
    core_call sha c (fst (record_local_snapshot m b k c))"

definition call_inv :: "ConsensusCore \<Rightarrow> bool" where
  "call_inv c = (roster_contains (roster c) (local_id c) \<and>
     (if length (roster c) = 1 then lone_log c else log_inv c))"

lemma record_local_snapshot_capped:
  "included_index m \<le> k \<Longrightarrow> record_local_snapshot m b k c = record_local_snapshot m b (included_index m) c"
  by (simp add: record_local_snapshot_def min_def)

lemma record_local_snapshot_identity:
  "roster (fst (record_local_snapshot m b k c)) = roster c" "local_id (fst (record_local_snapshot m b k c)) = local_id c"
  by (simp_all add: record_local_snapshot_def Let_def split: option.split)

lemma core_inv_call_inv: "core_inv c \<Longrightarrow> call_inv c"
  by (simp add: core_inv_def call_inv_def log_inv_lone_log)

lemma core_call_keeps:
  assumes "call_inv c" "core_call sha c d"
  shows "call_inv d \<and> log_kept c d \<and> roster d = roster c \<and> (length (roster c) \<noteq> 1 \<longrightarrow> log_advances c d)"
proof (cases "length (roster c) = 1")
  case True
  then have c: "lone_log c" "roster_contains (roster c) (local_id c)" using assms(1) by (simp_all add: call_inv_def)
  from assms(2) show ?thesis
  proof cases
    case (call_input i)
    then show ?thesis
      using lone_log_step [OF c(1) True c(2), of sha i] core_step_identity [of c sha i] True c(2)
      by (simp add: call_inv_def same_identity_def)
  next
    case (call_compact m k b)
    then show ?thesis
      using lone_log_compact [OF c(1), of m b k] True c(2) by (simp add: call_inv_def record_local_snapshot_identity)
  qed
next
  case False
  then have c: "log_inv c" "roster_contains (roster c) (local_id c)" using assms(1) by (simp_all add: call_inv_def)
  have "log_advances c d \<and> roster d = roster c \<and> local_id d = local_id c"
    using assms(2)
  proof cases
    case (call_input i)
    then show ?thesis
      using core_step_log [OF c(1), of i sha] core_step_identity [of c sha i] by (simp add: same_identity_def)
  next
    case (call_compact m k b)
    then have "included_index m \<le> k" using False by blast
    from record_local_snapshot_capped [OF this, of b c] have "d = fst (record_local_snapshot m b (included_index m) c)"
      using call_compact(1) by (simp only:)
    then show ?thesis using record_local_snapshot_log [OF c(1) call_compact(2), of m b] by simp
  qed
  then show ?thesis
    using False c log_advances_kept [OF c(1)] by (auto simp: call_inv_def dest: log_advances_inv)
qed

interpretation calls: invariant_system core_init "core_call sha" call_inv
proof
  show "call_inv c" if "core_init c" for c by (rule core_inv_call_inv [OF core.inv_init [OF that]])
  show "call_inv d" if "call_inv c" "core_call sha c d" for c d using core_call_keeps [OF that] by simp
qed

lemma core_calls_keep:
  assumes "(core_call sha)\<^sup>*\<^sup>* c d" "call_inv c"
  shows "log_kept c d \<and> roster d = roster c \<and> (length (roster c) \<noteq> 1 \<longrightarrow> log_advances c d)"
  using assms
proof (induction rule: rtranclp_induct)
  case base
  then show ?case by (simp add: call_inv_def)
next
  case (step d e)
  have d: "call_inv d" by (rule calls.inv_run [OF step.hyps(1) step.prems])
  show ?case
    using step.IH [OF step.prems] core_call_keeps [OF d step.hyps(2)] log_kept_trans [of c d e]
      log_advances_trans [of c d e] by simp
qed

text \<open>Why a core of several voters must not compact partially: the tail is shorter, but the recorded
  snapshot, from which positions are counted, stays. The term of every retained entry is then found
  at a smaller index, and none at the last one.\<close>

lemma partial_compaction_shifts:
  assumes "log_inv c" "snapshot_index c < k" "k < included_index m" "included_index m \<le> commit_index c"
    "d = fst (record_local_snapshot m b k c)"
  shows "snapshot_index d = snapshot_index c \<and> last_log_index d = last_log_index c \<and>
    term_at d (last_log_index d) = None \<and>
    (\<forall>i. k < i \<and> i \<le> last_log_index c \<longrightarrow>
      term_at d (i - (k - snapshot_index c)) = map_option re_term (entry_at c i) \<and> entry_at c i \<noteq> None)"
proof -
  have le: "commit_index c \<le> last_log_index c" by (rule log_inv_commit_le [OF assms(1)])
  have d: "snapshot_meta d = snapshot_meta c" "snapshot_index d = snapshot_index c"
      "log_tail d = drop (k - snapshot_index c) (log_tail c)"
    using assms contiguous_filter_greater [OF log_inv_contiguous [OF assms(1)], of k]
    by (cases "snapshot_meta c"; simp add: record_local_snapshot_def snapshot_index_def Let_def min_def)+
  have len: "last_log_index c = snapshot_index c + length (log_tail c)" by (rule log_inv_last_log_index [OF assms(1)])
  have "k - snapshot_index c < length (log_tail c)" using assms(2-4) le len by linarith
  then have last: "last_log_index d = last_log_index c" by (auto simp: last_log_index_def d(3))
  have at: "term_at d i = map_option re_term (log_get (log_tail d) (i - snapshot_index c - 1))"
    if "snapshot_index c < i" for i
    using that assms(1) d(1) log_inv_first_uncompacted [OF assms(1)]
    by (auto simp: term_at_def term_at_tail_def first_uncompacted_index_def snapshot_index_def Let_def split: option.splits)
  have "\<not> last_log_index d - snapshot_index c - 1 < length (log_tail d)" "snapshot_index c < last_log_index d"
    using assms(2-4) le len last d(3) by auto
  then have "term_at d (last_log_index d) = None" by (simp add: at log_get_def)
  moreover have "term_at d (i - (k - snapshot_index c)) = map_option re_term (entry_at c i) \<and> entry_at c i \<noteq> None"
    if "k < i" "i \<le> last_log_index c" for i
  proof -
    define j where "j = i - (k + 1)"
    have i: "i = k + 1 + j" using that(1) by (simp add: j_def)
    have pos: "i - (k - snapshot_index c) = snapshot_index c + 1 + j"
        "i - snapshot_index c - 1 = k - snapshot_index c + j" "k - snapshot_index c + j < length (log_tail c)"
      using i assms(2) that(2) len by simp_all
    then have "term_at d (i - (k - snapshot_index c)) = Some (re_term (log_tail c ! (k - snapshot_index c + j)))"
      using at [of "snapshot_index c + 1 + j"] by (simp add: log_get_def d(3) less_diff_conv2 add.commute)
    moreover have "entry_at c i = Some (log_tail c ! (k - snapshot_index c + j))"
      using pos(2,3) i assms(2) by (simp add: entry_at_def log_get_def)
    ultimately show ?thesis by simp
  qed
  ultimately show ?thesis using d(2) last by blast
qed

text \<open>A lone voter that holds two entries and compacts the first one under a snapshot of both.\<close>

definition demo_lone :: "sha256_fn \<Rightarrow> ConsensusCore" where
  "demo_lone sha = (demo_follower 1 11)\<lparr>roster := [\<lparr>cell_identity = 1, control_domain_id = 11\<rparr>],
     role := Leader, current_term := 1, voted_for := Some 1, known_leader := Some 1,
     votes_granted_domains := {11}, next_index := [(1, 3)], match_index := [(1, 2)],
     log_tail := [log_entry_new sha 1 1 demo_proposal, log_entry_new sha 2 1 demo_proposal], commit_index := 2,
     leader_lease := \<lparr>ll_term = 1, ll_remaining_ticks = 2, ll_last_confirmed_round = 0\<rparr>\<rparr>"

definition demo_cover :: SnapshotMetadata where
  "demo_cover = \<lparr>included_index = 2, included_term = 1, meta_state_root = 0\<rparr>"

lemma demo_lone_step:
  assumes "reach core_init (core_call sha) c" "last_log_index c < u64_max"
    "fst (core_step sha c (Propose demo_proposal None)) = d"
  shows "reach core_init (core_call sha) d"
  using reach.reach_step [OF assms(1) core_call.call_input [OF _ assms(2), of "Propose demo_proposal None" sha]] assms(3)
  by simp

lemma demo_lone_reach: "reach core_init (core_call sha) (demo_lone sha)"
proof -
  define c0 where "c0 = (demo_lone sha)\<lparr>log_tail := [], commit_index := 0, next_index := [(1, 1)], match_index := [(1, 0)]\<rparr>"
  define c1 where "c1 = (demo_lone sha)\<lparr>log_tail := [log_entry_new sha 1 1 demo_proposal], commit_index := 1,
    next_index := [(1, 2)], match_index := [(1, 1)]\<rparr>"
  have "core_new 1 [\<lparr>cell_identity = 1, control_domain_id = 11\<rparr>] demo_timing = Inr c0"
    by (simp add: core_new_def c0_def demo_lone_def demo_defs timing_validate_def domain_of_def)
  then have "core_init c0" unfolding core_init_def by blast
  then have "reach core_init (core_call sha) c0" by (rule reach.reach_init)
  moreover have "fst (core_step sha c0 (Propose demo_proposal None)) = c1"
    by (simp add: c0_def c1_def demo_lone_def demo_defs core_exec)
  moreover have "last_log_index c0 < u64_max" "last_log_index c1 < u64_max"
    by (simp_all add: c0_def c1_def last_log_index_def u64_max_def demo_lone_def demo_defs log_entry_new_def)
  ultimately have "reach core_init (core_call sha) c1" using demo_lone_step by blast
  moreover have "fst (core_step sha c1 (Propose demo_proposal None)) = demo_lone sha"
    by (simp add: c1_def demo_lone_def demo_defs core_exec) (simp add: numeral_2_eq_2)
  ultimately show ?thesis using demo_lone_step \<open>last_log_index c1 < u64_max\<close> by blast
qed

definition demo_trimmed :: "sha256_fn \<Rightarrow> ConsensusCore" where
  "demo_trimmed sha = fst (record_local_snapshot demo_cover [] 1 (demo_lone sha))"

lemma demo_trimmed_call: "core_call sha (demo_lone sha) (demo_trimmed sha)"
  unfolding demo_trimmed_def
  by (rule core_call.call_compact) (simp_all add: last_log_index_def u64_max_def demo_lone_def log_entry_new_def)

lemma demo_trimmed_log:
  "log_tail (demo_trimmed sha) = [log_entry_new sha 2 1 demo_proposal]" "snapshot_index (demo_trimmed sha) = 0"
  "commit_index (demo_lone sha) = 2" "re_index (log_entry_new sha 2 1 demo_proposal) = 2"
  by (simp_all add: demo_trimmed_def record_local_snapshot_def demo_cover_def demo_lone_def demo_defs
      log_entry_new_def snapshot_index_def)

section \<open>Properties\<close>

text \<open>C24: In every reachable core, whatever the messages received and the local snapshots taken, the
  retained log is a contiguous range of indices above the snapshot and up to the last log index, and
  the commit index lies between the snapshot and the last log index. With several voters the range
  starts just after the snapshot; there a local snapshot compacts everything it covers, as the driver
  does. A lone voter may compact any prefix, and has committed everything it holds.\<close>

theorem log_well_formed:
  assumes "reach core_init (core_call sha) c"
  shows "(\<exists>first. map re_index (log_tail c) = [first ..< last_log_index c + 1] \<and>
      snapshot_index c < first \<and> first \<le> last_log_index c + 1 \<and>
      (length (roster c) \<noteq> 1 \<longrightarrow> first = snapshot_index c + 1)) \<and>
    snapshot_index c \<le> commit_index c \<and> commit_index c \<le> last_log_index c \<and>
    (length (roster c) = 1 \<longrightarrow> commit_index c = last_log_index c)"
proof (cases "length (roster c) = 1")
  case True
  with calls.inv_reach [OF assms] show ?thesis by (auto simp: call_inv_def lone_log_def simp del: upt_Suc)
next
  case False
  with calls.inv_reach [OF assms] have log: "log_inv c" by (simp add: call_inv_def)
  show ?thesis
    using False log contiguous_indices [OF log_inv_contiguous [OF log]] log_inv_last_log_index [OF log]
    by (auto simp: log_inv_def simp del: upt_Suc)
qed

theorem log_well_formed_witness:
  "\<exists>first. map re_index (log_tail (demo_trimmed (\<lambda>_. 0))) = [first ..< last_log_index (demo_trimmed (\<lambda>_. 0)) + 1] \<and>
     snapshot_index (demo_trimmed (\<lambda>_. 0)) < first \<and> log_tail (demo_trimmed (\<lambda>_. 0)) \<noteq> []"
proof -
  have "log_tail (demo_trimmed (\<lambda>_. 0)) \<noteq> []" by (simp add: demo_trimmed_log)
  with log_well_formed [OF reach.reach_step [OF demo_lone_reach demo_trimmed_call], of "\<lambda>_. 0"] show ?thesis
    by blast
qed

text \<open>C5: A committed entry is never changed: along any further run of the core, whatever the messages
  received and the local snapshots taken, the commit index and the snapshot only grow, and an entry
  of the log at an index that was committed is the entry that was there. With several voters, where a
  local snapshot compacts everything it covers, none is lost either: every committed index still above
  the snapshot holds the same entry as before.\<close>

theorem committed_entries_immutable:
  assumes "reach core_init (core_call sha) c" "(core_call sha)\<^sup>*\<^sup>* c d"
  shows "commit_index c \<le> commit_index d \<and> snapshot_index c \<le> snapshot_index d \<and>
    (\<forall>e\<in>set (log_tail d). re_index e \<le> commit_index c \<longrightarrow> e \<in> set (log_tail c)) \<and>
    (length (roster c) \<noteq> 1 \<longrightarrow> (\<forall>i. snapshot_index d < i \<and> i \<le> commit_index c \<longrightarrow>
      entry_at c i \<noteq> None \<and> entry_at d i = entry_at c i))"
proof -
  have inv: "call_inv c" by (rule calls.inv_reach [OF assms(1)])
  have kept: "log_kept c d" and adv: "length (roster c) \<noteq> 1 \<longrightarrow> log_advances c d"
    using core_calls_keep [OF assms(2) inv] by auto
  have "entry_at c i \<noteq> None \<and> entry_at d i = entry_at c i"
    if "length (roster c) \<noteq> 1" "snapshot_index d < i" "i \<le> commit_index c" for i
  proof -
    have log: "log_inv c" "log_advances c d" using inv adv that(1) by (simp_all add: call_inv_def)
    then have "snapshot_index c < i" using that(2) by (simp add: log_advances_def)
    then show ?thesis
      using log that entry_at_iff [OF log(1), of i] log_inv_commit_le [OF log(1)]
      by (auto simp: log_advances_def)
  qed
  then show ?thesis using kept by (simp add: log_kept_def)
qed

theorem committed_entries_immutable_witness:
  "log_entry_new (\<lambda>_. 0) 2 1 demo_proposal \<in> set (log_tail (demo_lone (\<lambda>_. 0))) \<and>
   commit_index (demo_lone (\<lambda>_. 0)) \<le> commit_index (demo_trimmed (\<lambda>_. 0))"
proof -
  have "(core_call (\<lambda>_. 0))\<^sup>*\<^sup>* (demo_lone (\<lambda>_. 0)) (demo_trimmed (\<lambda>_. 0))" using demo_trimmed_call by blast
  from committed_entries_immutable [OF demo_lone_reach this] show ?thesis by (simp add: demo_trimmed_log)
qed

end
