(* ===== verification/Store.thy ===== *)
theory Store
  imports RaftCore Snapshot
begin

text \<open>
  The durable store of \<open>nlos-consensus/src/store.rs\<close>. The three SQLite tables are a singleton row,
  a table of log rows ordered by its primary key, and a singleton snapshot row; the columns keep the
  raw types of the rows (64-bit integers as \<open>int\<close>, blobs as byte lists), so that the checks on
  reading are part of the model. \<open>CHECK\<close> constraints, primary keys and triggers are the failing
  branches of the statements. A transaction that fails leaves the tables as they were; the snapshot
  file written before it stays. The directory of snapshot files is a map from file names to contents.
  Error texts keep the fixed part of the message. Failures of the operating system and of SQLite
  itself, the temporary file behind an atomic write, and the set-up of the connection are not
  modelled. The panics of the source are values of \<open>StoreFailure\<close>.
\<close>

datatype ConsensusStoreError =
    DurabilityUnavailable string
  | IntegrityCorrupted string
  | InvalidSnapshotBoundary string
  | Io string
  | Sqlite string

datatype StoreFailure =
    Refused ConsensusStoreError
  | ApplyPanicked ApplyPanic
  | DigestPanicked
  | StagingPanicked

record ConsensusCommitReceipt =
  rc_consensus_commit_index :: NonZeroU64
  rc_term :: NonZeroU64
  rc_state_root_digest :: bytes32
  rc_outcome :: AppliedProposalOutcome

record RecoveredConsensusState =
  rec_core_state :: RehydratedCoreState
  rec_state_machine :: ControlPlaneStateMachine

record RawHardStateRow =
  hs_current_term :: int
  hs_voted_for :: "byte list option"
  hs_commit_index :: int
  hs_sha256 :: "byte list"

record RawLogRow =
  lr_log_index :: int
  lr_term :: int
  lr_command_kind :: int
  lr_idempotency_key :: "byte list"
  lr_payload_bytes :: "byte list"
  lr_entry_sha256 :: "byte list"

type_synonym SnapshotFile = string

record RawSnapshotRow =
  sr_included_index :: int
  sr_included_term :: int
  sr_state_root_digest :: "byte list"
  sr_file_name :: SnapshotFile
  sr_byte_len :: int
  sr_snapshot_sha256 :: "byte list"

record StoredSnapshotRow =
  ss_meta :: SnapshotMetadata
  ss_file_name :: SnapshotFile
  ss_byte_len :: nat
  ss_snapshot_sha256 :: bytes32

record SqliteConsensusStore =
  consensus_meta :: "RawHardStateRow option"
  consensus_log :: "(int, RawLogRow) btree"
  consensus_snapshot :: "RawSnapshotRow option"
  snapshot_files :: "SnapshotFile \<rightharpoonup> byte list"

type_synonym 'a store_result = "(ConsensusStoreError, 'a) result"
type_synonym 'a store_run = "(StoreFailure, 'a) result"

section \<open>Integers and blobs\<close>

definition i64_max :: nat where
  "i64_max = 2 ^ 63 - 1"

definition u64_to_i64 :: "nat \<Rightarrow> int store_result" where
  "u64_to_i64 v = (if v \<le> i64_max then Inr (int v)
     else Inl (IntegrityCorrupted ''exceeds SQLite INTEGER i64::MAX''))"

definition i64_to_u64 :: "string \<Rightarrow> int \<Rightarrow> nat store_result" where
  "i64_to_u64 msg v = (if v < 0 then Inl (IntegrityCorrupted msg) else Inr (nat v))"

definition blob16 :: "string \<Rightarrow> byte list \<Rightarrow> bytes16 store_result" where
  "blob16 msg bs = (if length bs = 16 then Inr (from_be bs) else Inl (IntegrityCorrupted msg))"

definition blob32 :: "string \<Rightarrow> byte list \<Rightarrow> bytes32 store_result" where
  "blob32 msg bs = (if length bs = 32 then Inr (from_be bs) else Inl (IntegrityCorrupted msg))"

section \<open>Hard state\<close>

definition compute_hard_state_sha256 ::
  "sha256_fn \<Rightarrow> ConsensusTerm \<Rightarrow> CellIdentity option \<Rightarrow> LogIndex \<Rightarrow> bytes32" where
  "compute_hard_state_sha256 sha trm voted commit =
     sha (ascii ''llmos/consensus/hard-state/v1'' @ u64_be trm @
       (case voted of Some cell \<Rightarrow> 1 # to_be cell | None \<Rightarrow> [0]) @ u64_be commit)"

definition read_voted_for :: "byte list option \<Rightarrow> CellIdentity option store_result" where
  "read_voted_for blob =
     (case blob of
        None \<Rightarrow> Inr None
      | Some bytes \<Rightarrow> result_bind (blob16 ''voted_for length != 16'' bytes) (\<lambda>cell.
          if cell = 0 then Inl (IntegrityCorrupted ''all-zero voted_for'') else Inr (Some cell)))"

definition read_and_verify_hard_state_conn ::
  "sha256_fn \<Rightarrow> SqliteConsensusStore \<Rightarrow> (ConsensusTerm \<times> CellIdentity option \<times> LogIndex) store_result" where
  "read_and_verify_hard_state_conn sha db =
     (case consensus_meta db of
        None \<Rightarrow> Inl (IntegrityCorrupted ''missing consensus_meta singleton row'')
      | Some row \<Rightarrow>
          result_bind (i64_to_u64 ''negative current_term'' (hs_current_term row)) (\<lambda>trm.
          result_bind (i64_to_u64 ''negative commit_index'' (hs_commit_index row)) (\<lambda>commit.
          result_bind (read_voted_for (hs_voted_for row)) (\<lambda>voted.
          result_bind (blob32 ''hard_state_sha256 length != 32'' (hs_sha256 row)) (\<lambda>stored.
            if stored \<noteq> compute_hard_state_sha256 sha trm voted commit
            then Inl (IntegrityCorrupted ''consensus_meta hard_state_sha256 mismatch'')
            else Inr (trm, voted, commit))))))"

text \<open>The \<open>BEFORE UPDATE\<close> trigger of \<open>consensus_meta\<close>.\<close>

definition meta_trigger :: "RawHardStateRow \<Rightarrow> RawHardStateRow \<Rightarrow> unit store_result" where
  "meta_trigger old new =
     (if hs_current_term new < hs_current_term old
      then Inl (Sqlite ''consensus_meta.current_term regression forbidden'')
      else if hs_commit_index new < hs_commit_index old
      then Inl (Sqlite ''consensus_meta.commit_index regression forbidden'')
      else if hs_current_term new = hs_current_term old \<and> hs_voted_for old \<noteq> None \<and>
        hs_voted_for new \<noteq> hs_voted_for old
      then Inl (Sqlite ''single-vote-per-term violation in consensus_meta'')
      else Inr ())"

definition write_hard_state_tx ::
  "sha256_fn \<Rightarrow> ConsensusTerm \<Rightarrow> CellIdentity option \<Rightarrow> LogIndex \<Rightarrow> SqliteConsensusStore \<Rightarrow>
   SqliteConsensusStore store_result" where
  "write_hard_state_tx sha trm voted commit db =
     result_bind (u64_to_i64 trm) (\<lambda>trm_i64. result_bind (u64_to_i64 commit) (\<lambda>commit_i64.
       case consensus_meta db of
         None \<Rightarrow> Inr db
       | Some old \<Rightarrow>
           let new = \<lparr>hs_current_term = trm_i64, hs_voted_for = map_option to_be voted,
             hs_commit_index = commit_i64,
             hs_sha256 = to_be (compute_hard_state_sha256 sha trm voted commit)\<rparr>
           in result_bind (meta_trigger old new) (\<lambda>_. Inr (db\<lparr>consensus_meta := Some new\<rparr>))))"

definition genesis_row :: "sha256_fn \<Rightarrow> RawHardStateRow" where
  "genesis_row sha = \<lparr>hs_current_term = 0, hs_voted_for = None, hs_commit_index = 0,
     hs_sha256 = to_be (compute_hard_state_sha256 sha 0 None 0)\<rparr>"

definition initialize_strict_schema :: "sha256_fn \<Rightarrow> SqliteConsensusStore \<Rightarrow> SqliteConsensusStore" where
  "initialize_strict_schema sha db =
     (case consensus_meta db of
        None \<Rightarrow> db\<lparr>consensus_meta := Some (genesis_row sha)\<rparr>
      | Some _ \<Rightarrow> db)"

section \<open>Log rows\<close>

definition raw_log_row :: "RaftLogEntry \<Rightarrow> RawLogRow" where
  "raw_log_row e =
     \<lparr>lr_log_index = int (re_index e), lr_term = int (re_term e),
      lr_command_kind = int (unat (family_as_u8 (family_code (command (re_proposal e))))),
      lr_idempotency_key = to_be (idempotency_key (re_proposal e)),
      lr_payload_bytes = encode_command_body (re_proposal e),
      lr_entry_sha256 = to_be (re_entry_sha256 e)\<rparr>"

definition insert_log_row :: "RawLogRow \<Rightarrow> SqliteConsensusStore \<Rightarrow> SqliteConsensusStore store_result" where
  "insert_log_row row db =
     (if lr_log_index row < 1 \<or> lr_term row < 1 \<or> lr_command_kind row \<notin> {1, 2, 3, 4} \<or>
        length (lr_idempotency_key row) \<noteq> 16 \<or> length (lr_entry_sha256 row) \<noteq> 32
      then Inl (Sqlite ''CHECK constraint failed'')
      else if bt_contains (consensus_log db) (lr_log_index row)
      then Inl (Sqlite ''UNIQUE constraint failed: consensus_log.log_index'')
      else Inr (db\<lparr>consensus_log := bt_insert (lr_log_index row) row (consensus_log db)\<rparr>))"

fun append_entries_tx ::
  "sha256_fn \<Rightarrow> RaftLogEntry list \<Rightarrow> SqliteConsensusStore \<Rightarrow> SqliteConsensusStore store_result" where
  "append_entries_tx sha [] db = Inr db"
| "append_entries_tx sha (entry # entries) db =
     (if \<not> verify_integrity sha entry
      then Inl (IntegrityCorrupted ''refusing to append entry with invalid entry_sha256'')
      else result_bind (u64_to_i64 (re_index entry)) (\<lambda>_. result_bind (u64_to_i64 (re_term entry)) (\<lambda>_.
        result_bind (insert_log_row (raw_log_row entry) db) (append_entries_tx sha entries))))"

definition verify_and_hydrate_log_row :: "sha256_fn \<Rightarrow> RawLogRow \<Rightarrow> RaftLogEntry store_result" where
  "verify_and_hydrate_log_row sha raw =
     result_bind (i64_to_u64 ''negative log_index'' (lr_log_index raw)) (\<lambda>index.
     result_bind (i64_to_u64 ''negative term'' (lr_term raw)) (\<lambda>trm.
     if index = 0 \<or> trm = 0 then Inl (IntegrityCorrupted ''invalid zero index/term'')
     else if lr_command_kind raw < 0 \<or> lr_command_kind raw > 255
     then Inl (IntegrityCorrupted ''out-of-range command_kind'')
     else result_bind (map_err (\<lambda>_. IntegrityCorrupted ''forbidden command_kind in consensus_log'')
         (from_wire_tag (of_int (lr_command_kind raw)))) (\<lambda>family.
       result_bind (blob16 ''idempotency_key length != 16'' (lr_idempotency_key raw)) (\<lambda>key.
       result_bind (blob32 ''entry_sha256 length != 32'' (lr_entry_sha256 raw)) (\<lambda>stored.
       if stored \<noteq> compute_log_entry_sha256 sha index trm (family_as_u8 family) key (lr_payload_bytes raw)
       then Inl (IntegrityCorrupted ''entry_sha256 mismatch'')
       else result_bind (map_err (\<lambda>_. IntegrityCorrupted ''corrupted command payload'')
           (decode_command_body family key (lr_payload_bytes raw))) (\<lambda>proposal.
         Inr \<lparr>re_index = index, re_term = trm, re_proposal = proposal, re_entry_sha256 = stored\<rparr>))))))"

text \<open>\<open>DELETE FROM consensus_log WHERE ...\<close> under the \<open>BEFORE DELETE\<close> trigger: a committed row that no
  durable snapshot covers aborts the statement.\<close>

definition snapshot_cover :: "SqliteConsensusStore \<Rightarrow> int" where
  "snapshot_cover db = (case consensus_snapshot db of Some row \<Rightarrow> sr_included_index row | None \<Rightarrow> 0)"

definition delete_protected :: "SqliteConsensusStore \<Rightarrow> int \<Rightarrow> bool" where
  "delete_protected db idx =
     (case consensus_meta db of
        Some row \<Rightarrow> idx \<le> hs_commit_index row \<and> idx > snapshot_cover db
      | None \<Rightarrow> False)"

definition delete_log_where :: "(int \<Rightarrow> bool) \<Rightarrow> SqliteConsensusStore \<Rightarrow> SqliteConsensusStore store_result" where
  "delete_log_where del db =
     (if list_ex (\<lambda>(idx, _). del idx \<and> delete_protected db idx) (consensus_log db)
      then Inl (Sqlite ''cannot delete committed log entry not covered by durable snapshot'')
      else Inr (db\<lparr>consensus_log := filter (\<lambda>(idx, _). \<not> del idx) (consensus_log db)\<rparr>))"

section \<open>Snapshot rows\<close>

definition read_snapshot_row_conn :: "SqliteConsensusStore \<Rightarrow> StoredSnapshotRow option store_result" where
  "read_snapshot_row_conn db =
     (case consensus_snapshot db of
        None \<Rightarrow> Inr None
      | Some row \<Rightarrow>
          result_bind (i64_to_u64 ''negative snapshot index'' (sr_included_index row)) (\<lambda>index.
          result_bind (i64_to_u64 ''negative snapshot term'' (sr_included_term row)) (\<lambda>trm.
          result_bind (i64_to_u64 ''negative snapshot len'' (sr_byte_len row)) (\<lambda>len.
          result_bind (blob32 ''snapshot state_root_digest len != 32'' (sr_state_root_digest row)) (\<lambda>root.
          result_bind (blob32 ''snapshot_sha256 len != 32'' (sr_snapshot_sha256 row)) (\<lambda>digest.
            Inr (Some \<lparr>ss_meta = \<lparr>included_index = index, included_term = trm, meta_state_root = root\<rparr>,
              ss_file_name = sr_file_name row, ss_byte_len = len, ss_snapshot_sha256 = digest\<rparr>)))))))"

definition upsert_snapshot_row_tx ::
  "SnapshotMetadata \<Rightarrow> SnapshotFile \<Rightarrow> nat \<Rightarrow> bytes32 \<Rightarrow> SqliteConsensusStore \<Rightarrow>
   SqliteConsensusStore store_result" where
  "upsert_snapshot_row_tx meta file byte_len digest db =
     result_bind (u64_to_i64 (included_index meta)) (\<lambda>index.
     result_bind (u64_to_i64 (included_term meta)) (\<lambda>trm.
     result_bind (u64_to_i64 byte_len) (\<lambda>len.
       if index < 1 \<or> trm < 1 \<or> len < 76 then Inl (Sqlite ''CHECK constraint failed'')
       else if (case consensus_snapshot db of Some old \<Rightarrow> index < sr_included_index old | None \<Rightarrow> False)
       then Inl (Sqlite ''consensus_snapshot.included_index regression forbidden'')
       else Inr (db\<lparr>consensus_snapshot := Some \<lparr>sr_included_index = index, sr_included_term = trm,
         sr_state_root_digest = to_be (meta_state_root meta), sr_file_name = file,
         sr_byte_len = len, sr_snapshot_sha256 = to_be digest\<rparr>\<rparr>))))"

text \<open>File names: both numbers are padded with zeros to twenty digits.\<close>

fun decimal :: "nat \<Rightarrow> string" where
  "decimal n = (if n < 10 then [] else decimal (n div 10)) @ [char_of (48 + n mod 10)]"

declare decimal.simps [simp del]

definition pad20 :: "nat \<Rightarrow> string" where
  "pad20 n = replicate (20 - length (decimal n)) (CHR ''0'') @ decimal n"

definition snapshot_file_name :: "LogIndex \<Rightarrow> ConsensusTerm \<Rightarrow> SnapshotFile" where
  "snapshot_file_name index trm = ''snapshot-'' @ pad20 index @ ''-'' @ pad20 trm @ ''.bin''"

definition extension :: "string \<Rightarrow> string option" where
  "extension f = (if CHR ''.'' \<in> set f then Some (rev (takeWhile (\<lambda>c. c \<noteq> CHR ''.'') (rev f))) else None)"

definition ascii_lower :: "char \<Rightarrow> char" where
  "ascii_lower c = (let n = of_char c :: nat in if 65 \<le> n \<and> n \<le> 90 then char_of (n + 32) else c)"

definition is_snapshot_bin :: "string \<Rightarrow> bool" where
  "is_snapshot_bin f = (take 9 f = ''snapshot-'' \<and> map_option (map ascii_lower) (extension f) = Some ''bin'')"

definition write_atomic_snapshot_file :: "SnapshotFile \<Rightarrow> byte list \<Rightarrow> SqliteConsensusStore \<Rightarrow> SqliteConsensusStore" where
  "write_atomic_snapshot_file file bytes db = db\<lparr>snapshot_files := (snapshot_files db)(file \<mapsto> bytes)\<rparr>"

definition retire_obsolete_snapshot_files :: "SnapshotFile \<Rightarrow> SqliteConsensusStore \<Rightarrow> SqliteConsensusStore" where
  "retire_obsolete_snapshot_files active db =
     db\<lparr>snapshot_files := (\<lambda>f. if is_snapshot_bin f \<and> f \<noteq> active then None else snapshot_files db f)\<rparr>"

definition log_term_at :: "SqliteConsensusStore \<Rightarrow> int \<Rightarrow> int option" where
  "log_term_at db idx = map_option lr_term (bt_get (consensus_log db) idx)"

definition install_snapshot_in_tx ::
  "sha256_fn \<Rightarrow> SnapshotMetadata \<Rightarrow> SnapshotFile \<Rightarrow> nat \<Rightarrow> bytes32 \<Rightarrow> SqliteConsensusStore \<Rightarrow>
   SqliteConsensusStore store_result" where
  "install_snapshot_in_tx sha meta file byte_len digest db =
     result_bind (read_and_verify_hard_state_conn sha db) (\<lambda>(cur_term, cur_voted, cur_commit).
     result_bind (upsert_snapshot_row_tx meta file byte_len digest db) (\<lambda>db1.
     result_bind (u64_to_i64 (included_index meta)) (\<lambda>index.
     result_bind
       (if log_term_at db1 index = Some (int (included_term meta))
        then delete_log_where (\<lambda>idx. idx \<le> index) db1
        else if cur_commit > included_index meta
        then Inl (IntegrityCorrupted ''refusing InstallSnapshot'')
        else delete_log_where (\<lambda>_. True) db1) (\<lambda>db2.
       let next_commit = max cur_commit (included_index meta);
           next_term = max cur_term (included_term meta);
           next_voted = (if next_term > cur_term then None else cur_voted)
       in write_hard_state_tx sha next_term next_voted next_commit db2))))"

definition verify_commit_bound_covered_tx :: "LogIndex \<Rightarrow> SqliteConsensusStore \<Rightarrow> unit store_result" where
  "verify_commit_bound_covered_tx commit db =
     (if commit = 0 then Inr ()
      else result_bind (read_snapshot_row_conn db) (\<lambda>snap.
        let snap_idx = (case snap of Some s \<Rightarrow> included_index (ss_meta s) | None \<Rightarrow> 0)
        in if commit \<le> snap_idx then Inr ()
           else
             let max_log = (if consensus_log db = [] then 0 else nat (fst (last (consensus_log db))))
             in if max_log < commit then Inl (IntegrityCorrupted ''cannot advance commit_index'')
                else Inr ()))"

section \<open>Operations of the store\<close>

definition persist_hard_state ::
  "sha256_fn \<Rightarrow> ConsensusTerm \<Rightarrow> CellIdentity option \<Rightarrow> SqliteConsensusStore \<Rightarrow> SqliteConsensusStore store_result" where
  "persist_hard_state sha trm voted db =
     result_bind (read_and_verify_hard_state_conn sha db) (\<lambda>(_, _, commit).
       write_hard_state_tx sha trm voted commit db)"

definition append_entries ::
  "sha256_fn \<Rightarrow> RaftLogEntry list \<Rightarrow> SqliteConsensusStore \<Rightarrow> SqliteConsensusStore store_result" where
  "append_entries sha entries db = (if entries = [] then Inr db else append_entries_tx sha entries db)"

definition truncate_log_suffix_from ::
  "sha256_fn \<Rightarrow> LogIndex \<Rightarrow> SqliteConsensusStore \<Rightarrow> SqliteConsensusStore store_result" where
  "truncate_log_suffix_from sha from_index db =
     result_bind (read_and_verify_hard_state_conn sha db) (\<lambda>(_, _, commit).
       if from_index \<le> commit then Inl (IntegrityCorrupted ''refusing to truncate committed index'')
       else result_bind (u64_to_i64 from_index) (\<lambda>idx. delete_log_where (\<lambda>i. i \<ge> idx) db))"

definition advance_commit_index ::
  "sha256_fn \<Rightarrow> LogIndex \<Rightarrow> SqliteConsensusStore \<Rightarrow> SqliteConsensusStore store_result" where
  "advance_commit_index sha commit db =
     result_bind (read_and_verify_hard_state_conn sha db) (\<lambda>(trm, voted, prev_commit).
       if commit < prev_commit then Inl (IntegrityCorrupted ''commit_index regression'')
       else result_bind (verify_commit_bound_covered_tx commit db) (\<lambda>_.
         write_hard_state_tx sha trm voted commit db))"

definition read_log_entry :: "sha256_fn \<Rightarrow> LogIndex \<Rightarrow> SqliteConsensusStore \<Rightarrow> RaftLogEntry option store_result" where
  "read_log_entry sha log_index db =
     result_bind (u64_to_i64 log_index) (\<lambda>idx.
       case bt_get (consensus_log db) idx of
         None \<Rightarrow> Inr None
       | Some row \<Rightarrow> result_bind (verify_and_hydrate_log_row sha row) (\<lambda>e. Inr (Some e)))"

fun read_contiguous :: "sha256_fn \<Rightarrow> LogIndex \<Rightarrow> RawLogRow list \<Rightarrow> RaftLogEntry list store_result" where
  "read_contiguous sha expected [] = Inr []"
| "read_contiguous sha expected (row # rows) =
     result_bind (verify_and_hydrate_log_row sha row) (\<lambda>entry.
       if re_index entry \<noteq> expected then Inl (IntegrityCorrupted ''non-contiguous log range'')
       else result_bind (read_contiguous sha (sat_add64 expected 1) rows) (\<lambda>es. Inr (entry # es)))"

definition read_log_range ::
  "sha256_fn \<Rightarrow> LogIndex \<Rightarrow> LogIndex \<Rightarrow> SqliteConsensusStore \<Rightarrow> RaftLogEntry list store_result" where
  "read_log_range sha start_incl end_incl db =
     (if start_incl = 0 \<or> end_incl < start_incl then Inr []
      else result_bind (u64_to_i64 start_incl) (\<lambda>lo. result_bind (u64_to_i64 end_incl) (\<lambda>hi.
        read_contiguous sha start_incl
          (map snd (filter (\<lambda>(idx, _). lo \<le> idx \<and> idx \<le> hi) (consensus_log db))))))"

definition matches_meta :: "sha256_fn \<Rightarrow> ControlPlaneStateMachine \<Rightarrow> SnapshotMetadata \<Rightarrow> bool" where
  "matches_meta sha sm meta = (unat (last_applied_index sm) = included_index meta \<and>
     unat (last_applied_term sm) = included_term meta \<and>
     state_root_digest sha sm = Some (meta_state_root meta))"

text \<open>\<open>create_snapshot\<close> and \<open>install_snapshot\<close> return the store in both cases: the file is written
  before the transaction. An accepted snapshot always has a state root, so \<open>matches_meta\<close> compares
  digests that exist.\<close>

definition create_snapshot ::
  "sha256_fn \<Rightarrow> LogIndex \<Rightarrow> ConsensusTerm \<Rightarrow> byte list \<Rightarrow> SqliteConsensusStore \<Rightarrow>
   SnapshotMetadata store_run \<times> SqliteConsensusStore" where
  "create_snapshot sha index trm bytes db =
     (if index = 0 \<or> trm = 0 then (Inl (Refused (InvalidSnapshotBoundary ''snapshot included_index and included_term must be >= 1'')), db)
      else case decode_snapshot sha bytes of
        Inl _ \<Rightarrow> (Inl (Refused (IntegrityCorrupted ''refusing to persist invalid snapshot payload'')), db)
      | Inr sm \<Rightarrow>
          if unat (last_applied_index sm) \<noteq> index \<or> unat (last_applied_term sm) \<noteq> trm
          then (Inl (Refused (InvalidSnapshotBoundary ''snapshot header != requested'')), db)
          else case state_root_digest sha sm of
            None \<Rightarrow> (Inl DigestPanicked, db)
          | Some root \<Rightarrow>
              let meta = \<lparr>included_index = index, included_term = trm, meta_state_root = root\<rparr>;
                  digest = compute_snapshot_transfer_sha256 sha index trm root bytes;
                  file = snapshot_file_name index trm;
                  db1 = write_atomic_snapshot_file file bytes db;
                  tx = result_bind (read_and_verify_hard_state_conn sha db1) (\<lambda>(_, _, commit).
                    if index > commit
                    then Inl (InvalidSnapshotBoundary ''cannot snapshot uncommitted index'')
                    else result_bind (read_snapshot_row_conn db1) (\<lambda>prev.
                      if (case prev of Some p \<Rightarrow> index < included_index (ss_meta p) | None \<Rightarrow> False)
                      then Inl (InvalidSnapshotBoundary ''snapshot regression'')
                      else upsert_snapshot_row_tx meta file (length bytes) digest db1))
              in case tx of
                   Inl e \<Rightarrow> (Inl (Refused e), db1)
                 | Inr db2 \<Rightarrow> (Inr meta, retire_obsolete_snapshot_files file db2))"

definition install_snapshot ::
  "sha256_fn \<Rightarrow> SnapshotMetadata \<Rightarrow> byte list \<Rightarrow> SqliteConsensusStore \<Rightarrow>
   ControlPlaneStateMachine store_result \<times> SqliteConsensusStore" where
  "install_snapshot sha meta bytes db =
     (case decode_snapshot sha bytes of
        Inl _ \<Rightarrow> (Inl (IntegrityCorrupted ''refusing to install corrupt snapshot''), db)
      | Inr sm \<Rightarrow>
          if \<not> matches_meta sha sm meta
          then (Inl (IntegrityCorrupted ''InstallSnapshot metadata mismatched decoded state machine''), db)
          else
            let digest = compute_snapshot_transfer_sha256 sha (included_index meta) (included_term meta)
                  (meta_state_root meta) bytes;
                file = snapshot_file_name (included_index meta) (included_term meta);
                db1 = write_atomic_snapshot_file file bytes db
            in case install_snapshot_in_tx sha meta file (length bytes) digest db1 of
                 Inl e \<Rightarrow> (Inl e, db1)
               | Inr db2 \<Rightarrow> (Inr sm, retire_obsolete_snapshot_files file db2))"

definition compact_log_up_to :: "LogIndex \<Rightarrow> SqliteConsensusStore \<Rightarrow> SqliteConsensusStore store_result" where
  "compact_log_up_to up_to db =
     (if up_to = 0 then Inr db
      else result_bind (read_snapshot_row_conn db) (\<lambda>snap.
        case snap of
          None \<Rightarrow> Inl (InvalidSnapshotBoundary ''cannot compact log without a durable snapshot'')
        | Some s \<Rightarrow>
            if up_to > included_index (ss_meta s)
            then Inl (InvalidSnapshotBoundary ''cannot compact log > snapshot.included_index'')
            else result_bind (u64_to_i64 up_to) (\<lambda>idx. delete_log_where (\<lambda>i. i \<le> idx) db)))"

section \<open>Applying the effects of a step\<close>

type_synonym StagedSnapshot = "SnapshotMetadata \<times> SnapshotFile \<times> nat \<times> bytes32 \<times> ControlPlaneStateMachine"

fun is_storage_effect :: "ConsensusEffect \<Rightarrow> bool" where
  "is_storage_effect (PersistHardState _ _) = True"
| "is_storage_effect (InstallSnapshot _ _) = True"
| "is_storage_effect (TruncateLogSuffixFrom _) = True"
| "is_storage_effect (AppendLogEntries _) = True"
| "is_storage_effect (AdvanceCommitIndex _ _ _) = True"
| "is_storage_effect _ = False"

text \<open>The first pass writes the snapshot files and keeps the last staged one.\<close>

fun stage_snapshots ::
  "sha256_fn \<Rightarrow> ConsensusEffect list \<Rightarrow> StagedSnapshot option \<Rightarrow> SqliteConsensusStore \<Rightarrow>
   StagedSnapshot option store_result \<times> SqliteConsensusStore" where
  "stage_snapshots sha [] staged db = (Inr staged, db)"
| "stage_snapshots sha (InstallSnapshot meta bytes # effects) staged db =
     (case decode_snapshot sha bytes of
        Inl _ \<Rightarrow> (Inl (IntegrityCorrupted ''InstallSnapshot effect carried invalid snapshot''), db)
      | Inr sm \<Rightarrow>
          if \<not> matches_meta sha sm meta
          then (Inl (IntegrityCorrupted ''InstallSnapshot effect metadata mismatch''), db)
          else
            let digest = compute_snapshot_transfer_sha256 sha (included_index meta) (included_term meta)
                  (meta_state_root meta) bytes;
                file = snapshot_file_name (included_index meta) (included_term meta)
            in stage_snapshots sha effects (Some (meta, file, length bytes, digest, sm))
                 (write_atomic_snapshot_file file bytes db))"
| "stage_snapshots sha (_ # effects) staged db = stage_snapshots sha effects staged db"

record EffectCursor =
  ec_term :: ConsensusTerm
  ec_voted_for :: "CellIdentity option"
  ec_commit :: LogIndex
  ec_dirty :: bool
  ec_db :: SqliteConsensusStore

definition flush_hard_state :: "sha256_fn \<Rightarrow> EffectCursor \<Rightarrow> SqliteConsensusStore store_result" where
  "flush_hard_state sha cur =
     (if ec_dirty cur then write_hard_state_tx sha (ec_term cur) (ec_voted_for cur) (ec_commit cur) (ec_db cur)
      else Inr (ec_db cur))"

fun apply_effect ::
  "sha256_fn \<Rightarrow> StagedSnapshot option \<Rightarrow> ConsensusEffect \<Rightarrow> EffectCursor \<Rightarrow> EffectCursor store_run" where
  "apply_effect sha staged (PersistHardState trm voted) cur =
     Inr (cur\<lparr>ec_term := trm, ec_voted_for := voted, ec_dirty := True\<rparr>)"
| "apply_effect sha staged (InstallSnapshot meta bytes) cur =
     (case staged of
        None \<Rightarrow> Inl StagingPanicked
      | Some (_, file, len, digest, _) \<Rightarrow>
          result_bind (map_err Refused (flush_hard_state sha cur)) (\<lambda>db.
          result_bind (map_err Refused (install_snapshot_in_tx sha meta file len digest db)) (\<lambda>db1.
            Inr (cur\<lparr>ec_dirty := False, ec_db := db1,
              ec_commit := max (ec_commit cur) (included_index meta)\<rparr>))))"
| "apply_effect sha staged (TruncateLogSuffixFrom from_index) cur =
     (if from_index \<le> ec_commit cur
      then Inl (Refused (IntegrityCorrupted ''TruncateLogSuffixFrom <= commit_index''))
      else result_bind (map_err Refused (u64_to_i64 from_index)) (\<lambda>idx.
        result_bind (map_err Refused (delete_log_where (\<lambda>i. i \<ge> idx) (ec_db cur))) (\<lambda>db. Inr (cur\<lparr>ec_db := db\<rparr>))))"
| "apply_effect sha staged (AppendLogEntries entries) cur =
     result_bind (map_err Refused (append_entries_tx sha entries (ec_db cur))) (\<lambda>db. Inr (cur\<lparr>ec_db := db\<rparr>))"
| "apply_effect sha staged (AdvanceCommitIndex commit _ _) cur =
     (if commit < ec_commit cur then Inl (Refused (IntegrityCorrupted ''AdvanceCommitIndex < current commit_index''))
      else result_bind (map_err Refused (verify_commit_bound_covered_tx commit (ec_db cur))) (\<lambda>_.
        Inr (cur\<lparr>ec_commit := commit, ec_dirty := True\<rparr>)))"
| "apply_effect sha staged _ cur = Inr cur"

fun apply_effects ::
  "sha256_fn \<Rightarrow> StagedSnapshot option \<Rightarrow> ConsensusEffect list \<Rightarrow> EffectCursor \<Rightarrow> EffectCursor store_run" where
  "apply_effects sha staged [] cur = Inr cur"
| "apply_effects sha staged (eff # effects) cur =
     result_bind (apply_effect sha staged eff cur) (apply_effects sha staged effects)"

definition effects_tx ::
  "sha256_fn \<Rightarrow> StagedSnapshot option \<Rightarrow> ConsensusEffect list \<Rightarrow> SqliteConsensusStore \<Rightarrow> SqliteConsensusStore store_run" where
  "effects_tx sha staged effects db =
     result_bind (map_err Refused (read_and_verify_hard_state_conn sha db)) (\<lambda>(trm, voted, commit).
     result_bind (apply_effects sha staged effects
       \<lparr>ec_term = trm, ec_voted_for = voted, ec_commit = commit, ec_dirty = False, ec_db = db\<rparr>)
       (\<lambda>cur. map_err Refused (flush_hard_state sha cur)))"

text \<open>After the transaction the state machine advances over the newly committed entries.\<close>

type_synonym receipts = "(RaftLogEntry \<times> ConsensusCommitReceipt) list"

fun apply_committed ::
  "sha256_fn \<Rightarrow> RaftLogEntry list \<Rightarrow> ControlPlaneStateMachine \<Rightarrow>
   receipts store_run \<times> ControlPlaneStateMachine" where
  "apply_committed sha [] sm = (Inr [], sm)"
| "apply_committed sha (entry # entries) sm =
     (if re_index entry \<le> unat (last_applied_index sm) then apply_committed sha entries sm
      else if re_index entry = 0 then (Inl (Refused (IntegrityCorrupted ''committed entry had zero log_index'')), sm)
      else if re_term entry = 0 then (Inl (Refused (IntegrityCorrupted ''committed entry had zero term'')), sm)
      else case apply_committed_entry sha (of_nat (re_index entry)) (of_nat (re_term entry))
          (re_proposal entry) sm of
        Inl p \<Rightarrow> (Inl (ApplyPanicked p), sm)
      | Inr (sm1, outcome) \<Rightarrow>
          (case state_root_digest sha sm1 of
             None \<Rightarrow> (Inl DigestPanicked, sm1)
           | Some root \<Rightarrow>
               (case apply_committed sha entries sm1 of
                  (Inl f, sm2) \<Rightarrow> (Inl f, sm2)
                | (Inr rest, sm2) \<Rightarrow>
                    (Inr ((entry, \<lparr>rc_consensus_commit_index = of_nat (re_index entry),
                       rc_term = of_nat (re_term entry), rc_state_root_digest = root,
                       rc_outcome = outcome\<rparr>) # rest), sm2))))"

definition committed_of :: "ConsensusEffect list \<Rightarrow> RaftLogEntry list" where
  "committed_of effects = concat (map (\<lambda>eff. case eff of AdvanceCommitIndex _ _ es \<Rightarrow> es | _ \<Rightarrow> []) effects)"

definition apply_durable_effects ::
  "sha256_fn \<Rightarrow> ConsensusEffect list \<Rightarrow> SqliteConsensusStore \<Rightarrow> ControlPlaneStateMachine \<Rightarrow>
   receipts store_run \<times> SqliteConsensusStore \<times> ControlPlaneStateMachine" where
  "apply_durable_effects sha effects db sm =
     (if \<not> list_ex is_storage_effect effects then (Inr [], db, sm)
      else case stage_snapshots sha effects None db of
        (Inl e, db1) \<Rightarrow> (Inl (Refused e), db1, sm)
      | (Inr staged, db1) \<Rightarrow>
          (case effects_tx sha staged effects db1 of
             Inl e \<Rightarrow> (Inl e, db1, sm)
           | Inr db2 \<Rightarrow>
               let (db3, sm1) = (case staged of
                     None \<Rightarrow> (db2, sm)
                   | Some (_, file, _, _, installed) \<Rightarrow>
                       (retire_obsolete_snapshot_files file db2,
                        if last_applied_index installed \<ge> last_applied_index sm then installed else sm));
                   (res, sm2) = apply_committed sha (committed_of effects) sm1
               in (res, db3, sm2)))"

section \<open>Recovery\<close>

definition load_snapshot ::
  "sha256_fn \<Rightarrow> SqliteConsensusStore \<Rightarrow>
   (ControlPlaneStateMachine \<times> (SnapshotMetadata \<times> byte list) option \<times> SqliteConsensusStore) store_result" where
  "load_snapshot sha db =
     result_bind (read_snapshot_row_conn db) (\<lambda>snap.
       case snap of
         None \<Rightarrow> Inr (sm_new, None, db)
       | Some row \<Rightarrow>
           (case snapshot_files db (ss_file_name row) of
              None \<Rightarrow> Inl (IntegrityCorrupted ''missing or unreadable snapshot file'')
            | Some bytes \<Rightarrow>
                if length bytes \<noteq> ss_byte_len row
                then Inl (IntegrityCorrupted ''snapshot byte length'')
                else if compute_snapshot_transfer_sha256 sha (included_index (ss_meta row))
                    (included_term (ss_meta row)) (meta_state_root (ss_meta row)) bytes
                    \<noteq> ss_snapshot_sha256 row
                then Inl (IntegrityCorrupted ''snapshot SHA-256 mismatch'')
                else case decode_snapshot sha bytes of
                    Inl _ \<Rightarrow> Inl (IntegrityCorrupted ''snapshot decode failed'')
                  | Inr sm \<Rightarrow>
                      if \<not> matches_meta sha sm (ss_meta row)
                      then Inl (IntegrityCorrupted ''snapshot metadata mismatched decoded state machine'')
                      else Inr (sm, Some (ss_meta row, bytes),
                        retire_obsolete_snapshot_files (ss_file_name row) db)))"

fun verify_no_gap :: "LogIndex option \<Rightarrow> RaftLogEntry list \<Rightarrow> unit store_result" where
  "verify_no_gap expected_next [] = Inr ()"
| "verify_no_gap expected_next (entry # entries) =
     (if (case expected_next of Some e \<Rightarrow> re_index entry \<noteq> e | None \<Rightarrow> False)
      then Inl (IntegrityCorrupted ''log index gap detected during recovery'')
      else verify_no_gap (Some (sat_add64 (re_index entry) 1)) entries)"

fun hydrate_rows :: "sha256_fn \<Rightarrow> RawLogRow list \<Rightarrow> RaftLogEntry list store_result" where
  "hydrate_rows sha [] = Inr []"
| "hydrate_rows sha (row # rows) =
     result_bind (verify_and_hydrate_log_row sha row) (\<lambda>e.
       result_bind (hydrate_rows sha rows) (\<lambda>es. Inr (e # es)))"

text \<open>The replay of the committed tail; a panic of the state machine stops recovery.\<close>

fun replay_committed ::
  "sha256_fn \<Rightarrow> LogIndex \<Rightarrow> RaftLogEntry list \<Rightarrow> ControlPlaneStateMachine \<Rightarrow>
   (StoreFailure, ControlPlaneStateMachine) result" where
  "replay_committed sha commit [] sm = Inr sm"
| "replay_committed sha commit (entry # entries) sm =
     (if re_index entry > commit then Inr sm
      else if re_index entry = 0 then Inl (Refused (IntegrityCorrupted ''zero log_index in tail''))
      else if re_term entry = 0 then Inl (Refused (IntegrityCorrupted ''zero term in tail''))
      else case apply_committed_entry sha (of_nat (re_index entry)) (of_nat (re_term entry))
          (re_proposal entry) sm of
        Inl p \<Rightarrow> Inl (ApplyPanicked p)
      | Inr (sm1, _) \<Rightarrow> replay_committed sha commit entries sm1)"

definition load_tail ::
  "sha256_fn \<Rightarrow> LogIndex \<Rightarrow> LogIndex \<Rightarrow> SqliteConsensusStore \<Rightarrow> RaftLogEntry list store_result" where
  "load_tail sha snapshot_included commit db =
     result_bind (hydrate_rows sha (map snd (consensus_log db))) (\<lambda>all_rows.
     result_bind (verify_no_gap None all_rows) (\<lambda>_.
       let tail = filter (\<lambda>e. re_index e > snapshot_included) all_rows;
           last_available = (if tail = [] then snapshot_included else re_index (last tail))
       in if tail \<noteq> [] \<and> re_index (hd tail) \<noteq> sat_add64 snapshot_included 1
          then Inl (IntegrityCorrupted ''log tail does not start at snapshot_included + 1'')
          else if last_available < commit
          then Inl (IntegrityCorrupted ''durable log ends before commit_index'')
          else Inr tail))"

text \<open>Recovery returns the store in every case: an obsolete file may be gone and the prefix below the
  snapshot deleted before a later check fails.\<close>

definition load_and_verify_all ::
  "sha256_fn \<Rightarrow> SqliteConsensusStore \<Rightarrow> RecoveredConsensusState store_run \<times> SqliteConsensusStore" where
  "load_and_verify_all sha db =
     (case read_and_verify_hard_state_conn sha db of
        Inl e \<Rightarrow> (Inl (Refused e), db)
      | Inr (trm, voted, commit) \<Rightarrow>
     (case load_snapshot sha db of
        Inl e \<Rightarrow> (Inl (Refused e), db)
      | Inr (sm, snapshot, db1) \<Rightarrow>
          let included = (case snapshot of Some (m, _) \<Rightarrow> included_index m | None \<Rightarrow> 0)
          in if commit < included
             then (Inl (Refused (IntegrityCorrupted ''commit_index < snapshot.included_index'')), db1)
             else
     (case load_tail sha included commit db1 of
        Inl e \<Rightarrow> (Inl (Refused e), db1)
      | Inr tail \<Rightarrow>
     (case (if included > 0
            then result_bind (u64_to_i64 included) (\<lambda>idx. delete_log_where (\<lambda>i. i \<le> idx) db1)
            else Inr db1) of
        Inl e \<Rightarrow> (Inl (Refused e), db1)
      | Inr db2 \<Rightarrow>
     (case replay_committed sha commit tail sm of
        Inl f \<Rightarrow> (Inl f, db2)
      | Inr sm1 \<Rightarrow>
          (Inr \<lparr>rec_core_state = \<lparr>rh_current_term = trm, rh_voted_for = voted,
                  rh_commit_index = commit, rh_snapshot = snapshot, rh_log_tail = tail\<rparr>,
                rec_state_machine = sm1\<rparr>, db2))))))"

text \<open>The header check of the write-ahead log; \<open>None\<close> is an absent file.\<close>

fun sqlite_wal_checksum :: "byte list \<Rightarrow> u32 \<Rightarrow> u32 \<Rightarrow> bool \<Rightarrow> u32 \<times> u32" where
  "sqlite_wal_checksum (b0 # b1 # b2 # b3 # b4 # b5 # b6 # b7 # data) s0 s1 little_endian =
     (let rd = (\<lambda>bs. from_be (if little_endian then rev bs else bs));
          s0' = s0 + rd [b0, b1, b2, b3] + s1;
          s1' = s1 + rd [b4, b5, b6, b7] + s0'
      in sqlite_wal_checksum data s0' s1' little_endian)"
| "sqlite_wal_checksum _ s0 s1 little_endian = (s0, s1)"

definition verify_wal_header_if_present :: "byte list option \<Rightarrow> unit store_result" where
  "verify_wal_header_if_present wal =
     (case wal of
        None \<Rightarrow> Inr ()
      | Some bytes \<Rightarrow>
          if bytes = [] then Inr ()
          else if length bytes < 32 then Inl (IntegrityCorrupted ''truncated SQLite WAL header'')
          else
            let magic = (from_be (take 4 bytes) :: u32)
            in if magic \<noteq> 0x377f0682 \<and> magic \<noteq> 0x377f0683
               then Inl (IntegrityCorrupted ''corrupted SQLite WAL magic'')
               else if sqlite_wal_checksum (take 24 bytes) 0 0 (magic = 0x377f0682)
                   \<noteq> (from_be (take 4 (drop 24 bytes)), from_be (take 4 (drop 28 bytes)))
               then Inl (IntegrityCorrupted ''SQLite WAL 32-byte header checksum mismatch'')
               else Inr ())"

definition open_or_recover ::
  "sha256_fn \<Rightarrow> byte list option \<Rightarrow> SqliteConsensusStore \<Rightarrow>
   RecoveredConsensusState store_run \<times> SqliteConsensusStore" where
  "open_or_recover sha wal db =
     (case verify_wal_header_if_present wal of
        Inl e \<Rightarrow> (Inl (Refused e), db)
      | Inr _ \<Rightarrow> load_and_verify_all sha (initialize_strict_schema sha db))"

definition empty_store :: SqliteConsensusStore where
  "empty_store = \<lparr>consensus_meta = None, consensus_log = [], consensus_snapshot = None, snapshot_files = Map.empty\<rparr>"

end
