(* ===== verification/StoreRows.thy ===== *)
theory StoreRows
  imports Store CommandCodec
begin

text \<open>
  Rows of the durable store: reading accepts exactly what writing produces. A hard-state row is
  accepted when it is \<open>hard_row\<close> of the tuple returned, a log row when it is \<open>raw_log_row\<close> of the entry
  returned; the guards of the updates are stated over these tuples.
\<close>

section \<open>Blobs and integers\<close>

lemma blob16_iff [simp]: "blob16 msg bs = Inr w \<longleftrightarrow> bs = to_be w"
  using to_be_from_be [where 'a = 128 and n = 16, of bs] from_be_to_be [where 'a = 128 and n = 16, of w]
  by (auto simp: blob16_def)

lemma blob32_iff [simp]: "blob32 msg bs = Inr w \<longleftrightarrow> bs = to_be w"
  using to_be_from_be [where 'a = 256 and n = 32, of bs] from_be_to_be [where 'a = 256 and n = 32, of w]
  by (auto simp: blob32_def)

lemma i64_to_u64_iff [simp]: "i64_to_u64 msg v = Inr n \<longleftrightarrow> v = int n"
  by (auto simp: i64_to_u64_def)

lemma u64_to_i64_iff [simp]: "u64_to_i64 n = Inr v \<longleftrightarrow> v = int n \<and> n \<le> i64_max"
  by (auto simp: u64_to_i64_def)

lemma to_be16_inject [simp]: "to_be (v :: bytes16) = to_be w \<longleftrightarrow> v = w"
  by (rule to_be_inject [where n = 16]) simp

lemma to_be32_inject [simp]: "to_be (v :: bytes32) = to_be w \<longleftrightarrow> v = w"
  by (rule to_be_inject [where n = 32]) simp

section \<open>Hard state\<close>

definition hard_row :: "sha256_fn \<Rightarrow> ConsensusTerm \<Rightarrow> CellIdentity option \<Rightarrow> LogIndex \<Rightarrow> RawHardStateRow" where
  "hard_row sha t v k = \<lparr>hs_current_term = int t, hs_voted_for = map_option to_be v,
     hs_commit_index = int k, hs_sha256 = to_be (compute_hard_state_sha256 sha t v k)\<rparr>"

lemma hard_row_sel [simp]:
  "hs_current_term (hard_row sha t v k) = int t" "hs_commit_index (hard_row sha t v k) = int k"
  "hs_voted_for (hard_row sha t v k) = map_option to_be v"
  by (simp_all add: hard_row_def)

lemma genesis_row_eq: "genesis_row sha = hard_row sha 0 None 0"
  by (simp add: genesis_row_def hard_row_def)

lemma read_voted_for_iff: "read_voted_for b = Inr v \<longleftrightarrow> b = map_option to_be v \<and> v \<noteq> Some 0"
  by (cases v) (auto simp: read_voted_for_def result_bind_eq_Inr split: option.splits if_splits)

lemma read_hard_state_iff:
  "read_and_verify_hard_state_conn sha db = Inr (t, v, k) \<longleftrightarrow>
     consensus_meta db = Some (hard_row sha t v k) \<and> v \<noteq> Some 0"
  by (cases "consensus_meta db")
    (auto simp: read_and_verify_hard_state_conn_def result_bind_eq_Inr read_voted_for_iff hard_row_def
      split: if_splits)

definition hard_state_follows ::
  "ConsensusTerm \<Rightarrow> CellIdentity option \<Rightarrow> LogIndex \<Rightarrow> ConsensusTerm \<Rightarrow> CellIdentity option \<Rightarrow> LogIndex \<Rightarrow> bool" where
  "hard_state_follows t v k t' v' k' = (t \<le> t' \<and> k \<le> k' \<and> (t' = t \<and> v \<noteq> None \<longrightarrow> v' = v))"

lemma map_option_to_be16 [simp]:
  "map_option (to_be :: bytes16 \<Rightarrow> _) v = map_option to_be w \<longleftrightarrow> v = w"
  by (cases v; cases w) simp_all

lemma meta_trigger_iff:
  "meta_trigger (hard_row sha t v k) (hard_row sha t' v' k') = Inr u \<longleftrightarrow> hard_state_follows t v k t' v' k'"
  by (auto simp: meta_trigger_def hard_state_follows_def)

lemma write_hard_state_iff:
  assumes "consensus_meta db = Some (hard_row sha t v k)"
  shows "write_hard_state_tx sha t' v' k' db = Inr db' \<longleftrightarrow>
    hard_state_follows t v k t' v' k' \<and> t' \<le> i64_max \<and> k' \<le> i64_max \<and>
    db' = db\<lparr>consensus_meta := Some (hard_row sha t' v' k')\<rparr>"
proof -
  have "write_hard_state_tx sha t' v' k' db = Inr db' \<longleftrightarrow> t' \<le> i64_max \<and> k' \<le> i64_max \<and>
      (\<exists>u. meta_trigger (hard_row sha t v k) (hard_row sha t' v' k') = Inr u) \<and>
      db' = db\<lparr>consensus_meta := Some (hard_row sha t' v' k')\<rparr>"
    using assms by (auto simp: write_hard_state_tx_def result_bind_eq_Inr hard_row_def Let_def)
  then show ?thesis by (auto simp: meta_trigger_iff)
qed

section \<open>Log rows\<close>

lemma family_wire_tag: "from_wire_tag (of_int k) = Inr f \<and> 0 \<le> k \<and> k \<le> 255 \<longleftrightarrow> k = int (unat (family_as_u8 f))"
proof -
  have "k = int (unat (family_as_u8 f))" if "of_int k = family_as_u8 f" "0 \<le> k" "k \<le> 255"
  proof -
    have "int (unat (of_int k :: byte)) = k mod 256"
      by (simp add: unsigned_of_int take_bit_eq_mod)
    with that show ?thesis by simp
  qed
  moreover have "of_int (int (unat (family_as_u8 f))) = family_as_u8 f" by simp
  moreover have "int (unat (family_as_u8 f)) \<le> 255" by (cases f) simp_all
  ultimately show ?thesis by (auto simp: from_wire_tag_iff)
qed

definition storable :: "sha256_fn \<Rightarrow> RaftLogEntry \<Rightarrow> bool" where
  "storable sha e = (0 < re_index e \<and> 0 < re_term e \<and> verify_integrity sha e \<and>
     command_ok (command (re_proposal e)))"

lemma verify_and_hydrate_iff:
  "verify_and_hydrate_log_row sha raw = Inr e \<longleftrightarrow> raw = raw_log_row e \<and> storable sha e"
proof
  assume "verify_and_hydrate_log_row sha raw = Inr e"
  then obtain f where "from_wire_tag (of_int (lr_command_kind raw)) = Inr f"
      "0 \<le> lr_command_kind raw" "lr_command_kind raw \<le> 255"
    and rest: "lr_log_index raw = int (re_index e)" "lr_term raw = int (re_term e)"
      "0 < re_index e" "0 < re_term e" "lr_idempotency_key raw = to_be (idempotency_key (re_proposal e))"
      "lr_entry_sha256 raw = to_be (re_entry_sha256 e)"
      "re_entry_sha256 e = compute_log_entry_sha256 sha (re_index e) (re_term e) (family_as_u8 f)
         (idempotency_key (re_proposal e)) (lr_payload_bytes raw)"
      "decode_command_body f (idempotency_key (re_proposal e)) (lr_payload_bytes raw) = Inr (re_proposal e)"
    by (auto simp: verify_and_hydrate_log_row_def result_bind_eq_Inr decode_command_body_iff split: if_splits)
  then have "lr_command_kind raw = int (unat (family_as_u8 f))" using family_wire_tag by blast
  with rest show "raw = raw_log_row e \<and> storable sha e"
    by (simp add: raw_log_row_def storable_def verify_integrity_def proposal_entry_sha256_def
        decode_command_body_iff)
next
  assume a: "raw = raw_log_row e \<and> storable sha e"
  let ?f = "family_code (command (re_proposal e))"
  have "from_wire_tag (of_int (int (unat (family_as_u8 ?f)))) = Inr ?f" "int (unat (family_as_u8 ?f)) \<le> 255"
    using family_wire_tag [of "int (unat (family_as_u8 ?f))" ?f] by simp_all
  with a show "verify_and_hydrate_log_row sha raw = Inr e"
    by (auto simp: verify_and_hydrate_log_row_def result_bind_eq_Inr raw_log_row_def storable_def
        verify_integrity_def proposal_entry_sha256_def decode_command_body_iff)
qed

end
