(* ===== verification/StoreEvolution.thy ===== *)
theory StoreEvolution
  imports StoreRows
begin

text \<open>
  How the durable tables may change. \<open>db_evolves\<close> holds between the store before and after every
  operation, successful or not: the term and the commit index never go back, a vote cast in a term
  stays, the snapshot only moves forward, and a committed row is kept unchanged until a durable
  snapshot covers it. It is reflexive and transitive, so it holds along any history of operations,
  crashes and reopenings included.
\<close>

section \<open>The evolution order\<close>

definition meta_follows :: "RawHardStateRow \<Rightarrow> RawHardStateRow \<Rightarrow> bool" where
  "meta_follows old new = (hs_current_term old \<le> hs_current_term new \<and>
     hs_commit_index old \<le> hs_commit_index new \<and>
     (hs_current_term new = hs_current_term old \<and> hs_voted_for old \<noteq> None \<longrightarrow>
        hs_voted_for new = hs_voted_for old))"

definition db_evolves :: "SqliteConsensusStore \<Rightarrow> SqliteConsensusStore \<Rightarrow> bool" where
  "db_evolves db db' =
     ((\<forall>old. consensus_meta db = Some old \<longrightarrow> (\<exists>new. consensus_meta db' = Some new \<and> meta_follows old new)) \<and>
      snapshot_cover db \<le> snapshot_cover db' \<and>
      (\<forall>old idx row. consensus_meta db = Some old \<and> idx \<le> hs_commit_index old \<and> snapshot_cover db' < idx \<and>
         bt_get (consensus_log db) idx = Some row \<longrightarrow> bt_get (consensus_log db') idx = Some row))"

text \<open>What the schema and the column types guarantee of any store, intact or not: rows ordered by their
  primary key, keys and snapshot index positive 64-bit integers.\<close>

definition log_keys_ok :: "(int, RawLogRow) btree \<Rightarrow> bool" where
  "log_keys_ok l = (bt_sorted l \<and> (\<forall>(k, row)\<in>set l. k = lr_log_index row \<and> 1 \<le> k \<and> k \<le> int i64_max))"

definition db_inv :: "SqliteConsensusStore \<Rightarrow> bool" where
  "db_inv db = (log_keys_ok (consensus_log db) \<and>
     (\<forall>row. consensus_snapshot db = Some row \<longrightarrow> 1 \<le> sr_included_index row \<and> sr_included_index row \<le> int i64_max))"

lemma meta_follows_refl [simp]: "meta_follows m m"
  by (simp add: meta_follows_def)

lemma meta_follows_trans: "meta_follows a b \<Longrightarrow> meta_follows b c \<Longrightarrow> meta_follows a c"
  unfolding meta_follows_def by force

lemma db_evolves_refl [simp]: "db_evolves db db"
  by (simp add: db_evolves_def)

lemma db_evolves_trans:
  assumes "db_evolves a b" "db_evolves b c"
  shows "db_evolves a c"
proof -
  have "bt_get (consensus_log c) idx = Some row"
    if h: "consensus_meta a = Some old" "idx \<le> hs_commit_index old" "snapshot_cover c < idx"
      "bt_get (consensus_log a) idx = Some row" for old idx row
  proof -
    obtain mid where mid: "consensus_meta b = Some mid" "meta_follows old mid"
      using assms(1) h(1) unfolding db_evolves_def by blast
    have "snapshot_cover b < idx" using assms(2) h(3) by (simp add: db_evolves_def)
    then have "bt_get (consensus_log b) idx = Some row" using assms(1) h unfolding db_evolves_def by blast
    with mid h show ?thesis using assms(2) by (fastforce simp: db_evolves_def meta_follows_def)
  qed
  moreover have "\<exists>new. consensus_meta c = Some new \<and> meta_follows old new"
    if "consensus_meta a = Some old" for old
    using assms that meta_follows_trans unfolding db_evolves_def by metis
  moreover have "snapshot_cover a \<le> snapshot_cover c" using assms by (simp add: db_evolves_def)
  ultimately show ?thesis by (auto simp: db_evolves_def)
qed

text \<open>A step keeps the invariant and evolves the tables.\<close>

definition db_steps :: "SqliteConsensusStore \<Rightarrow> SqliteConsensusStore \<Rightarrow> bool" where
  "db_steps db db' = (db_inv db \<longrightarrow> db_inv db' \<and> db_evolves db db')"

lemma db_steps_refl [simp, intro]: "db_steps db db"
  by (simp add: db_steps_def)

lemma db_steps_trans [trans]: "db_steps a b \<Longrightarrow> db_steps b c \<Longrightarrow> db_steps a c"
  unfolding db_steps_def using db_evolves_trans by blast

lemma db_steps_files [simp, intro]: "db_steps db (db\<lparr>snapshot_files := f\<rparr>)"
  by (simp add: db_steps_def db_inv_def db_evolves_def snapshot_cover_def)

section \<open>Statements\<close>

lemma meta_trigger_follows: "meta_trigger old new = Inr u \<Longrightarrow> meta_follows old new"
  by (auto simp: meta_trigger_def meta_follows_def split: if_splits)

lemma write_hard_state_steps:
  assumes "write_hard_state_tx sha t v k db = Inr db'"
  shows "db_steps db db'"
proof (cases "consensus_meta db")
  case None
  then show ?thesis using assms by (auto simp: write_hard_state_tx_def result_bind_eq_Inr)
next
  case (Some old)
  then obtain new u where "meta_trigger old new = Inr u" "db' = db\<lparr>consensus_meta := Some new\<rparr>"
    using assms by (auto simp: write_hard_state_tx_def result_bind_eq_Inr Let_def)
  then show ?thesis
    using Some meta_trigger_follows by (auto simp: db_steps_def db_inv_def db_evolves_def snapshot_cover_def)
qed

lemma insert_log_row_steps:
  assumes "insert_log_row row db = Inr db'" "lr_log_index row \<le> int i64_max"
  shows "db_steps db db'"
proof -
  have "bt_get (consensus_log db) (lr_log_index row) = None" "1 \<le> lr_log_index row"
      "db' = db\<lparr>consensus_log := bt_insert (lr_log_index row) row (consensus_log db)\<rparr>"
    using assms by (auto simp: insert_log_row_def bt_contains_def split: if_splits)
  then show ?thesis
    using set_bt_insert [of "lr_log_index row" row "consensus_log db"] assms(2)
    by (auto simp: db_steps_def db_inv_def log_keys_ok_def db_evolves_def snapshot_cover_def)
qed

lemma append_entries_steps: "append_entries_tx sha es db = Inr db' \<Longrightarrow> db_steps db db'"
proof (induction es arbitrary: db)
  case (Cons e es)
  then obtain mid where "insert_log_row (raw_log_row e) db = Inr mid" "append_entries_tx sha es mid = Inr db'"
      "lr_log_index (raw_log_row e) \<le> int i64_max"
    by (auto simp: raw_log_row_def result_bind_eq_Inr split: if_splits)
  with Cons.IH insert_log_row_steps db_steps_trans show ?case by blast
qed simp

lemma bt_get_filter:
  "bt_sorted m \<Longrightarrow> bt_get (filter (\<lambda>(k, _). P k) m) k = (if P k then bt_get m k else None)"
  by (induction m) (auto simp: bt_get_def)

lemma bt_sorted_filter: "bt_sorted m \<Longrightarrow> bt_sorted (filter P m)"
  by (auto simp: bt_sorted_def sorted_wrt_filter sorted_wrt_map)

lemma delete_log_steps:
  assumes "delete_log_where del db = Inr db'"
  shows "db_steps db db'"
proof -
  have ok: "\<not> (del idx \<and> delete_protected db idx)" if "bt_get (consensus_log db) idx = Some row" for idx row
    using assms bt_get_SomeD [OF that] by (auto simp: delete_log_where_def list_ex_iff split: if_splits)
  have eq: "db' = db\<lparr>consensus_log := filter (\<lambda>(i, _). \<not> del i) (consensus_log db)\<rparr>"
    using assms by (auto simp: delete_log_where_def split: if_splits)
  have cover: "snapshot_cover db' = snapshot_cover db" by (simp add: eq snapshot_cover_def)
  have keep: "bt_get (consensus_log db') idx = Some row"
    if "bt_sorted (consensus_log db)" "bt_get (consensus_log db) idx = Some row" "delete_protected db idx"
    for idx row
    using ok [OF that(2)] that by (simp add: eq bt_get_filter)
  show ?thesis
    using keep cover by (auto simp: db_steps_def db_inv_def log_keys_ok_def db_evolves_def delete_protected_def)
      (auto simp: eq bt_sorted_filter)
qed

lemma upsert_snapshot_steps:
  assumes "upsert_snapshot_row_tx meta file len digest db = Inr db'"
  shows "db_steps db db'"
  using assms
  by (auto simp: upsert_snapshot_row_tx_def result_bind_eq_Inr db_steps_def db_inv_def db_evolves_def
      snapshot_cover_def split: if_splits option.splits)

lemma install_in_tx_steps:
  assumes "install_snapshot_in_tx sha meta file len digest db = Inr db'"
  shows "db_steps db db'"
proof -
  obtain db1 db2 t v k del where "upsert_snapshot_row_tx meta file len digest db = Inr db1"
      "delete_log_where del db1 = Inr db2" "write_hard_state_tx sha t v k db2 = Inr db'"
    using assms by (auto simp: install_snapshot_in_tx_def result_bind_eq_Inr Let_def split: if_splits prod.splits)
  then show ?thesis
    using upsert_snapshot_steps delete_log_steps write_hard_state_steps db_steps_trans by metis
qed

section \<open>Operations\<close>

lemma flush_steps: "flush_hard_state sha cur = Inr db \<Longrightarrow> db_steps (ec_db cur) db"
  by (auto simp: flush_hard_state_def write_hard_state_steps split: if_splits)

lemma apply_effect_steps: "apply_effect sha staged eff cur = Inr cur' \<Longrightarrow> db_steps (ec_db cur) (ec_db cur')"
  using flush_steps install_in_tx_steps db_steps_trans
  by (cases eff)
    (auto simp: result_bind_eq_Inr append_entries_steps delete_log_steps split: if_splits option.splits, blast)

lemma apply_effects_steps: "apply_effects sha staged effs cur = Inr cur' \<Longrightarrow> db_steps (ec_db cur) (ec_db cur')"
proof (induction effs arbitrary: cur)
  case (Cons eff effs)
  then show ?case using apply_effect_steps db_steps_trans by (fastforce simp: result_bind_eq_Inr)
qed simp

lemma effects_tx_steps: "effects_tx sha staged effs db = Inr db' \<Longrightarrow> db_steps db db'"
  by (fastforce simp: effects_tx_def result_bind_eq_Inr
      dest: apply_effects_steps flush_steps intro: db_steps_trans)

lemma write_file_steps [simp, intro]: "db_steps db (write_atomic_snapshot_file f b db)"
  by (simp add: write_atomic_snapshot_file_def)

lemma retire_steps [simp, intro]: "db_steps db (retire_obsolete_snapshot_files f db)"
  by (simp add: retire_obsolete_snapshot_files_def)

lemma stage_steps: "db_steps db (snd (stage_snapshots sha effs staged db))"
  by (induction sha effs staged db rule: stage_snapshots.induct)
    (auto simp: Let_def split: sum.splits intro: db_steps_trans [OF write_file_steps])

lemma apply_durable_effects_steps: "db_steps db (fst (snd (apply_durable_effects sha effs db sm)))"
proof -
  obtain r db1 where st: "stage_snapshots sha effs None db = (r, db1)" by fastforce
  then have s1: "db_steps db db1" using stage_steps [of db sha effs None] by simp
  show ?thesis
  proof (cases r)
    case (Inr staged)
    have "db_steps db1 db2" if "effects_tx sha staged effs db1 = Inr db2" for db2
      using that by (rule effects_tx_steps)
    then show ?thesis
      using s1 by (auto simp: apply_durable_effects_def st Inr Let_def split: sum.splits prod.splits option.splits
          intro: db_steps_trans [OF s1] db_steps_trans [OF _ retire_steps])
  qed (use s1 in \<open>simp add: apply_durable_effects_def st\<close>)
qed

lemma persist_steps: "persist_hard_state sha t v db = Inr db' \<Longrightarrow> db_steps db db'"
  by (auto simp: persist_hard_state_def result_bind_eq_Inr intro: write_hard_state_steps)

lemma append_steps: "append_entries sha es db = Inr db' \<Longrightarrow> db_steps db db'"
  by (auto simp: append_entries_def append_entries_steps split: if_splits)

lemma truncate_steps: "truncate_log_suffix_from sha k db = Inr db' \<Longrightarrow> db_steps db db'"
  by (auto simp: truncate_log_suffix_from_def result_bind_eq_Inr split: if_splits intro: delete_log_steps)

lemma advance_steps: "advance_commit_index sha k db = Inr db' \<Longrightarrow> db_steps db db'"
  by (auto simp: advance_commit_index_def result_bind_eq_Inr split: if_splits intro: write_hard_state_steps)

lemma compact_steps: "compact_log_up_to k db = Inr db' \<Longrightarrow> db_steps db db'"
  by (auto simp: compact_log_up_to_def result_bind_eq_Inr split: if_splits option.splits intro: delete_log_steps)

lemma create_steps: "db_steps db (snd (create_snapshot sha k t b db))"
proof -
  have "db_steps db (retire_obsolete_snapshot_files f db2)"
    if "upsert_snapshot_row_tx m f len digest (write_atomic_snapshot_file f b db) = Inr db2" for m f len digest db2
    using upsert_snapshot_steps [OF that] write_file_steps retire_steps db_steps_trans by metis
  then show ?thesis
    by (auto simp: create_snapshot_def Let_def result_bind_eq_Inr split: sum.splits option.splits if_splits)
qed

lemma install_steps: "db_steps db (snd (install_snapshot sha m b db))"
proof -
  have "db_steps db (retire_obsolete_snapshot_files f db2)"
    if "install_snapshot_in_tx sha m f len digest (write_atomic_snapshot_file f b db) = Inr db2" for f len digest db2
    using install_in_tx_steps [OF that] write_file_steps retire_steps db_steps_trans by metis
  then show ?thesis by (auto simp: install_snapshot_def Let_def split: sum.splits)
qed

lemma load_snapshot_cases:
  assumes "load_snapshot sha db = Inr (sm, snap, db')"
  obtains (none) "read_snapshot_row_conn db = Inr None" "sm = sm_new" "snap = None" "db' = db"
  | (some) row b where "read_snapshot_row_conn db = Inr (Some row)" "snapshot_files db (ss_file_name row) = Some b"
      "decode_snapshot sha b = Inr sm" "matches_meta sha sm (ss_meta row)" "snap = Some (ss_meta row, b)"
      "db' = retire_obsolete_snapshot_files (ss_file_name row) db"
proof -
  obtain r where r: "read_snapshot_row_conn db = Inr r"
    using assms by (cases "read_snapshot_row_conn db") (simp_all add: load_snapshot_def)
  show ?thesis
  proof (cases r)
    case None
    note ld = assms [unfolded load_snapshot_def r result_bind_simps None option.case]
    show ?thesis by (rule none [OF r [unfolded None]]) (use ld in simp_all)
  next
    case (Some row)
    note ld = assms [unfolded load_snapshot_def r result_bind_simps Some option.case]
    obtain b where b: "snapshot_files db (ss_file_name row) = Some b"
      using ld by (cases "snapshot_files db (ss_file_name row)") simp_all
    note ld = ld [unfolded b option.case]
    have len: "length b = ss_byte_len row" using ld by (rule contrapos_pp) simp
    note ld = ld [unfolded len, simplified]
    have digest: "compute_snapshot_transfer_sha256 sha (included_index (ss_meta row))
        (included_term (ss_meta row)) (meta_state_root (ss_meta row)) b = ss_snapshot_sha256 row"
      using ld by (rule contrapos_pp) simp
    note ld = ld [unfolded digest, simplified]
    obtain m where m: "decode_snapshot sha b = Inr m"
      using ld by (cases "decode_snapshot sha b") simp_all
    note ld = ld [unfolded m sum.case]
    have "matches_meta sha m (ss_meta row)" using ld by (rule contrapos_pp) simp
    with ld show ?thesis using some [OF r [unfolded Some] b] m by simp
  qed
qed

lemma load_snapshot_steps: "load_snapshot sha db = Inr (sm, snap, db') \<Longrightarrow> db_steps db db'"
  by (erule load_snapshot_cases) simp_all

lemma load_steps: "db_steps db (snd (load_and_verify_all sha db))"
proof (cases "load_snapshot sha db")
  case (Inr x)
  then obtain sm snap db1 where x: "load_snapshot sha db = Inr (sm, snap, db1)" by (cases x) auto
  have 1: "db_steps db db1" using load_snapshot_steps [OF x] .
  have 2: "db_steps db db2"
    if "result_bind (u64_to_i64 k) (\<lambda>idx. delete_log_where (\<lambda>i. i \<le> idx) db1) = Inr db2" for k db2
    using that delete_log_steps db_steps_trans [OF 1] by (auto simp: result_bind_eq_Inr)
  show ?thesis using 1 2 by (auto simp: load_and_verify_all_def x Let_def split: sum.splits prod.splits)
qed (auto simp: load_and_verify_all_def split: sum.splits)

lemma initialize_steps: "db_steps db (initialize_strict_schema sha db)"
  by (auto simp: initialize_strict_schema_def db_steps_def db_inv_def db_evolves_def snapshot_cover_def
      split: option.splits)

lemma open_steps: "db_steps db (snd (open_or_recover sha wal db))"
  using initialize_steps load_steps db_steps_trans by (auto simp: open_or_recover_def split: sum.splits) blast

section \<open>Histories\<close>

text \<open>One operation on the store. A failed transaction changes nothing; the operations that write files
  or recover return the store in both cases. A crash is a history that goes on with \<open>op_open\<close>.\<close>

inductive store_op :: "sha256_fn \<Rightarrow> SqliteConsensusStore \<Rightarrow> SqliteConsensusStore \<Rightarrow> bool"
  for sha :: sha256_fn where
  op_open: "store_op sha db (snd (open_or_recover sha wal db))"
| op_persist: "persist_hard_state sha t v db = Inr db' \<Longrightarrow> store_op sha db db'"
| op_append: "append_entries sha es db = Inr db' \<Longrightarrow> store_op sha db db'"
| op_truncate: "truncate_log_suffix_from sha k db = Inr db' \<Longrightarrow> store_op sha db db'"
| op_advance: "advance_commit_index sha k db = Inr db' \<Longrightarrow> store_op sha db db'"
| op_create: "store_op sha db (snd (create_snapshot sha k t b db))"
| op_install: "store_op sha db (snd (install_snapshot sha m b db))"
| op_compact: "compact_log_up_to k db = Inr db' \<Longrightarrow> store_op sha db db'"
| op_effects: "store_op sha db (fst (snd (apply_durable_effects sha effs db sm)))"

definition store_init :: "SqliteConsensusStore \<Rightarrow> bool" where
  "store_init db = (db = empty_store)"

lemma store_op_steps: "store_op sha db db' \<Longrightarrow> db_steps db db'"
  by (induction rule: store_op.induct)
    (simp_all add: open_steps persist_steps append_steps truncate_steps advance_steps create_steps
      install_steps compact_steps apply_durable_effects_steps)

interpretation durable: invariant_system store_init "store_op sha" db_inv
  by unfold_locales
    (auto simp: store_init_def empty_store_def db_inv_def log_keys_ok_def
      dest!: store_op_steps simp: db_steps_def)

lemma store_run_evolves:
  assumes "(store_op sha)\<^sup>*\<^sup>* db db'" "db_inv db"
  shows "db_evolves db db'"
  using assms
proof (induction rule: rtranclp_induct)
  case (step y z)
  have "db_inv y" using durable.inv_run [OF step.hyps(1)] step.prems by simp
  then have "db_evolves y z" using store_op_steps [OF step.hyps(2)] by (simp add: db_steps_def)
  with step show ?case using db_evolves_trans by blast
qed simp

end
