(* ===== verification/StoreReplay.thy ===== *)
theory StoreReplay
  imports StoreEvolution RaftProps
begin

text \<open>
  The contract of the store. \<open>Durable\<close> is what must survive a crash: term, vote, commit index, snapshot
  and log. \<open>replay\<close> says what each effect does to it and when it is allowed; \<open>holds\<close> relates it to the
  tables. \<open>effects_tx_refines\<close> shows that the transaction of \<open>apply_durable_effects\<close> carries out the
  replay, and \<open>load_refines\<close> that recovery reads it back.
\<close>

section \<open>Specification\<close>

record Durable =
  du_term :: ConsensusTerm
  du_voted :: "CellIdentity option"
  du_commit :: LogIndex
  du_snap :: "(SnapshotMetadata \<times> byte list) option"
  du_log :: "RaftLogEntry list"

definition du_snap_index :: "Durable \<Rightarrow> LogIndex" where
  "du_snap_index du = (case du_snap du of Some (m, _) \<Rightarrow> included_index m | None \<Rightarrow> 0)"

definition snapshot_valid :: "sha256_fn \<Rightarrow> SnapshotMetadata \<Rightarrow> byte list \<Rightarrow> bool" where
  "snapshot_valid sha m b = (0 < included_index m \<and> 0 < included_term m \<and> included_index m \<le> i64_max \<and>
     included_term m \<le> i64_max \<and> length b \<le> i64_max \<and>
     (\<exists>sm. decode_snapshot sha b = Inr sm \<and> matches_meta sha sm m))"

definition entry_fits :: "sha256_fn \<Rightarrow> RaftLogEntry \<Rightarrow> bool" where
  "entry_fits sha e = (storable sha e \<and> re_index e \<le> i64_max \<and> re_term e \<le> i64_max)"

definition du_ok :: "sha256_fn \<Rightarrow> Durable \<Rightarrow> bool" where
  "du_ok sha du = (du_term du \<le> i64_max \<and> du_voted du \<noteq> Some 0 \<and>
     contiguous (du_snap_index du + 1) (du_log du) \<and> (\<forall>e\<in>set (du_log du). entry_fits sha e) \<and>
     du_snap_index du \<le> du_commit du \<and> du_commit du \<le> du_snap_index du + length (du_log du) \<and>
     du_snap_index du + length (du_log du) \<le> i64_max \<and>
     (\<forall>m b. du_snap du = Some (m, b) \<longrightarrow> snapshot_valid sha m b))"

fun replay1 :: "ConsensusEffect \<Rightarrow> Durable \<Rightarrow> Durable option" where
  "replay1 (PersistHardState t v) du =
     (if hard_state_follows (du_term du) (du_voted du) (du_commit du) t v (du_commit du)
      then Some (du\<lparr>du_term := t, du_voted := v\<rparr>) else None)"
| "replay1 (InstallSnapshot m b) du =
     (if du_snap_index du < included_index m \<and> du_commit du \<le> included_index m \<and> included_term m \<le> du_term du
      then Some (du\<lparr>du_snap := Some (m, b), du_commit := included_index m,
        du_log := (if \<exists>e\<in>set (du_log du). re_index e = included_index m \<and> re_term e = included_term m
          then filter (\<lambda>e. re_index e > included_index m) (du_log du) else [])\<rparr>)
      else None)"
| "replay1 (TruncateLogSuffixFrom k) du =
     (if k \<le> du_commit du \<or> i64_max < k then None
      else Some (du\<lparr>du_log := filter (\<lambda>e. re_index e < k) (du_log du)\<rparr>))"
| "replay1 (AppendLogEntries es) du = Some (du\<lparr>du_log := du_log du @ es\<rparr>)"
| "replay1 (AdvanceCommitIndex k _ _) du =
     (if k < du_commit du then None else Some (du\<lparr>du_commit := k\<rparr>))"
| "replay1 _ du = Some du"

text \<open>Every intermediate state is well formed.\<close>

fun replay :: "sha256_fn \<Rightarrow> ConsensusEffect list \<Rightarrow> Durable \<Rightarrow> Durable option" where
  "replay sha [] du = Some du"
| "replay sha (eff # effs) du =
     (case replay1 eff du of
        None \<Rightarrow> None
      | Some du1 \<Rightarrow> if du_ok sha du1 then replay sha effs du1 else None)"

section \<open>Representation\<close>

definition log_rows :: "RaftLogEntry list \<Rightarrow> (int, RawLogRow) btree" where
  "log_rows es = map (\<lambda>e. (int (re_index e), raw_log_row e)) es"

definition snapshot_digest :: "sha256_fn \<Rightarrow> SnapshotMetadata \<Rightarrow> byte list \<Rightarrow> bytes32" where
  "snapshot_digest sha m b =
     compute_snapshot_transfer_sha256 sha (included_index m) (included_term m) (meta_state_root m) b"

definition meta_file :: "SnapshotMetadata \<Rightarrow> SnapshotFile" where
  "meta_file m = snapshot_file_name (included_index m) (included_term m)"

definition snapshot_row :: "sha256_fn \<Rightarrow> SnapshotMetadata \<Rightarrow> byte list \<Rightarrow> RawSnapshotRow" where
  "snapshot_row sha m b = \<lparr>sr_included_index = int (included_index m), sr_included_term = int (included_term m),
     sr_state_root_digest = to_be (meta_state_root m), sr_file_name = meta_file m,
     sr_byte_len = int (length b), sr_snapshot_sha256 = to_be (snapshot_digest sha m b)\<rparr>"

definition tables_hold :: "sha256_fn \<Rightarrow> Durable \<Rightarrow> SqliteConsensusStore \<Rightarrow> bool" where
  "tables_hold sha du db = (consensus_log db = log_rows (du_log du) \<and>
     consensus_snapshot db = map_option (\<lambda>(m, b). snapshot_row sha m b) (du_snap du))"

definition holds :: "sha256_fn \<Rightarrow> Durable \<Rightarrow> SqliteConsensusStore \<Rightarrow> bool" where
  "holds sha du db = (tables_hold sha du db \<and>
     consensus_meta db = Some (hard_row sha (du_term du) (du_voted du) (du_commit du)) \<and>
     (\<forall>m b. du_snap du = Some (m, b) \<longrightarrow> snapshot_files db (meta_file m) = Some b))"

section \<open>The tables\<close>

lemma contiguous_nth: "contiguous b es \<Longrightarrow> e \<in> set es \<Longrightarrow> \<exists>i < length es. e = es ! i \<and> re_index e = b + i"
  by (auto simp: contiguous_def in_set_conv_nth)

lemma contiguous_bounds: "contiguous b es \<Longrightarrow> e \<in> set es \<Longrightarrow> b \<le> re_index e \<and> re_index e < b + length es"
  using contiguous_nth by fastforce

lemma contiguous_last: "contiguous b es \<Longrightarrow> es \<noteq> [] \<Longrightarrow> re_index (last es) + 1 = b + length es"
  by (auto simp: contiguous_def last_conv_nth)

lemma contiguous_inj: "contiguous b es \<Longrightarrow> e \<in> set es \<Longrightarrow> e' \<in> set es \<Longrightarrow> re_index e = re_index e' \<Longrightarrow> e = e'"
  by (metis contiguous_nth add_left_cancel)

lemma contiguous_Cons [simp]: "contiguous b (e # es) \<longleftrightarrow> re_index e = b \<and> contiguous (Suc b) es"
  by (auto simp: contiguous_def nth_Cons' dest: spec [of _ 0] spec [of _ "Suc _"])

lemma contiguous_append [simp]: "contiguous b (xs @ ys) \<longleftrightarrow> contiguous b xs \<and> contiguous (b + length xs) ys"
  by (induction xs arbitrary: b) simp_all

lemma log_rows_sorted: "contiguous b es \<Longrightarrow> bt_sorted (log_rows es)"
  by (auto simp: bt_sorted_def log_rows_def contiguous_def sorted_wrt_iff_nth_less)

lemma bt_get_log_rows:
  assumes "contiguous b es"
  shows "bt_get (log_rows es) (int i) = Some row \<longleftrightarrow> (\<exists>e\<in>set es. re_index e = i \<and> row = raw_log_row e)"
  using bt_get_eq_Some [OF log_rows_sorted [OF assms]] by (auto simp: log_rows_def)

lemma log_rows_filter: "filter (\<lambda>(i, _). P i) (log_rows es) = log_rows (filter (\<lambda>e. P (int (re_index e))) es)"
  by (induction es) (simp_all add: log_rows_def)

lemma raw_log_row_sel [simp]:
  "lr_log_index (raw_log_row e) = int (re_index e)" "lr_term (raw_log_row e) = int (re_term e)"
  by (simp_all add: raw_log_row_def)

lemma insert_entry:
  assumes "entry_fits sha e" "consensus_log db = log_rows l" "\<forall>x\<in>set l. re_index x < re_index e"
  shows "insert_log_row (raw_log_row e) db = Inr (db\<lparr>consensus_log := log_rows (l @ [e])\<rparr>)"
proof -
  have "int (unat (family_as_u8 f)) \<in> {1, 2, 3, 4}" for f by (cases f) simp_all
  then have kind: "lr_command_kind (raw_log_row e) \<in> {1, 2, 3, 4}" by (simp only: raw_log_row_def RawLogRow.simps)
  have keys: "\<forall>k\<in>fst ` set (log_rows l). k < int (re_index e)" using assms(3) by (auto simp: log_rows_def)
  then have "bt_get (log_rows l) (int (re_index e)) = None"
    by (metis bt_get_SomeD fst_conv image_eqI less_irrefl not_None_eq)
  moreover have "bt_insert (int (re_index e)) (raw_log_row e) (log_rows l) = log_rows (l @ [e])"
    using bt_insert_last [OF keys] by (simp add: log_rows_def)
  ultimately show ?thesis
    using assms(1,2) kind
    by (simp add: insert_log_row_def bt_contains_def entry_fits_def storable_def) (simp add: raw_log_row_def)
qed

lemma append_refines:
  assumes "contiguous b (l @ es)" "\<forall>e\<in>set es. entry_fits sha e" "consensus_log db = log_rows l"
  shows "append_entries_tx sha es db = Inr (db\<lparr>consensus_log := log_rows (l @ es)\<rparr>)"
  using assms
proof (induction es arbitrary: l db)
  case (Cons e es)
  have below: "\<forall>x\<in>set l. re_index x < re_index e"
    using Cons.prems(1) contiguous_bounds [of b l] by auto
  then have "insert_log_row (raw_log_row e) db = Inr (db\<lparr>consensus_log := log_rows (l @ [e])\<rparr>)"
    using Cons.prems by (intro insert_entry [where sha = sha]) simp_all
  moreover have "append_entries_tx sha es (db\<lparr>consensus_log := log_rows (l @ [e])\<rparr>) =
      Inr (db\<lparr>consensus_log := log_rows (l @ [e] @ es)\<rparr>)"
    using Cons.IH [of "l @ [e]" "db\<lparr>consensus_log := log_rows (l @ [e])\<rparr>"] Cons.prems by simp
  ultimately show ?case
    using Cons.prems(2) by (simp add: entry_fits_def storable_def u64_to_i64_def)
qed simp

lemma delete_refines:
  assumes "consensus_log db = log_rows l"
    "\<forall>e\<in>set l. P (int (re_index e)) \<longrightarrow> \<not> delete_protected db (int (re_index e))"
  shows "delete_log_where P db = Inr (db\<lparr>consensus_log := log_rows (filter (\<lambda>e. \<not> P (int (re_index e))) l)\<rparr>)"
proof -
  have "\<not> list_ex (\<lambda>(i, _). P i \<and> delete_protected db i) (log_rows l)"
    using assms(2) by (auto simp: list_ex_iff log_rows_def)
  then show ?thesis using assms(1) log_rows_filter [of "\<lambda>i. \<not> P i" l] by (simp add: delete_log_where_def)
qed

lemma read_snapshot_row_iff:
  "read_snapshot_row_conn db = Inr (Some s) \<longleftrightarrow>
     consensus_snapshot db = Some \<lparr>sr_included_index = int (included_index (ss_meta s)),
       sr_included_term = int (included_term (ss_meta s)), sr_state_root_digest = to_be (meta_state_root (ss_meta s)),
       sr_file_name = ss_file_name s, sr_byte_len = int (ss_byte_len s), sr_snapshot_sha256 = to_be (ss_snapshot_sha256 s)\<rparr>"
proof (cases "consensus_snapshot db")
  case (Some row)
  obtain m f l d where s: "s = \<lparr>ss_meta = m, ss_file_name = f, ss_byte_len = l, ss_snapshot_sha256 = d\<rparr>"
    by (cases s)
  obtain i t rt where m: "m = \<lparr>included_index = i, included_term = t, meta_state_root = rt\<rparr>" by (cases m)
  obtain ri rterm rr rf rl rd where row: "row = \<lparr>sr_included_index = ri, sr_included_term = rterm,
      sr_state_root_digest = rr, sr_file_name = rf, sr_byte_len = rl, sr_snapshot_sha256 = rd\<rparr>" by (cases row)
  show ?thesis
    unfolding read_snapshot_row_conn_def Some s m row by (simp add: result_bind_eq_Inr) blast
qed (simp add: read_snapshot_row_conn_def)

lemma read_snapshot_row_none: "consensus_snapshot db = None \<Longrightarrow> read_snapshot_row_conn db = Inr None"
  by (simp add: read_snapshot_row_conn_def)

lemma read_snapshot_holds:
  assumes "tables_hold sha du db"
  shows "read_snapshot_row_conn db = Inr (map_option (\<lambda>(m, b). \<lparr>ss_meta = m, ss_file_name = meta_file m,
    ss_byte_len = length b, ss_snapshot_sha256 = snapshot_digest sha m b\<rparr>) (du_snap du))"
proof (cases "du_snap du")
  case None
  then show ?thesis using assms by (simp add: tables_hold_def read_snapshot_row_none)
next
  case (Some x)
  then show ?thesis
    using assms by (cases x) (simp add: tables_hold_def read_snapshot_row_iff snapshot_row_def)
qed

lemma commit_covered:
  assumes "tables_hold sha du db" "contiguous (du_snap_index du + 1) (du_log du)"
    "k \<le> du_snap_index du + length (du_log du)"
  shows "verify_commit_bound_covered_tx k db = Inr ()"
proof (cases "du_log du = []")
  case True
  then show ?thesis
    using assms by (auto simp: verify_commit_bound_covered_tx_def read_snapshot_holds [OF assms(1)] du_snap_index_def
        split: option.splits prod.splits)
next
  case False
  then have "nat (fst (last (consensus_log db))) = du_snap_index du + length (du_log du)" "consensus_log db \<noteq> []"
    using assms(1) contiguous_last [OF assms(2)] by (simp_all add: tables_hold_def log_rows_def last_map)
  then show ?thesis
    using assms(3) by (auto simp: verify_commit_bound_covered_tx_def read_snapshot_holds [OF assms(1)] Let_def)
qed

section \<open>The transaction\<close>

definition cur_holds :: "sha256_fn \<Rightarrow> Durable \<Rightarrow> EffectCursor \<Rightarrow> bool" where
  "cur_holds sha du cur = (tables_hold sha du (ec_db cur) \<and> ec_term cur = du_term du \<and>
     ec_voted_for cur = du_voted du \<and> ec_commit cur = du_commit du \<and>
     (\<exists>t v k. consensus_meta (ec_db cur) = Some (hard_row sha t v k) \<and>
        hard_state_follows t v k (du_term du) (du_voted du) (du_commit du) \<and>
        (\<not> ec_dirty cur \<longrightarrow> t = du_term du \<and> v = du_voted du \<and> k = du_commit du)))"

lemma cur_holdsI:
  assumes "tables_hold sha du (ec_db cur)" "ec_term cur = du_term du" "ec_voted_for cur = du_voted du"
    "ec_commit cur = du_commit du" "consensus_meta (ec_db cur) = Some (hard_row sha t v k)"
    "hard_state_follows t v k (du_term du) (du_voted du) (du_commit du)"
    "\<not> ec_dirty cur \<Longrightarrow> t = du_term du \<and> v = du_voted du \<and> k = du_commit du"
  shows "cur_holds sha du cur"
  unfolding cur_holds_def using assms by blast

lemma cur_holdsE:
  assumes "cur_holds sha du cur"
  obtains t v k where "tables_hold sha du (ec_db cur)" "ec_term cur = du_term du"
    "ec_voted_for cur = du_voted du" "ec_commit cur = du_commit du"
    "consensus_meta (ec_db cur) = Some (hard_row sha t v k)"
    "hard_state_follows t v k (du_term du) (du_voted du) (du_commit du)"
    "\<not> ec_dirty cur \<longrightarrow> t = du_term du \<and> v = du_voted du \<and> k = du_commit du"
  using assms unfolding cur_holds_def by blast

lemma tables_hold_update [simp]:
  "tables_hold sha (du\<lparr>du_term := t\<rparr>) db = tables_hold sha du db"
  "tables_hold sha (du\<lparr>du_voted := v\<rparr>) db = tables_hold sha du db"
  "tables_hold sha (du\<lparr>du_commit := k\<rparr>) db = tables_hold sha du db"
  "tables_hold sha du (db\<lparr>consensus_meta := r\<rparr>) = tables_hold sha du db"
  "tables_hold sha du (db\<lparr>snapshot_files := f\<rparr>) = tables_hold sha du db"
  by (simp_all add: tables_hold_def)

lemma hard_state_follows_refl [simp]: "hard_state_follows t v k t v k"
  by (simp add: hard_state_follows_def)

lemma hard_state_follows_trans:
  "hard_state_follows t v k t1 v1 k1 \<Longrightarrow> hard_state_follows t1 v1 k1 t2 v2 k2 \<Longrightarrow> hard_state_follows t v k t2 v2 k2"
  unfolding hard_state_follows_def by force

lemma flush_refines:
  assumes "cur_holds sha du cur" "du_ok sha du"
  shows "flush_hard_state sha cur = Inr ((ec_db cur)\<lparr>consensus_meta :=
    Some (hard_row sha (du_term du) (du_voted du) (du_commit du))\<rparr>)"
proof -
  obtain t v k where row: "consensus_meta (ec_db cur) = Some (hard_row sha t v k)"
      "hard_state_follows t v k (du_term du) (du_voted du) (du_commit du)"
      "\<not> ec_dirty cur \<longrightarrow> t = du_term du \<and> v = du_voted du \<and> k = du_commit du"
    using assms(1) by (auto simp: cur_holds_def)
  have "du_term du \<le> i64_max" "du_commit du \<le> i64_max" using assms(2) by (auto simp: du_ok_def)
  then show ?thesis
    using assms(1) row write_hard_state_iff [OF row(1)] by (auto simp: flush_hard_state_def cur_holds_def)
qed

lemma apply_persist:
  assumes "cur_holds sha du cur" "replay1 (PersistHardState t v) du = Some du1"
  shows "\<exists>cur1. apply_effect sha staged (PersistHardState t v) cur = Inr cur1 \<and> cur_holds sha du1 cur1 \<and>
    snapshot_files (ec_db cur1) = snapshot_files (ec_db cur)"
proof (rule cur_holdsE [OF assms(1)])
  fix t0 v0 k0
  assume h: "tables_hold sha du (ec_db cur)" "ec_term cur = du_term du" "ec_voted_for cur = du_voted du"
    "ec_commit cur = du_commit du" "consensus_meta (ec_db cur) = Some (hard_row sha t0 v0 k0)"
    "hard_state_follows t0 v0 k0 (du_term du) (du_voted du) (du_commit du)"
  have du1: "du1 = du\<lparr>du_term := t, du_voted := v\<rparr>"
    and f: "hard_state_follows (du_term du) (du_voted du) (du_commit du) t v (du_commit du)"
    using assms(2) by (auto split: if_splits)
  have "cur_holds sha du1 (cur\<lparr>ec_term := t, ec_voted_for := v, ec_dirty := True\<rparr>)"
    by (rule cur_holdsI [of _ _ _ t0 v0 k0])
      (use h hard_state_follows_trans [OF h(6) f] in \<open>simp_all add: du1\<close>)
  then show ?thesis by simp
qed

lemma apply_truncate:
  assumes "cur_holds sha du cur" "du_ok sha du" "replay1 (TruncateLogSuffixFrom k) du = Some du1"
  shows "\<exists>cur1. apply_effect sha staged (TruncateLogSuffixFrom k) cur = Inr cur1 \<and> cur_holds sha du1 cur1 \<and>
    snapshot_files (ec_db cur1) = snapshot_files (ec_db cur)"
proof -
  have k: "du_commit du < k" "k \<le> i64_max" "du1 = du\<lparr>du_log := filter (\<lambda>e. re_index e < k) (du_log du)\<rparr>"
    using assms(3) by (auto split: if_splits)
  have "delete_log_where (\<lambda>i. int k \<le> i) (ec_db cur) =
      Inr ((ec_db cur)\<lparr>consensus_log := log_rows (filter (\<lambda>e. \<not> int k \<le> int (re_index e)) (du_log du))\<rparr>)"
  proof (rule delete_refines)
    show "consensus_log (ec_db cur) = log_rows (du_log du)"
      using assms(1) by (simp add: cur_holds_def tables_hold_def)
    show "\<forall>e\<in>set (du_log du). int k \<le> int (re_index e) \<longrightarrow> \<not> delete_protected (ec_db cur) (int (re_index e))"
      using assms(1) k(1) by (auto simp: cur_holds_def delete_protected_def hard_state_follows_def)
  qed
  moreover have "filter (\<lambda>e. \<not> int k \<le> int (re_index e)) (du_log du) = filter (\<lambda>e. re_index e < k) (du_log du)"
    by (rule filter_cong) auto
  ultimately show ?thesis
    using assms(1) k by (auto simp: cur_holds_def tables_hold_def u64_to_i64_def)
qed

lemma apply_append:
  assumes "cur_holds sha du cur" "du_ok sha (du\<lparr>du_log := du_log du @ es\<rparr>)"
  shows "\<exists>cur1. apply_effect sha staged (AppendLogEntries es) cur = Inr cur1 \<and>
    cur_holds sha (du\<lparr>du_log := du_log du @ es\<rparr>) cur1 \<and>
    snapshot_files (ec_db cur1) = snapshot_files (ec_db cur)"
proof -
  have "append_entries_tx sha es (ec_db cur) = Inr ((ec_db cur)\<lparr>consensus_log := log_rows (du_log du @ es)\<rparr>)"
    by (rule append_refines [of "du_snap_index du + 1"])
      (use assms in \<open>auto simp: cur_holds_def tables_hold_def du_ok_def du_snap_index_def\<close>)
  then show ?thesis using assms(1) by (auto simp: cur_holds_def tables_hold_def)
qed

lemma apply_advance:
  assumes "cur_holds sha du cur" "replay1 (AdvanceCommitIndex k t es) du = Some du1" "du_ok sha du1"
  shows "\<exists>cur1. apply_effect sha staged (AdvanceCommitIndex k t es) cur = Inr cur1 \<and> cur_holds sha du1 cur1 \<and>
    snapshot_files (ec_db cur1) = snapshot_files (ec_db cur)"
proof -
  have k: "du_commit du \<le> k" "du1 = du\<lparr>du_commit := k\<rparr>" using assms(2) by (auto split: if_splits)
  have "verify_commit_bound_covered_tx k (ec_db cur) = Inr ()"
    by (rule commit_covered [of sha du])
      (use assms(1,3) k(2) in \<open>auto simp: cur_holds_def du_ok_def du_snap_index_def\<close>)
  moreover have "cur_holds sha du1 (cur\<lparr>ec_commit := k, ec_dirty := True\<rparr>)"
  proof (rule cur_holdsE [OF assms(1)])
    fix t0 v0 k0
    assume h: "tables_hold sha du (ec_db cur)" "ec_term cur = du_term du" "ec_voted_for cur = du_voted du"
      "consensus_meta (ec_db cur) = Some (hard_row sha t0 v0 k0)"
      "hard_state_follows t0 v0 k0 (du_term du) (du_voted du) (du_commit du)"
    then show ?thesis
      using k by (intro cur_holdsI [of _ _ _ t0 v0 k0]) (simp_all add: hard_state_follows_def)
  qed
  moreover have "\<not> k < ec_commit cur" using assms(1) k(1) by (simp add: cur_holds_def)
  ultimately show ?thesis by simp
qed

lemma decoded_length: "decode_snapshot sha b = Inr sm \<Longrightarrow> 76 \<le> length b"
  by (auto simp: decode_snapshot_def split: if_splits)

lemma upsert_refines:
  assumes "snapshot_valid sha m b" "snapshot_cover db \<le> int (included_index m)"
  shows "upsert_snapshot_row_tx m (meta_file m) (length b) (snapshot_digest sha m b) db =
    Inr (db\<lparr>consensus_snapshot := Some (snapshot_row sha m b)\<rparr>)"
proof -
  have "76 \<le> length b" using assms(1) decoded_length by (auto simp: snapshot_valid_def)
  then show ?thesis
    using assms by (cases "consensus_snapshot db")
      (simp_all add: upsert_snapshot_row_tx_def snapshot_valid_def u64_to_i64_def snapshot_cover_def snapshot_row_def)
qed

lemma install_in_tx_refines:
  assumes "tables_hold sha du db" "du_ok sha du" "replay1 (InstallSnapshot m b) du = Some du1" "snapshot_valid sha m b"
    "consensus_meta db = Some (hard_row sha (du_term du) (du_voted du) (du_commit du))"
  shows "\<exists>db1. install_snapshot_in_tx sha m (meta_file m) (length b) (snapshot_digest sha m b) db = Inr db1 \<and>
    tables_hold sha du1 db1 \<and> snapshot_files db1 = snapshot_files db \<and>
    consensus_meta db1 = Some (hard_row sha (du_term du1) (du_voted du1) (du_commit du1))"
proof -
  let ?i = "included_index m" and ?l = "du_log du"
  let ?anchor = "\<exists>e\<in>set ?l. re_index e = ?i \<and> re_term e = included_term m"
  define kept where "kept = (if ?anchor then filter (\<lambda>e. re_index e > ?i) ?l else [])"
  let ?db1 = "db\<lparr>consensus_snapshot := Some (snapshot_row sha m b)\<rparr>"
  have pre: "du_snap_index du < ?i" "du_commit du \<le> ?i" "included_term m \<le> du_term du"
    and du1: "du1 = du\<lparr>du_snap := Some (m, b), du_commit := ?i, du_log := kept\<rparr>"
    using assms(3) unfolding kept_def by (auto split: if_splits)
  have cont: "contiguous (du_snap_index du + 1) ?l" using assms(2) by (simp add: du_ok_def)
  have rows: "consensus_log db = log_rows ?l" using assms(1) by (simp add: tables_hold_def)
  have fits: "?i \<le> i64_max" "du_term du \<le> i64_max" using assms(2,4) by (auto simp: du_ok_def snapshot_valid_def)
  have read: "read_and_verify_hard_state_conn sha db = Inr (du_term du, du_voted du, du_commit du)"
    using assms(2,5) by (simp add: read_hard_state_iff du_ok_def)
  have "snapshot_cover db = int (du_snap_index du)"
    using assms(1) by (auto simp: snapshot_cover_def tables_hold_def du_snap_index_def snapshot_row_def
        split: option.splits prod.splits)
  then have up: "upsert_snapshot_row_tx m (meta_file m) (length b) (snapshot_digest sha m b) db = Inr ?db1"
    using pre(1) by (intro upsert_refines [OF assms(4)]) simp
  have anchor: "log_term_at ?db1 (int ?i) = Some (int (included_term m)) \<longleftrightarrow> ?anchor"
    using bt_get_log_rows [OF cont, of ?i] by (auto simp: log_term_at_def rows)
  have free: "\<not> delete_protected ?db1 x" for x
    using pre(2) assms(5) by (auto simp: delete_protected_def snapshot_cover_def snapshot_row_def)
  have below: "delete_log_where (\<lambda>x. x \<le> int ?i) ?db1 = Inr (?db1\<lparr>consensus_log := log_rows (filter (\<lambda>e. re_index e > ?i) ?l)\<rparr>)"
    using delete_refines [of ?db1 ?l "\<lambda>x. x \<le> int ?i"] free rows by (simp add: not_le)
  have all: "delete_log_where (\<lambda>_. True) ?db1 = Inr (?db1\<lparr>consensus_log := log_rows []\<rparr>)"
    using delete_refines [of ?db1 ?l "\<lambda>_. True"] free rows by simp
  let ?db2 = "?db1\<lparr>consensus_log := log_rows kept\<rparr>"
  have del: "(if log_term_at ?db1 (int ?i) = Some (int (included_term m)) then delete_log_where (\<lambda>x. x \<le> int ?i) ?db1
      else if du_commit du > ?i then Inl (IntegrityCorrupted ''refusing InstallSnapshot'')
      else delete_log_where (\<lambda>_. True) ?db1) = Inr ?db2"
  proof -
    have "\<not> du_commit du > ?i" using pre(2) by simp
    then show ?thesis by (cases ?anchor) (simp_all only: anchor kept_def if_True if_False below all)
  qed
  have wr: "write_hard_state_tx sha (du_term du) (du_voted du) ?i ?db2 =
      Inr (?db2\<lparr>consensus_meta := Some (hard_row sha (du_term du) (du_voted du) ?i)\<rparr>)"
    using pre(2) fits write_hard_state_iff [of ?db2 sha "du_term du" "du_voted du" "du_commit du"] assms(5)
    by (simp add: hard_state_follows_def)
  have mx: "max (du_commit du) ?i = ?i" "max (du_term du) (included_term m) = du_term du"
    using pre by simp_all
  have u64: "u64_to_i64 ?i = Inr (int ?i)" using fits(1) by simp
  have "install_snapshot_in_tx sha m (meta_file m) (length b) (snapshot_digest sha m b) db =
      Inr (?db2\<lparr>consensus_meta := Some (hard_row sha (du_term du) (du_voted du) ?i)\<rparr>)"
    unfolding install_snapshot_in_tx_def read up u64 result_bind_simps prod.case del Let_def mx wr
    by (simp add: wr)
  then show ?thesis by (simp add: du1 tables_hold_def)
qed

definition staged_for :: "sha256_fn \<Rightarrow> SnapshotMetadata \<Rightarrow> byte list \<Rightarrow> StagedSnapshot \<Rightarrow> bool" where
  "staged_for sha m b st = (\<exists>sm. st = (m, meta_file m, length b, snapshot_digest sha m b, sm) \<and>
     decode_snapshot sha b = Inr sm)"

lemma apply_install:
  assumes "cur_holds sha du cur" "du_ok sha du" "replay1 (InstallSnapshot m b) du = Some du1" "du_ok sha du1"
    "staged = Some st" "staged_for sha m b st"
  shows "\<exists>cur1. apply_effect sha staged (InstallSnapshot m b) cur = Inr cur1 \<and> cur_holds sha du1 cur1 \<and>
    snapshot_files (ec_db cur1) = snapshot_files (ec_db cur)"
proof -
  let ?db = "(ec_db cur)\<lparr>consensus_meta := Some (hard_row sha (du_term du) (du_voted du) (du_commit du))\<rparr>"
  have du1: "du_snap du1 = Some (m, b)" "du_term du1 = du_term du" "du_voted du1 = du_voted du"
      "du_commit du1 = included_index m" "du_commit du \<le> included_index m"
    using assms(3) by (auto split: if_splits)
  have "snapshot_valid sha m b" using assms(4) du1(1) by (simp add: du_ok_def)
  moreover have "tables_hold sha du ?db" using assms(1) by (simp add: cur_holds_def)
  ultimately obtain db1 where db1: "install_snapshot_in_tx sha m (meta_file m) (length b) (snapshot_digest sha m b) ?db = Inr db1"
      "tables_hold sha du1 db1" "snapshot_files db1 = snapshot_files ?db"
      "consensus_meta db1 = Some (hard_row sha (du_term du1) (du_voted du1) (du_commit du1))"
    using install_in_tx_refines [OF _ assms(2,3), of ?db] by auto
  let ?cur1 = "cur\<lparr>ec_dirty := False, ec_db := db1, ec_commit := max (ec_commit cur) (included_index m)\<rparr>"
  have "cur_holds sha du1 ?cur1"
    by (rule cur_holdsI [where t = "du_term du1" and v = "du_voted du1" and k = "du_commit du1"])
      (use assms(1) db1 du1 in \<open>simp_all add: cur_holds_def\<close>)
  moreover have "apply_effect sha staged (InstallSnapshot m b) cur = Inr ?cur1"
    using assms(5,6) flush_refines [OF assms(1,2)] db1(1) by (auto simp: staged_for_def)
  ultimately show ?thesis using db1(3) by auto
qed

lemma apply_effects_refines:
  assumes "cur_holds sha du cur" "du_ok sha du" "replay sha effs du = Some du1"
    "\<forall>m b. InstallSnapshot m b \<in> set effs \<longrightarrow> (\<exists>st. staged = Some st \<and> staged_for sha m b st)"
  shows "\<exists>cur1. apply_effects sha staged effs cur = Inr cur1 \<and> cur_holds sha du1 cur1 \<and> du_ok sha du1 \<and>
    snapshot_files (ec_db cur1) = snapshot_files (ec_db cur)"
  using assms
proof (induction effs arbitrary: du cur)
  case (Cons eff effs)
  then obtain mid where mid: "replay1 eff du = Some mid" "du_ok sha mid" "replay sha effs mid = Some du1"
    by (auto split: option.splits if_splits)
  have "\<exists>cur1. apply_effect sha staged eff cur = Inr cur1 \<and> cur_holds sha mid cur1 \<and>
      snapshot_files (ec_db cur1) = snapshot_files (ec_db cur)"
  proof (cases eff)
    case (PersistHardState t v)
    then show ?thesis using apply_persist Cons.prems(1) mid(1) by blast
  next
    case (InstallSnapshot m b)
    then show ?thesis using apply_install Cons.prems(1,2,4) mid by (metis list.set_intros(1))
  next
    case (TruncateLogSuffixFrom k)
    then show ?thesis using apply_truncate Cons.prems(1,2) mid(1) by blast
  next
    case (AppendLogEntries es)
    then show ?thesis using apply_append [of sha du cur es] Cons.prems(1) mid by simp
  next
    case (AdvanceCommitIndex k t es)
    then show ?thesis using apply_advance Cons.prems(1) mid by blast
  qed (use Cons.prems(1) mid(1) in simp_all)
  then obtain cur1 where cur1: "apply_effect sha staged eff cur = Inr cur1" "cur_holds sha mid cur1"
      "snapshot_files (ec_db cur1) = snapshot_files (ec_db cur)" by blast
  then show ?case using Cons.IH [OF cur1(2) mid(2,3)] Cons.prems(4) by auto
qed simp

lemma effects_tx_refines:
  assumes "holds sha du db0" "tables_hold sha du db" "consensus_meta db = consensus_meta db0"
    "du_ok sha du" "replay sha effs du = Some du1"
    "\<forall>m b. InstallSnapshot m b \<in> set effs \<longrightarrow> (\<exists>st. staged = Some st \<and> staged_for sha m b st)"
  shows "\<exists>db1. effects_tx sha staged effs db = Inr db1 \<and> tables_hold sha du1 db1 \<and> du_ok sha du1 \<and>
    consensus_meta db1 = Some (hard_row sha (du_term du1) (du_voted du1) (du_commit du1)) \<and>
    snapshot_files db1 = snapshot_files db"
proof -
  let ?cur = "\<lparr>ec_term = du_term du, ec_voted_for = du_voted du, ec_commit = du_commit du, ec_dirty = False, ec_db = db\<rparr>"
  have meta: "consensus_meta db = Some (hard_row sha (du_term du) (du_voted du) (du_commit du))"
    using assms(1,3) by (simp add: holds_def)
  have "cur_holds sha du ?cur"
    by (rule cur_holdsI [where t = "du_term du" and v = "du_voted du" and k = "du_commit du"])
      (use assms(2) meta in simp_all)
  then obtain cur1 where cur1: "apply_effects sha staged effs ?cur = Inr cur1" "cur_holds sha du1 cur1" "du_ok sha du1"
      "snapshot_files (ec_db cur1) = snapshot_files db"
    using apply_effects_refines [OF _ assms(4,5,6), of ?cur] by auto
  have "read_and_verify_hard_state_conn sha db = Inr (du_term du, du_voted du, du_commit du)"
    using meta assms(4) by (simp add: read_hard_state_iff du_ok_def)
  then show ?thesis
    using cur1 flush_refines [OF cur1(2,3)] by (simp add: effects_tx_def) (simp add: cur_holds_def)
qed

section \<open>Snapshot files\<close>

lemma ascii_lower_bin: "map ascii_lower ''bin'' = ''bin''"
  by (simp add: ascii_lower_def)

lemma meta_file_is_bin: "is_snapshot_bin (meta_file m)"
proof -
  have "extension (x @ ''.bin'') = Some ''bin''" for x by (simp add: extension_def)
  from this [of "''snapshot-'' @ pad20 (included_index m) @ ''-'' @ pad20 (included_term m)"]
  have "extension (meta_file m) = Some ''bin''" by (simp add: meta_file_def snapshot_file_name_def)
  then show ?thesis using ascii_lower_bin by (simp add: is_snapshot_bin_def meta_file_def snapshot_file_name_def)
qed

lemma retire_keeps [simp]:
  "snapshot_files (retire_obsolete_snapshot_files f db) f = snapshot_files db f"
  by (simp add: retire_obsolete_snapshot_files_def)

lemma retire_tables [simp]:
  "consensus_meta (retire_obsolete_snapshot_files f db) = consensus_meta db"
  "tables_hold sha du (retire_obsolete_snapshot_files f db) = tables_hold sha du db"
  by (simp_all add: retire_obsolete_snapshot_files_def)

lemma write_file_tables [simp]:
  "consensus_meta (write_atomic_snapshot_file f b db) = consensus_meta db"
  "tables_hold sha du (write_atomic_snapshot_file f b db) = tables_hold sha du db"
  "snapshot_files (write_atomic_snapshot_file f b db) = (snapshot_files db)(f \<mapsto> b)"
  by (simp_all add: write_atomic_snapshot_file_def)

lemma stage_none:
  "(\<And>m b. InstallSnapshot m b \<notin> set effs) \<Longrightarrow> stage_snapshots sha effs st db = (Inr st, db)"
proof (induction effs)
  case (Cons eff effs)
  then show ?case by (cases eff) auto
qed simp

lemma stage_skip:
  "(\<And>m b. InstallSnapshot m b \<notin> set xs) \<Longrightarrow> stage_snapshots sha (xs @ ys) st db = stage_snapshots sha ys st db"
proof (induction xs)
  case (Cons eff xs)
  then show ?case by (cases eff) auto
qed simp

lemma stage_one:
  assumes "\<And>m b. InstallSnapshot m b \<notin> set xs" "\<And>m b. InstallSnapshot m b \<notin> set ys" "snapshot_valid sha m b"
  shows "\<exists>st. stage_snapshots sha (xs @ InstallSnapshot m b # ys) st0 db =
    (Inr (Some st), write_atomic_snapshot_file (meta_file m) b db) \<and> staged_for sha m b st"
proof -
  obtain sm where "decode_snapshot sha b = Inr sm" "matches_meta sha sm m"
    using assms(3) by (auto simp: snapshot_valid_def)
  then show ?thesis
    using assms(1,2) by (simp add: stage_skip stage_none staged_for_def meta_file_def snapshot_digest_def Let_def)
qed

lemma replay_append: "replay sha (xs @ ys) du = Option.bind (replay sha xs du) (replay sha ys)"
  by (induction xs arbitrary: du) (auto split: option.splits)

lemma replay1_snap: "replay1 eff du = Some du1 \<Longrightarrow> (\<And>m b. eff \<noteq> InstallSnapshot m b) \<Longrightarrow> du_snap du1 = du_snap du"
  by (cases eff) (auto split: if_splits)

lemma replay_snap:
  "replay sha effs du = Some du1 \<Longrightarrow> (\<And>m b. InstallSnapshot m b \<notin> set effs) \<Longrightarrow> du_snap du1 = du_snap du"
proof (induction effs arbitrary: du)
  case (Cons eff effs)
  then obtain mid where "replay1 eff du = Some mid" "replay sha effs mid = Some du1"
    by (auto split: option.splits if_splits)
  with Cons show ?case using replay1_snap [of eff du mid] by (metis list.set_intros)
qed simp

lemma replay_install:
  assumes "replay sha (xs @ InstallSnapshot m b # ys) du = Some du1" "\<And>m b. InstallSnapshot m b \<notin> set ys"
  shows "snapshot_valid sha m b \<and> du_snap du1 = Some (m, b)"
proof -
  obtain mid mid1 where "replay1 (InstallSnapshot m b) mid = Some mid1" "du_ok sha mid1" "replay sha ys mid1 = Some du1"
    using assms(1) by (auto simp: replay_append bind_eq_Some_conv simp del: replay1.simps split: option.splits if_splits)
  moreover from this(1) have "du_snap mid1 = Some (m, b)" by (auto split: if_splits)
  ultimately show ?thesis using replay_snap [OF _ assms(2)] by (simp add: du_ok_def)
qed

definition one_install :: "ConsensusEffect list \<Rightarrow> bool" where
  "one_install effs = (length (filter (\<lambda>eff. case eff of InstallSnapshot _ _ \<Rightarrow> True | _ \<Rightarrow> False) effs) \<le> 1)"

lemma one_install_cases:
  assumes "one_install effs"
  obtains (none) "\<And>m b. InstallSnapshot m b \<notin> set effs"
  | (one) xs m b ys where "effs = xs @ InstallSnapshot m b # ys" "\<And>m b. InstallSnapshot m b \<notin> set xs"
      "\<And>m b. InstallSnapshot m b \<notin> set ys"
proof (cases "\<exists>m b. InstallSnapshot m b \<in> set effs")
  case True
  then obtain xs m b ys where eq: "effs = xs @ InstallSnapshot m b # ys" by (meson split_list)
  then have "filter (\<lambda>eff. case eff of InstallSnapshot _ _ \<Rightarrow> True | _ \<Rightarrow> False) (xs @ ys) = []"
    using assms by (simp add: one_install_def)
  then have "InstallSnapshot m' b' \<notin> set (xs @ ys)" for m' b' by (auto simp: filter_empty_conv split: ConsensusEffect.splits)
  with eq one show ?thesis by simp
qed (use none in blast)

lemma replay_no_storage: "\<not> list_ex is_storage_effect effs \<Longrightarrow> replay sha effs du = Some du1 \<Longrightarrow> du1 = du"
proof (induction effs)
  case (Cons eff effs)
  then show ?case by (cases eff) (auto split: if_splits)
qed simp

text \<open>The store carries out the replay, whatever the state machine does afterwards.\<close>

lemma durable_effects_refine:
  assumes "holds sha du db" "du_ok sha du" "replay sha effs du = Some du1" "one_install effs"
  shows "holds sha du1 (fst (snd (apply_durable_effects sha effs db sm))) \<and> du_ok sha du1"
proof (cases "list_ex is_storage_effect effs")
  case False
  then show ?thesis using assms replay_no_storage [OF False assms(3)] by (simp add: apply_durable_effects_def)
next
  case True
  note storage = this
  have tab: "tables_hold sha du db" using assms(1) by (simp add: holds_def)
  show ?thesis
    using assms(4)
  proof (cases rule: one_install_cases)
    case none
    obtain db1 where db1: "effects_tx sha None effs db = Inr db1" "tables_hold sha du1 db1" "du_ok sha du1"
        "consensus_meta db1 = Some (hard_row sha (du_term du1) (du_voted du1) (du_commit du1))"
        "snapshot_files db1 = snapshot_files db"
      using effects_tx_refines [OF assms(1) tab refl assms(2,3), of None] none by auto
    moreover have "du_snap du1 = du_snap du" by (rule replay_snap [OF assms(3) none])
    ultimately have "holds sha du1 db1" using assms(1) by (auto simp: holds_def)
    then show ?thesis
      using storage db1(1,3) stage_none [OF none] by (simp add: apply_durable_effects_def split: prod.splits)
  next
    case (one xs m b ys)
    have valid: "snapshot_valid sha m b" "du_snap du1 = Some (m, b)"
      using replay_install [of sha xs m b ys du du1] assms(3) one(1,3) by auto
    let ?db = "write_atomic_snapshot_file (meta_file m) b db"
    obtain st where st: "stage_snapshots sha effs None db = (Inr (Some st), ?db)" "staged_for sha m b st"
      using stage_one [OF one(2,3) valid(1), of None db] one(1) by auto
    have only: "InstallSnapshot m' b' \<in> set effs \<Longrightarrow> m' = m \<and> b' = b" for m' b' using one by auto
    have "tables_hold sha du ?db" "consensus_meta ?db = consensus_meta db" using tab by simp_all
    then obtain db1 where db1: "effects_tx sha (Some st) effs ?db = Inr db1" "tables_hold sha du1 db1" "du_ok sha du1"
        "consensus_meta db1 = Some (hard_row sha (du_term du1) (du_voted du1) (du_commit du1))"
        "snapshot_files db1 = snapshot_files ?db"
      using effects_tx_refines [OF assms(1) _ _ assms(2,3), of ?db "Some st"] only st(2) by blast
    then have "holds sha du1 (retire_obsolete_snapshot_files (meta_file m) db1)"
      using valid(2) by (auto simp: holds_def)
    then show ?thesis
      using storage db1(1,3) st by (auto simp: apply_durable_effects_def staged_for_def split: prod.splits)
  qed
qed

end
