(* ===== verification/StoreRecovery.thy ===== *)
theory StoreRecovery
  imports StoreReplay
begin

text \<open>
  Recovery. \<open>load_refines\<close>: a store that holds a well-formed durable state is read back to exactly that
  state. \<open>load_sound\<close>: whatever is on disk, a recovery that succeeds returns the hard state of the
  row, a contiguous tail of intact entries that reaches the commit index, and the state machine
  replayed from the snapshot; so the core built from it satisfies its invariant.
\<close>

section \<open>Log tail\<close>

lemma hydrate_rows_iff:
  "hydrate_rows sha rows = Inr es \<longleftrightarrow> rows = map raw_log_row es \<and> (\<forall>e\<in>set es. storable sha e)"
proof (induction rows arbitrary: es)
  case Nil
  then show ?case by auto
next
  case (Cons row rows)
  then show ?case by (cases es) (auto simp: result_bind_eq_Inr verify_and_hydrate_iff)
qed

lemma verify_no_gap_Some:
  assumes "\<forall>e\<in>set es. re_index e < u64_max"
  shows "verify_no_gap (Some b) es = Inr () \<longleftrightarrow> contiguous b es"
  using assms by (induction es arbitrary: b) auto

lemma verify_no_gap_None:
  assumes "\<forall>e\<in>set es. re_index e < u64_max"
  shows "verify_no_gap None es = Inr () \<longleftrightarrow> es = [] \<or> contiguous (re_index (hd es)) es"
  using assms by (cases es) (auto simp: verify_no_gap_Some)

lemma i64_max_less: "i64_max < u64_max"
  by (simp add: i64_max_def u64_max_def)

lemma contiguous_filter_tail:
  assumes "contiguous b es" "filter (\<lambda>e. k < re_index e) es \<noteq> []"
  shows "contiguous (re_index (hd (filter (\<lambda>e. k < re_index e) es))) (filter (\<lambda>e. k < re_index e) es)"
proof (cases "k < b")
  case True
  then have "filter (\<lambda>e. k < re_index e) es = es"
    using contiguous_bounds [OF assms(1)] by (intro filter_True) fastforce
  then show ?thesis using assms by (cases es) auto
next
  case False
  then have "filter (\<lambda>e. k < re_index e) es = drop (Suc k - b) es"
    using filter_greater_contiguous [of es re_index b "Suc k - b"] assms(1)
    by (simp add: contiguous_def Suc_le_eq)
  then show ?thesis using contiguous_drop [OF assms(1), of "Suc k - b"] assms(2)
    by (cases "drop (Suc k - b) es") auto
qed

lemma load_tail_sound:
  assumes "load_tail sha s k db = Inr tail" "db_inv db" "s < u64_max"
  shows "contiguous (s + 1) tail \<and> (\<forall>e\<in>set tail. storable sha e) \<and> k \<le> s + length tail \<and>
    s + length tail \<le> max s i64_max \<and>
    map raw_log_row tail = map snd (filter (\<lambda>(i, _). int s < i) (consensus_log db))"
proof -
  obtain es where es: "map snd (consensus_log db) = map raw_log_row es" "\<forall>e\<in>set es. storable sha e"
      "verify_no_gap None es = Inr ()" "tail = filter (\<lambda>e. s < re_index e) es"
      "tail \<noteq> [] \<longrightarrow> re_index (hd tail) = sat_add64 s 1" "k \<le> (if tail = [] then s else re_index (last tail))"
    using assms(1) by (auto simp: load_tail_def result_bind_eq_Inr hydrate_rows_iff Let_def split: if_splits)
  have rows: "consensus_log db = log_rows es"
  proof -
    have "fst x = lr_log_index (snd x)" if "x \<in> set (consensus_log db)" for x
      using assms(2) that by (auto simp: db_inv_def log_keys_ok_def)
    then have "consensus_log db = map (\<lambda>r. (lr_log_index r, r)) (map snd (consensus_log db))"
      by (simp add: map_idI prod_eq_iff)
    then show ?thesis by (simp add: es(1) log_rows_def)
  qed
  have small: "re_index e \<le> i64_max" if "e \<in> set es" for e
    using assms(2) that by (auto simp: db_inv_def log_keys_ok_def rows log_rows_def)
  have cont: "es = [] \<or> contiguous (re_index (hd es)) es"
    using es(3) verify_no_gap_None [of es] small i64_max_less by (meson le_less_trans)
  have tail: "contiguous (s + 1) tail"
  proof (cases "tail = []")
    case False
    then have "es \<noteq> []" using es(4) by auto
    with cont have "contiguous (re_index (hd es)) es" by simp
    then show ?thesis using contiguous_filter_tail [of _ es s] es(4,5) False assms(3) by simp
  qed simp
  have "s + length tail \<le> max s i64_max"
  proof (cases "tail = []")
    case False
    then have "re_index (last tail) \<le> i64_max" using small es(4) last_in_set [OF False] by auto
    then show ?thesis using contiguous_last [OF tail False] by simp
  qed simp
  moreover have "k \<le> s + length tail"
    using es(6) contiguous_last [OF tail] by (cases "tail = []") simp_all
  moreover have "map raw_log_row tail = map snd (filter (\<lambda>(i, _). int s < i) (consensus_log db))"
    unfolding rows log_rows_filter es(4) by (simp add: log_rows_def comp_def)
  ultimately show ?thesis using tail es(2,4) by auto
qed

lemma load_tail_refines:
  assumes "contiguous (s + 1) es" "\<forall>e\<in>set es. entry_fits sha e" "consensus_log db = log_rows es"
    "k \<le> s + length es" "s < u64_max"
  shows "load_tail sha s k db = Inr es"
proof -
  have "map snd (log_rows es) = map raw_log_row es" by (simp add: log_rows_def comp_def)
  moreover have "hydrate_rows sha (map raw_log_row es) = Inr es"
    using assms(2) by (auto simp: hydrate_rows_iff entry_fits_def)
  moreover have "verify_no_gap None es = Inr ()"
    using assms(1,2) i64_max_less by (subst verify_no_gap_None; cases es) (auto simp: entry_fits_def)
  moreover have "filter (\<lambda>e. s < re_index e) es = es"
    using contiguous_bounds [OF assms(1)] by (intro filter_True) fastforce
  ultimately show ?thesis
    using assms contiguous_last [OF assms(1)] by (cases es) (auto simp: load_tail_def Let_def)
qed

section \<open>Reading back\<close>

definition du_machine :: "sha256_fn \<Rightarrow> Durable \<Rightarrow> ControlPlaneStateMachine" where
  "du_machine sha du = (case du_snap du of
     None \<Rightarrow> sm_new
   | Some (_, b) \<Rightarrow> (case decode_snapshot sha b of Inr sm \<Rightarrow> sm | Inl _ \<Rightarrow> sm_new))"

definition du_recovered :: "Durable \<Rightarrow> RehydratedCoreState" where
  "du_recovered du = \<lparr>rh_current_term = du_term du, rh_voted_for = du_voted du,
     rh_commit_index = du_commit du, rh_snapshot = du_snap du, rh_log_tail = du_log du\<rparr>"

lemma load_snapshot_refines:
  assumes "holds sha du db" "du_ok sha du"
  shows "\<exists>db1. load_snapshot sha db = Inr (du_machine sha du, du_snap du, db1) \<and> holds sha du db1"
proof (cases "du_snap du")
  case None
  have "tables_hold sha du db" using assms(1) by (simp add: holds_def)
  then show ?thesis
    using assms(1) None read_snapshot_holds [of sha du db] by (simp add: load_snapshot_def du_machine_def)
next
  case (Some x)
  then obtain m b where mb: "du_snap du = Some (m, b)" by (cases x) simp
  have tab: "tables_hold sha du db" using assms(1) by (simp add: holds_def)
  obtain sm where sm: "decode_snapshot sha b = Inr sm" "matches_meta sha sm m"
    using assms(2) mb by (auto simp: du_ok_def snapshot_valid_def)
  have stored: "snapshot_files db (meta_file m) = Some b" using assms(1) mb by (simp add: holds_def)
  have "load_snapshot sha db = Inr (sm, Some (m, b), retire_obsolete_snapshot_files (meta_file m) db)"
    using read_snapshot_holds [OF tab] mb stored sm by (simp add: load_snapshot_def snapshot_digest_def)
  moreover have "holds sha du (retire_obsolete_snapshot_files (meta_file m) db)"
    using assms(1) mb by (simp add: holds_def)
  ultimately show ?thesis using mb sm(1) by (simp add: du_machine_def)
qed

lemma load_refines:
  assumes "holds sha du db" "du_ok sha du"
  shows "fst (load_and_verify_all sha db) =
      (case replay_committed sha (du_commit du) (du_log du) (du_machine sha du) of
         Inl f \<Rightarrow> Inl f
       | Inr sm \<Rightarrow> Inr \<lparr>rec_core_state = du_recovered du, rec_state_machine = sm\<rparr>) \<and>
    holds sha du (snd (load_and_verify_all sha db))"
proof -
  let ?s = "du_snap_index du"
  obtain db1 where ld: "load_snapshot sha db = Inr (du_machine sha du, du_snap du, db1)" "holds sha du db1"
    using load_snapshot_refines [OF assms] by blast
  have read: "read_and_verify_hard_state_conn sha db = Inr (du_term du, du_voted du, du_commit du)"
    using assms by (simp add: read_hard_state_iff holds_def du_ok_def)
  have inc: "(case du_snap du of Some (m, _) \<Rightarrow> included_index m | None \<Rightarrow> 0) = ?s"
    by (simp add: du_snap_index_def)
  have ok: "?s \<le> du_commit du" "?s \<le> i64_max" "contiguous (?s + 1) (du_log du)"
      "\<forall>e\<in>set (du_log du). entry_fits sha e" "du_commit du \<le> ?s + length (du_log du)"
    using assms(2) by (auto simp: du_ok_def)
  have log: "consensus_log db1 = log_rows (du_log du)" using ld(2) by (simp add: holds_def tables_hold_def)
  have tail: "load_tail sha ?s (du_commit du) db1 = Inr (du_log du)"
    using load_tail_refines [OF ok(3,4) log ok(5)] ok(2) i64_max_less by simp
  have "filter (\<lambda>e. \<not> int (re_index e) \<le> int ?s) (du_log du) = du_log du"
    using contiguous_bounds [OF ok(3)] by (intro filter_True) fastforce
  moreover have "\<forall>e\<in>set (du_log du). \<not> int (re_index e) \<le> int ?s"
    using contiguous_bounds [OF ok(3)] by fastforce
  ultimately have "delete_log_where (\<lambda>i. i \<le> int ?s) db1 = Inr db1"
    using delete_refines [OF log, of "\<lambda>i. i \<le> int ?s"] log by simp
  then have del: "(if 0 < ?s then result_bind (u64_to_i64 ?s) (\<lambda>idx. delete_log_where (\<lambda>i. i \<le> idx) db1) else Inr db1) = Inr db1"
    using ok(2) by (simp add: u64_to_i64_def)
  have load: "load_and_verify_all sha db =
      (case replay_committed sha (du_commit du) (du_log du) (du_machine sha du) of
         Inl f \<Rightarrow> (Inl f, db1)
       | Inr sm \<Rightarrow> (Inr \<lparr>rec_core_state = du_recovered du, rec_state_machine = sm\<rparr>, db1))"
  proof -
    have "\<not> du_commit du < ?s" using ok(1) by simp
    then show ?thesis
      unfolding load_and_verify_all_def read ld(1) sum.case prod.case inc Let_def
      by (simp only: tail del sum.case if_False du_recovered_def)
  qed
  show ?thesis
    using ld(2) by (cases "replay_committed sha (du_commit du) (du_log du) (du_machine sha du)") (simp_all add: load)
qed

section \<open>Soundness on any store\<close>

lemma load_sound:
  assumes "fst (load_and_verify_all sha db) = Inr r" "db_inv db"
  shows "consensus_meta db = Some (hard_row sha (rh_current_term (rec_core_state r))
      (rh_voted_for (rec_core_state r)) (rh_commit_index (rec_core_state r))) \<and>
    recoverable (rec_core_state r) \<and> (\<forall>e\<in>set (rh_log_tail (rec_core_state r)). storable sha e) \<and>
    (\<exists>sm0. (case rh_snapshot (rec_core_state r) of None \<Rightarrow> sm0 = sm_new
        | Some (m, b) \<Rightarrow> decode_snapshot sha b = Inr sm0 \<and> matches_meta sha sm0 m) \<and>
      replay_committed sha (rh_commit_index (rec_core_state r)) (rh_log_tail (rec_core_state r)) sm0 =
        Inr (rec_state_machine r))"
proof -
  obtain t v k where hs: "read_and_verify_hard_state_conn sha db = Inr (t, v, k)"
    using assms(1) by (cases "read_and_verify_hard_state_conn sha db") (auto simp: load_and_verify_all_def)
  obtain sm snap db1 where ld: "load_snapshot sha db = Inr (sm, snap, db1)"
    using assms(1) hs by (cases "load_snapshot sha db") (auto simp: load_and_verify_all_def)
  define s where "s = (case snap of Some (m, _) \<Rightarrow> included_index m | None \<Rightarrow> 0)"
  note eq = assms(1) [unfolded load_and_verify_all_def hs ld sum.case prod.case Let_def, folded s_def]
  have sk: "s \<le> k" using eq by (rule contrapos_pp) simp
  obtain tail where tail: "load_tail sha s k db1 = Inr tail"
    using eq sk by (cases "load_tail sha s k db1") (auto split: if_splits)
  obtain db2 where del: "(if 0 < s then result_bind (u64_to_i64 s) (\<lambda>idx. delete_log_where (\<lambda>i. i \<le> idx) db1) else Inr db1) = Inr db2"
    using eq sk tail
    by (cases "if 0 < s then result_bind (u64_to_i64 s) (\<lambda>idx. delete_log_where (\<lambda>i. i \<le> idx) db1) else Inr db1") simp_all
  obtain sm1 where rep: "replay_committed sha k tail sm = Inr sm1"
    using eq sk tail del by (cases "replay_committed sha k tail sm") simp_all
  have r: "r = \<lparr>rec_core_state = \<lparr>rh_current_term = t, rh_voted_for = v, rh_commit_index = k,
      rh_snapshot = snap, rh_log_tail = tail\<rparr>, rec_state_machine = sm1\<rparr>"
    using eq sk tail del rep by simp
  have inv1: "db_inv db1" using load_snapshot_steps [OF ld] assms(2) by (simp add: db_steps_def)
  have snap: "s \<le> i64_max" "snap \<noteq> None \<longrightarrow> 0 < s"
      "case snap of None \<Rightarrow> sm = sm_new | Some (m, b) \<Rightarrow> decode_snapshot sha b = Inr sm \<and> matches_meta sha sm m"
    using ld assms(2) by (cases rule: load_snapshot_cases; auto simp: s_def db_inv_def read_snapshot_row_iff)+
  note t = load_tail_sound [OF tail inv1]
  have "recoverable (rec_core_state r)"
    using t snap(1,2) i64_max_less by (auto simp: recoverable_def r Let_def s_def [symmetric])
  then show ?thesis
    using hs t snap(1,3) i64_max_less rep by (auto simp: r read_hard_state_iff)
qed

end
