(* ===== verification/RaftDurable.thy ===== *)
theory RaftDurable
  imports StoreRecovery
begin

text \<open>
  What the core asks the store to keep. \<open>core_durable\<close> is the durable part of a core; \<open>persists\<close> says
  that replaying the effects of a step on the durable part before gives the durable part after, so
  nothing of it is changed in memory only. The lemmas establish it handler by handler for rosters of
  more than one voter; a single voter takes its term and vote for granted and writes neither.
\<close>

definition core_durable :: "ConsensusCore \<Rightarrow> Durable" where
  "core_durable c = \<lparr>du_term = current_term c, du_voted = voted_for c, du_commit = commit_index c,
     du_snap = (case (snapshot_meta c, snapshot_bytes c) of (Some m, Some b) \<Rightarrow> Some (m, b) | _ \<Rightarrow> None),
     du_log = log_tail c\<rparr>"

definition persists :: "sha256_fn \<Rightarrow> ConsensusCore \<Rightarrow> core_result \<Rightarrow> bool" where
  "persists sha c res = (replay sha (filter is_storage_effect (snd res)) (core_durable c) =
     Some (core_durable (fst res)) \<and> one_install (snd res))"

lemma core_durable_sel [simp]:
  "du_term (core_durable c) = current_term c" "du_voted (core_durable c) = voted_for c"
  "du_commit (core_durable c) = commit_index c" "du_log (core_durable c) = log_tail c"
  by (simp_all add: core_durable_def)

lemma core_durable_snap_index: "log_inv c \<Longrightarrow> du_snap_index (core_durable c) = snapshot_index c"
  by (auto simp: du_snap_index_def core_durable_def snapshot_index_def log_inv_def split: option.splits)

lemma core_durable_cong:
  assumes "current_term d = current_term c" "voted_for d = voted_for c" "commit_index d = commit_index c"
    "snapshot_meta d = snapshot_meta c" "snapshot_bytes d = snapshot_bytes c" "log_tail d = log_tail c"
  shows "core_durable d = core_durable c"
  using assms by (simp add: core_durable_def)

section \<open>Replay without the other effects\<close>

lemma replay1_other: "\<not> is_storage_effect eff \<Longrightarrow> replay1 eff du = Some du"
  by (cases eff) simp_all

lemma replay_stored: "du_ok sha du \<Longrightarrow> replay sha effs du = replay sha (filter is_storage_effect effs) du"
proof (induction effs arbitrary: du)
  case (Cons eff effs)
  then show ?case by (cases "is_storage_effect eff") (auto simp: replay1_other split: option.splits)
qed simp

lemma replay_ok: "du_ok sha du \<Longrightarrow> replay sha effs du = Some du1 \<Longrightarrow> du_ok sha du1"
  by (induction effs arbitrary: du) (auto split: option.splits if_splits)

lemma one_install_stored: "one_install (filter is_storage_effect effs) = one_install effs"
proof -
  have "filter (\<lambda>eff. case eff of InstallSnapshot _ _ \<Rightarrow> True | _ \<Rightarrow> False) (filter is_storage_effect effs) =
      filter (\<lambda>eff. case eff of InstallSnapshot _ _ \<Rightarrow> True | _ \<Rightarrow> False) effs"
    by (auto simp: filter_filter split: ConsensusEffect.splits intro!: filter_cong)
  then show ?thesis by (simp add: one_install_def)
qed

lemma persists_stored:
  "persists sha c (d, effs) = persists sha c (d, filter is_storage_effect effs)"
  by (simp add: persists_def one_install_stored)

lemma persistsI:
  assumes "filter is_storage_effect (snd res) = s" "replay sha s (core_durable c) = Some (core_durable (fst res))"
    "one_install s"
  shows "persists sha c res"
  using assms one_install_stored [of "snd res"] by (simp add: persists_def)

lemma stored_map_send [simp]:
  "filter is_storage_effect (map (\<lambda>p. SendMessage (f p) (g p)) xs) = []"
  "filter is_storage_effect (map (\<lambda>r. ProposalRejected (Some r) (h r)) ys) = []"
  by (simp_all add: filter_empty_conv)

lemma stored_broadcast [simp]:
  "filter is_storage_effect (broadcast_replication_or_heartbeat sha c r) = []"
  by (simp add: broadcast_replication_or_heartbeat_def core_eqs)

lemma stored_swept [simp]: "filter is_storage_effect (swept_reads c) = []"
  by (auto simp: swept_reads_def sweep_confirmed_quorum_rounds_def Let_def filter_empty_conv)

lemma stored_step_down [simp]: "filter is_storage_effect (step_down_effects t c) = [PersistHardState t None]"
  by (auto simp: step_down_effects_def step_down_to_higher_term_def Let_def comp_def)

lemma stored_caught_up [simp]:
  "filter is_storage_effect (caught_up_effects t c) = (if current_term c < t then [PersistHardState t None] else [])"
  by (simp add: caught_up_effects_def)

lemma stored_response [simp]:
  "\<not> is_storage_effect (append_response c l s mi ct ci r)"
  "\<not> is_storage_effect (snapshot_response c l ii no inst)"
  by (simp_all add: append_response_def snapshot_response_def)

lemma one_install_simps [simp]:
  "one_install []" "one_install (PersistHardState t v # effs) = one_install effs"
  "one_install (TruncateLogSuffixFrom k # effs) = one_install effs"
  "one_install (AppendLogEntries es # effs) = one_install effs"
  "one_install (AdvanceCommitIndex k t es # effs) = one_install effs"
  by (simp_all add: one_install_def)

section \<open>Handlers that touch the hard state only\<close>

lemma replay_nothing: "core_durable d = core_durable c \<Longrightarrow> filter is_storage_effect effs = [] \<Longrightarrow> persists sha c (d, effs)"
  by (subst persists_stored) (simp add: persists_def)

lemma replay_new_term:
  assumes "du_ok sha (core_durable c)" "current_term c < t" "t \<le> i64_max" "v \<noteq> Some 0"
    "current_term d = t" "voted_for d = v" "commit_index d = commit_index c" "snapshot_meta d = snapshot_meta c"
    "snapshot_bytes d = snapshot_bytes c" "log_tail d = log_tail c"
  shows "replay sha [PersistHardState t v] (core_durable c) = Some (core_durable d)"
proof -
  have eq: "(core_durable c)\<lparr>du_term := t, du_voted := v\<rparr> = core_durable d"
    using assms(5-10) by (simp add: core_durable_def)
  have "du_ok sha ((core_durable c)\<lparr>du_term := t, du_voted := v\<rparr>)"
    using assms(1,3,4) by (simp add: du_ok_def du_snap_index_def)
  then show ?thesis using assms(2) by (simp add: hard_state_follows_def eq)
qed

lemma replay_vote:
  assumes "du_ok sha (core_durable c)" "voted_for c = None \<or> voted_for c = Some x" "x \<noteq> 0"
  shows "replay sha [PersistHardState (current_term c) (Some x)] (core_durable c) =
    Some (core_durable (c\<lparr>voted_for := Some x\<rparr>))"
proof -
  have eq: "(core_durable c)\<lparr>du_term := current_term c, du_voted := Some x\<rparr> = core_durable (c\<lparr>voted_for := Some x\<rparr>)"
    by (simp add: core_durable_def)
  have "du_ok sha ((core_durable c)\<lparr>du_term := current_term c, du_voted := Some x\<rparr>)"
    using assms(1,3) by (simp add: du_ok_def du_snap_index_def)
  then show ?thesis using assms(2) by (auto simp: hard_state_follows_def eq)
qed

lemma persists_step_down:
  assumes "du_ok sha (core_durable c)" "current_term c < t" "t \<le> i64_max"
  shows "persists sha c (stepped_down t c, step_down_effects t c)"
  using replay_new_term [OF assms(1,2,3), of None "stepped_down t c"]
  by (subst persists_stored) (simp add: persists_def)

lemma persists_election:
  assumes "du_ok sha (core_durable c)" "current_term c < i64_max" "local_id c \<noteq> 0"
  shows "persists sha c (start_real_election c)"
proof -
  have t: "sat_add64 (current_term c) 1 = current_term c + 1" using assms(2) i64_max_less by simp
  show ?thesis
  proof (rule persistsI)
    show "filter is_storage_effect (snd (start_real_election c)) =
        [PersistHardState (current_term c + 1) (Some (local_id c))]"
      unfolding start_real_election_def Let_def t by simp
    show "replay sha [PersistHardState (current_term c + 1) (Some (local_id c))] (core_durable c) =
        Some (core_durable (fst (start_real_election c)))"
      by (rule replay_new_term [OF assms(1)])
        (use assms t in \<open>simp_all add: start_real_election_def Let_def\<close>)
  qed simp
qed

lemma persists_cong:
  assumes "persists sha c res" "core_durable c' = core_durable c"
  shows "persists sha c' res"
  using assms by (simp add: persists_def)

text \<open>The largest term in a message that a receiver may adopt.\<close>

fun message_term :: "RaftMessage \<Rightarrow> ConsensusTerm" where
  "message_term (RequestPreVote pt cand li lt) = 0"
| "message_term (RequestPreVoteResponse t pt v g) = t"
| "message_term (RequestVote t cand li lt) = t"
| "message_term (RequestVoteResponse t v g) = t"
| "message_term (AppendEntries t l pi pt es lc r) = t"
| "message_term (AppendEntriesResponse t f s mi ct ci r) = t"
| "message_term (InstallSnapshotChunk t l ii it root tsha total_b off chunk d) = t"
| "message_term (InstallSnapshotResponse t f ii no inst) = t"

lemma persists_tick:
  assumes "length (roster c) \<noteq> 1"
  shows "persists sha c (on_tick sha c)"
  by (rule persistsI [where s = "[]"])
    (auto simp: on_tick_def start_pre_vote_def core_eqs Let_def assms intro!: core_durable_cong)

lemma persists_read:
  assumes "length (roster c) \<noteq> 1"
  shows "persists sha c (on_request_linearizable_read sha c r e)"
  by (rule persistsI [where s = "[]"])
    (auto simp: on_request_linearizable_read_def core_eqs Let_def assms split: sum.split intro!: core_durable_cong)

lemma persists_pre_vote: "persists sha c (on_request_pre_vote c pt cand li lt)"
  by (rule persistsI [where s = "[]"]) (simp_all add: on_request_pre_vote_def Let_def)

lemma persists_if:
  "(b \<Longrightarrow> persists sha c x) \<Longrightarrow> (\<not> b \<Longrightarrow> persists sha c y) \<Longrightarrow> persists sha c (if b then x else y)"
  by simp

lemma persists_pre_vote_response:
  assumes "du_ok sha (core_durable c)" "current_term c < i64_max" "local_id c \<noteq> 0" "t \<le> i64_max"
  shows "persists sha c (on_request_pre_vote_response c t pt v g)"
proof -
  define c1 where "c1 = (case (g, domain_of (roster c) v) of (True, Some domain) \<Rightarrow>
      c\<lparr>pre_votes_granted_domains := insert domain (pre_votes_granted_domains c)\<rparr> | _ \<Rightarrow> c)"
  have sel: "current_term c1 = current_term c" "local_id c1 = local_id c" "core_durable c1 = core_durable c"
    unfolding c1_def by (cases g; cases "domain_of (roster c) v"; simp add: core_durable_def)+
  have "persists sha c1 (start_real_election c1)"
    by (rule persists_election) (use assms sel in simp_all)
  then have el: "persists sha c (start_real_election c1)" by (rule persists_cong) (simp add: sel)
  show ?thesis
    unfolding on_request_pre_vote_response_def step_down_eq c1_def [symmetric] Let_def
    by (intro persists_if persists_step_down [OF assms(1) _ assms(4)] el replay_nothing) (simp_all add: sel)
qed

lemma persists_vote_response:
  assumes "du_ok sha (core_durable c)" "t \<le> i64_max"
  shows "persists sha c (on_request_vote_response sha c t v g)"
proof -
  define c1 where "c1 = (case (g, domain_of (roster c) v) of (True, Some domain) \<Rightarrow>
      c\<lparr>votes_granted_domains := insert domain (votes_granted_domains c)\<rparr> | _ \<Rightarrow> c)"
  have sel: "core_durable c1 = core_durable c"
    unfolding c1_def by (cases g; cases "domain_of (roster c) v"; simp add: core_durable_def)
  have "persists sha c1 (become_leader sha c1)"
    by (rule persistsI [where s = "[]"]) (simp_all add: become_leader_def core_eqs Let_def core_durable_def)
  then have bl: "persists sha c (become_leader sha c1)" by (rule persists_cong) (simp add: sel)
  show ?thesis
    unfolding on_request_vote_response_def step_down_eq c1_def [symmetric] Let_def
    by (intro persists_if persists_step_down [OF assms(1) _ assms(2)] bl replay_nothing) (simp_all add: sel)
qed

lemma caught_up_replay:
  assumes "du_ok sha (core_durable c)" "t \<le> i64_max"
  shows "replay sha (filter is_storage_effect (caught_up_effects t c)) (core_durable c) = Some (core_durable (caught_up t c))"
  using replay_new_term [OF assms(1) _ assms(2), of None "stepped_down t c"]
  by (auto simp: caught_up_def)

lemma caught_up_ok:
  assumes "du_ok sha (core_durable c)" "t \<le> i64_max"
  shows "du_ok sha (core_durable (caught_up t c))"
  using replay_ok [OF assms(1) caught_up_replay [OF assms]] .

lemma persists_vote:
  assumes "du_ok sha (core_durable c)" "t \<le> i64_max" "cand \<noteq> 0"
  shows "persists sha c (on_request_vote c t cand li lt)"
proof -
  define d e where "d = caught_up t c" and "e = caught_up_effects t c"
  define grant where "grant \<longleftrightarrow> \<not> t < current_term d \<and> (voted_for d = None \<or> voted_for d = Some cand) \<and> log_up_to_date d li lt"
  have eq: "on_request_vote c t cand li lt =
      (if grant then (d\<lparr>voted_for := Some cand, ticks_since_leader_contact := 0\<rparr>,
          e @ [PersistHardState (current_term d) (Some cand),
            SendMessage cand (RequestVoteResponse (current_term d) (local_id d) True)])
       else (d, e @ [SendMessage cand (RequestVoteResponse (current_term d) (local_id d) False)]))"
    by (simp add: on_request_vote_def catch_up_eq Let_def grant_def d_def e_def)
  have ok: "du_ok sha (core_durable d)" unfolding d_def by (rule caught_up_ok [OF assms(1,2)])
  have cu: "replay sha (filter is_storage_effect e) (core_durable c) = Some (core_durable d)"
    unfolding d_def e_def by (rule caught_up_replay [OF assms(1,2)])
  have one: "one_install (filter is_storage_effect e @ xs) = one_install xs" for xs by (simp add: e_def)
  show ?thesis
  proof (cases grant)
    case True
    have "core_durable (d\<lparr>voted_for := Some cand, ticks_since_leader_contact := 0\<rparr>) = core_durable (d\<lparr>voted_for := Some cand\<rparr>)"
      by (rule core_durable_cong) simp_all
    moreover have "replay sha [PersistHardState (current_term d) (Some cand)] (core_durable d) =
        Some (core_durable (d\<lparr>voted_for := Some cand\<rparr>))"
      by (rule replay_vote [OF ok]) (use True assms(3) in \<open>simp_all add: grant_def\<close>)
    ultimately have "replay sha (filter is_storage_effect e @ [PersistHardState (current_term d) (Some cand)]) (core_durable c) =
        Some (core_durable (d\<lparr>voted_for := Some cand, ticks_since_leader_contact := 0\<rparr>))"
      unfolding replay_append cu Option.bind.simps by simp
    then show ?thesis
      unfolding eq if_P [OF True] by (intro persistsI [OF refl]) (simp_all add: one del: replay.simps)
  next
    case False
    then show ?thesis
      unfolding eq if_not_P [OF False] using cu one [of "[]"] by (intro persistsI [OF refl]) simp_all
  qed
qed

section \<open>Proposals and commit\<close>

lemma replay_append_entries:
  assumes "du_ok sha (core_durable c)" "log_inv c" "es \<noteq> []" "contiguous (snapshot_index c + 1 + length (log_tail c)) es"
    "\<forall>e\<in>set es. entry_fits sha e"
  shows "replay sha [AppendLogEntries es] (core_durable c) = Some (core_durable (c\<lparr>log_tail := log_tail c @ es\<rparr>))"
proof -
  have eq: "(core_durable c)\<lparr>du_log := log_tail c @ es\<rparr> = core_durable (c\<lparr>log_tail := log_tail c @ es\<rparr>)"
    by (simp add: core_durable_def)
  have "re_index (last es) \<le> i64_max" using assms(3,5) by (simp add: entry_fits_def)
  then have "snapshot_index c + length (log_tail c) + length es \<le> i64_max"
    using contiguous_last [OF assms(4,3)] by simp
  then have "du_ok sha ((core_durable c)\<lparr>du_log := log_tail c @ es\<rparr>)"
    using assms(1,4,5) core_durable_snap_index [OF assms(2)] by (auto simp: du_ok_def du_snap_index_def)
  then show ?thesis by (simp add: eq)
qed

lemma replay_commit:
  assumes "du_ok sha (core_durable c)" "log_inv c" "commit_index c \<le> k" "k \<le> last_log_index c"
  shows "replay sha [AdvanceCommitIndex k t es] (core_durable c) = Some (core_durable (c\<lparr>commit_index := k\<rparr>))"
proof -
  have eq: "(core_durable c)\<lparr>du_commit := k\<rparr> = core_durable (c\<lparr>commit_index := k\<rparr>)" by (simp add: core_durable_def)
  have "du_ok sha ((core_durable c)\<lparr>du_commit := k\<rparr>)"
    using assms core_durable_snap_index [OF assms(2)] log_inv_last_log_index [OF assms(2)]
    by (auto simp: du_ok_def du_snap_index_def)
  then show ?thesis using assms(3) by (simp add: eq)
qed

lemma proposed_entry_fits:
  assumes "command_ok (command p)" "last_log_index c < i64_max" "0 < current_term c" "current_term c \<le> i64_max"
  shows "entry_fits sha (log_entry_new sha (last_log_index c + 1) (current_term c) p)"
  using assms by (simp add: entry_fits_def storable_def log_entry_new_def verify_integrity_def)

lemma persists_propose:
  assumes "du_ok sha (core_durable c)" "log_inv c" "length (roster c) \<noteq> 1" "last_log_index c < i64_max"
    "role c = Leader \<longrightarrow> 0 < current_term c" "command_ok (command p)"
  shows "persists sha c (on_propose sha c p expected)"
proof (cases "check_leader_gate c expected")
  case (Inl r)
  then show ?thesis by (intro persistsI [where s = "[]"]) (simp_all add: on_propose_def)
next
  case (Inr u)
  let ?e = "log_entry_new sha (last_log_index c + 1) (current_term c) p"
  have leader: "role c = Leader" using Inr by (auto simp: check_leader_gate_def split: option.splits if_splits)
  have idx: "sat_add64 (last_log_index c) 1 = last_log_index c + 1" using assms(4) i64_max_less by simp
  have fits: "entry_fits sha ?e"
    using proposed_entry_fits [OF assms(6,4)] assms(1,5) leader by (simp add: du_ok_def)
  have rep: "replay sha [AppendLogEntries [?e]] (core_durable c) = Some (core_durable (c\<lparr>log_tail := log_tail c @ [?e]\<rparr>))"
    by (rule replay_append_entries [OF assms(1,2)])
      (use fits log_inv_last_log_index [OF assms(2)] in \<open>simp_all add: log_entry_new_def\<close>)
  have after: "core_durable (fst (on_propose sha c p expected)) = core_durable (c\<lparr>log_tail := log_tail c @ [?e]\<rparr>)"
    unfolding on_propose_def Inr idx Let_def
    using assms(3) by (intro core_durable_cong) (simp_all add: core_eqs)
  have stored: "filter is_storage_effect (snd (on_propose sha c p expected)) = [AppendLogEntries [?e]]"
    unfolding on_propose_def Inr idx Let_def using assms(3) by (simp add: core_eqs)
  show ?thesis by (rule persistsI [OF stored rep [folded after]]) simp
qed

lemma leader_advance_replay:
  assumes "du_ok sha (core_durable c)" "log_inv c"
  shows "replay sha (filter is_storage_effect (leader_advance c)) (core_durable c) =
    Some (core_durable (c\<lparr>commit_index := best_commit c\<rparr>))" "one_install (leader_advance c)"
proof -
  let ?k = "best_commit c"
  have le: "commit_index c \<le> ?k" "?k \<le> last_log_index c"
    using best_commit_cases [of c] log_inv_commit_le [OF assms(2)] by auto
  have "replay sha (filter is_storage_effect (leader_advance c)) (core_durable c) =
      Some (core_durable (c\<lparr>commit_index := ?k\<rparr>)) \<and> one_install (leader_advance c)"
  proof (cases "commit_index c < ?k")
    case True
    then have eq: "leader_advance c = [AdvanceCommitIndex ?k (current_term c) (collect_range c (commit_index c + 1) ?k)]"
      by (simp add: leader_advance_def try_advance_leader_commit_def Let_def)
    show ?thesis
      unfolding eq filter.simps is_storage_effect.simps if_True one_install_simps
      using replay_commit [OF assms le] one_install_simps(1) by blast
  next
    case False
    then have "leader_advance c = []" by (simp add: leader_advance_def try_advance_leader_commit_def Let_def)
    moreover have "core_durable (c\<lparr>commit_index := ?k\<rparr>) = core_durable c"
      by (rule core_durable_cong) (use False le in simp_all)
    ultimately show ?thesis by simp
  qed
  then show "replay sha (filter is_storage_effect (leader_advance c)) (core_durable c) =
    Some (core_durable (c\<lparr>commit_index := ?k\<rparr>))" "one_install (leader_advance c)" by blast+
qed

lemma persists_after:
  assumes "replay sha (filter is_storage_effect f) (core_durable c) = Some (core_durable d)" "one_install f"
    "core_durable e = core_durable d" "filter is_storage_effect g = []"
  shows "persists sha c (e, f @ g)"
  by (rule persistsI [where s = "filter is_storage_effect f"]) (use assms in \<open>simp_all add: one_install_stored\<close>)

lemma matched_replay:
  assumes "du_ok sha (core_durable c)" "log_inv c"
  shows "replay sha (filter is_storage_effect (leader_advance (record_match f k c))) (core_durable c) =
      Some (core_durable ((record_match f k c)\<lparr>commit_index := best_commit (record_match f k c)\<rparr>))"
    "one_install (leader_advance (record_match f k c))"
proof -
  have eq: "core_durable (record_match f k c) = core_durable c" by (rule core_durable_cong) simp_all
  have inv: "log_inv (record_match f k c)" using assms(2) log_inv_cong [of "record_match f k c" c] by simp
  show "replay sha (filter is_storage_effect (leader_advance (record_match f k c))) (core_durable c) =
      Some (core_durable ((record_match f k c)\<lparr>commit_index := best_commit (record_match f k c)\<rparr>))"
    "one_install (leader_advance (record_match f k c))"
    using leader_advance_replay [of sha "record_match f k c", unfolded eq, OF assms(1) inv] by simp_all
qed

lemma persists_accepted:
  assumes "du_ok sha (core_durable c)" "log_inv c"
  shows "persists sha c (on_append_accepted sha c f mi r)"
proof -
  let ?d = "record_match f (min (max (bt_get_or 0 (match_index c) f) mi) (last_log_index c)) c"
  let ?e = "?d\<lparr>commit_index := best_commit ?d\<rparr>"
  note m = matched_replay [OF assms, of f "min (max (bt_get_or 0 (match_index c) f) mi) (last_log_index c)"]
  have 1: "core_durable (swept (ack_round f r ?e)) = core_durable ?e" by (rule core_durable_cong) simp_all
  have 2: "core_durable (with_round None (swept (ack_round f r ?e))) = core_durable ?e" by (rule core_durable_cong) simp_all
  show ?thesis
    unfolding on_append_accepted_def try_advance_leader_commit_eq sweep_eq allocate_and_replicate_eq build_replication_eq
      Let_def prod.case
    by (intro persists_if persists_after [OF m 1] persists_after [OF m 2]) simp_all
qed

lemma persists_installed:
  assumes "du_ok sha (core_durable c)" "log_inv c"
  shows "persists sha c (on_snapshot_installed sha c f ii)"
proof -
  let ?d = "record_match f (max (bt_get_or 0 (match_index c) f) ii) c"
  let ?e = "?d\<lparr>commit_index := best_commit ?d\<rparr>"
  note m = matched_replay [OF assms, of f "max (bt_get_or 0 (match_index c) f) ii"]
  have 1: "core_durable (with_round None ?e) = core_durable ?e" by (rule core_durable_cong) simp_all
  show ?thesis
    unfolding on_snapshot_installed_def try_advance_leader_commit_eq allocate_and_replicate_eq build_replication_eq
      Let_def prod.case
    by (intro persists_if persists_after [OF m 1] persists_after [OF m refl, of "[]", simplified]) simp_all
qed

lemma persists_append_response:
  assumes "du_ok sha (core_durable c)" "log_inv c" "t \<le> i64_max"
  shows "persists sha c (on_append_entries_response sha c t f s mi ct ci r)"
proof -
  have "persists sha c (on_append_conflict sha c f ct ci)"
    by (rule persistsI [where s = "[]"]) (simp_all add: on_append_conflict_def core_eqs Let_def core_durable_def)
  then show ?thesis
    unfolding on_append_entries_response_def step_down_eq
    by (intro persists_if persists_step_down [OF assms(1) _ assms(3)] persists_accepted [OF assms(1,2)] replay_nothing)
      simp_all
qed

lemma persists_snapshot_response:
  assumes "du_ok sha (core_durable c)" "log_inv c" "t \<le> i64_max"
  shows "persists sha c (on_install_snapshot_response sha c t f ii no inst)"
proof (cases "snapshot_meta c")
  case None
  then show ?thesis
    unfolding on_install_snapshot_response_def step_down_eq None option.case
    by (intro persists_if persists_step_down [OF assms(1) _ assms(3)] replay_nothing) simp_all
next
  case (Some m)
  have rep: "persists sha c (allocate_and_replicate sha f d)" if "core_durable d = core_durable c" for d
    using that by (intro persistsI [where s = "[]"]) (simp_all add: core_eqs core_durable_def)
  show ?thesis
    unfolding on_install_snapshot_response_def step_down_eq Some option.case
    by (intro persists_if persists_step_down [OF assms(1) _ assms(3)] persists_installed [OF assms(1,2)] rep replay_nothing)
      (simp_all add: core_durable_def)
qed

section \<open>Replication messages\<close>

lemma replay_truncate:
  assumes "du_ok sha (core_durable c)" "log_inv c" "pos < length (log_tail c)" "k = snapshot_index c + 1 + pos"
    "commit_index c < k"
  shows "replay sha [TruncateLogSuffixFrom k] (core_durable c) = Some (core_durable (c\<lparr>log_tail := take pos (log_tail c)\<rparr>))"
proof -
  have cont: "contiguous (snapshot_index c + 1) (log_tail c)" by (rule log_inv_contiguous [OF assms(2)])
  have "filter (\<lambda>e. re_index e < k) (log_tail c) =
      filter (\<lambda>e. re_index e < k) (take pos (log_tail c)) @ filter (\<lambda>e. re_index e < k) (drop pos (log_tail c))"
    by (metis append_take_drop_id filter_append)
  moreover have "filter (\<lambda>e. re_index e < k) (take pos (log_tail c)) = take pos (log_tail c)"
    using contiguous_bounds [OF contiguous_take [OF cont, of pos]] assms(3,4) by (intro filter_True) fastforce
  moreover have "filter (\<lambda>e. re_index e < k) (drop pos (log_tail c)) = []"
    using contiguous_bounds [OF contiguous_drop [OF cont, of pos]] assms(4) by (intro filter_False) fastforce
  ultimately have cut: "filter (\<lambda>e. re_index e < k) (log_tail c) = take pos (log_tail c)" by simp
  have eq: "(core_durable c)\<lparr>du_log := take pos (log_tail c)\<rparr> = core_durable (c\<lparr>log_tail := take pos (log_tail c)\<rparr>)"
    by (simp add: core_durable_def)
  have idx: "du_snap_index (core_durable c) = snapshot_index c" by (rule core_durable_snap_index [OF assms(2)])
  have "du_ok sha ((core_durable c)\<lparr>du_log := take pos (log_tail c)\<rparr>)"
    using assms idx contiguous_take [OF cont, of pos] in_set_takeD [of _ pos "log_tail c"]
    by (auto simp: du_ok_def du_snap_index_def min_def)
  moreover have "k \<le> i64_max" using assms(1,3,4) idx by (simp add: du_ok_def)
  ultimately show ?thesis using assms(5) by (simp add: cut eq)
qed

text \<open>The entries of a consecutive message are passed over up to the first one that extends the log or
  replaces a conflicting suffix; all later ones extend it.\<close>

lemma reconcile_extend:
  assumes "log_inv c" "contiguous (snapshot_index c + 1 + length (log_tail c)) es"
    "\<forall>e\<in>set es. verify_integrity sha e" "\<forall>e\<in>set es. re_index e \<le> u64_max"
  shows "reconcile_entries sha c n f es = Inr (c\<lparr>log_tail := log_tail c @ es\<rparr>, n @ es, f)"
  using assms
proof (induction es arbitrary: c n)
  case (Cons e es)
  let ?d = "c\<lparr>log_tail := log_tail c @ [e]\<rparr>"
  have base: "first_uncompacted_index c = snapshot_index c + 1" by (rule log_inv_first_uncompacted [OF Cons.prems(1)])
  have e: "re_index e = snapshot_index c + 1 + length (log_tail c)" using Cons.prems(2) by simp
  have "log_advances c ?d"
    by (rule log_advances_append) (use Cons.prems e log_inv_last_log_index [OF Cons.prems(1)] in simp_all)
  then have inv: "log_inv ?d" by (rule log_advances_inv)
  have "snapshot_index ?d = snapshot_index c" by (simp add: snapshot_index_def)
  then have "reconcile_entries sha ?d (n @ [e]) f es = Inr (?d\<lparr>log_tail := log_tail ?d @ es\<rparr>, (n @ [e]) @ es, f)"
    using Cons.prems by (intro Cons.IH [OF inv]) simp_all
  then show ?case using Cons.prems(3) e base by (simp add: log_get_def)
qed simp

lemma reconcile_shape:
  assumes "log_inv c" "contiguous k es" "\<forall>e\<in>set es. verify_integrity sha e" "\<forall>e\<in>set es. re_index e \<le> u64_max"
  obtains (extend) es' where "reconcile_entries sha c [] f es = Inr (c\<lparr>log_tail := log_tail c @ es'\<rparr>, es', f)"
      "contiguous (snapshot_index c + 1 + length (log_tail c)) es'" "set es' \<subseteq> set es"
  | (conflict) pos e ys where "pos < length (log_tail c)" "re_index e = snapshot_index c + 1 + pos"
      "commit_index c < re_index e" "contiguous (re_index e) (e # ys)" "set (e # ys) \<subseteq> set es"
      "reconcile_entries sha c [] f es =
        Inr (c\<lparr>log_tail := take pos (log_tail c) @ e # ys\<rparr>, e # ys, f @ [TruncateLogSuffixFrom (re_index e)])"
  using assms
proof (induction es arbitrary: k thesis)
  case Nil
  show ?case by (rule Nil(1) [of "[]"]) simp_all
next
  case (Cons e es)
  let ?pos = "re_index e - (snapshot_index c + 1)"
  have base: "first_uncompacted_index c = snapshot_index c + 1" by (rule log_inv_first_uncompacted [OF Cons.prems(3)])
  have tl: "contiguous (Suc k) es" "\<forall>e\<in>set es. verify_integrity sha e" "\<forall>e\<in>set es. re_index e \<le> u64_max"
    using Cons.prems by simp_all
  have good: "verify_integrity sha e" using Cons.prems(5) by simp
  consider (push) "re_index e = snapshot_index c + 1 + length (log_tail c)"
    | (replace) "snapshot_index c + 1 \<le> re_index e" "?pos < length (log_tail c)"
        "re_term (log_tail c ! ?pos) \<noteq> re_term e" "commit_index c < re_index e"
    | (pass) "re_index e \<noteq> snapshot_index c + 1 + length (log_tail c)"
        "\<not> (snapshot_index c + 1 \<le> re_index e \<and> ?pos < length (log_tail c) \<and>
           re_term (log_tail c ! ?pos) \<noteq> re_term e \<and> commit_index c < re_index e)"
    by blast
  then show ?case
  proof cases
    case push
    have "reconcile_entries sha c [] f (e # es) = Inr (c\<lparr>log_tail := log_tail c @ e # es\<rparr>, [] @ e # es, f)"
      by (rule reconcile_extend [OF Cons.prems(3)]) (use push Cons.prems in auto)
    then show ?thesis using push Cons.prems(4) by (intro Cons.prems(1) [of "e # es"]) auto
  next
    case replace
    let ?d = "c\<lparr>log_tail := take ?pos (log_tail c) @ [e]\<rparr>"
    have idx: "re_index e = snapshot_index c + 1 + ?pos" using replace(1) by simp
    have "log_advances c ?d" by (rule log_advances_replace [OF Cons.prems(3) replace(2) idx replace(4)])
    then have inv: "log_inv ?d" by (rule log_advances_inv)
    have "snapshot_index ?d = snapshot_index c" by (simp add: snapshot_index_def)
    moreover have "Suc k = snapshot_index c + 1 + length (take ?pos (log_tail c) @ [e])"
      using Cons.prems(4) replace(1,2) by simp
    ultimately have "reconcile_entries sha ?d [e] (f @ [TruncateLogSuffixFrom (re_index e)]) es =
        Inr (?d\<lparr>log_tail := log_tail ?d @ es\<rparr>, [e] @ es, f @ [TruncateLogSuffixFrom (re_index e)])"
      using tl by (intro reconcile_extend [OF inv]) simp_all
    moreover have "reconcile_entries sha c [] f (e # es) =
        reconcile_entries sha ?d [e] (f @ [TruncateLogSuffixFrom (re_index e)]) es"
      using good replace base by (simp add: log_get_def)
    ultimately show ?thesis
      using replace(2,4) idx Cons.prems(4) by (intro Cons.prems(2) [of ?pos e es]) auto
  next
    case pass
    then have skip: "reconcile_entries sha c [] f (e # es) = reconcile_entries sha c [] f es"
      using good base by (cases "re_index e < snapshot_index c + 1"; cases "?pos < length (log_tail c)")
        (auto simp: log_get_def)
    show ?thesis
    proof (rule Cons.IH [OF _ _ Cons.prems(3) tl])
      show thesis if "reconcile_entries sha c [] f es = Inr (c\<lparr>log_tail := log_tail c @ es'\<rparr>, es', f)"
          "contiguous (snapshot_index c + 1 + length (log_tail c)) es'" "set es' \<subseteq> set es" for es'
        by (rule Cons.prems(1) [of es']) (use that in \<open>auto simp: skip simp del: reconcile_entries.simps\<close>)
      show thesis if "pos < length (log_tail c)" "re_index e' = snapshot_index c + 1 + pos"
          "commit_index c < re_index e'" "contiguous (re_index e') (e' # ys)" "set (e' # ys) \<subseteq> set es"
          "reconcile_entries sha c [] f es = Inr (c\<lparr>log_tail := take pos (log_tail c) @ e' # ys\<rparr>, e' # ys,
            f @ [TruncateLogSuffixFrom (re_index e')])" for pos e' ys
        by (rule Cons.prems(2) [of pos e' ys]) (use that in \<open>auto simp: skip simp del: reconcile_entries.simps\<close>)
    qed
  qed
qed

lemma follower_advance_replay:
  assumes "du_ok sha (core_durable c)" "log_inv c"
  shows "replay sha (filter is_storage_effect (follower_advance c lc)) (core_durable c) =
    Some (core_durable (c\<lparr>commit_index := follower_target c lc\<rparr>)) \<and> one_install (follower_advance c lc)"
proof -
  let ?k = "follower_target c lc"
  have le: "commit_index c \<le> ?k" "?k \<le> last_log_index c"
    using log_inv_commit_le [OF assms(2)] by (auto simp: follower_target_def)
  show ?thesis
  proof (cases "commit_index c < ?k")
    case True
    then have eq: "follower_advance c lc =
        [AdvanceCommitIndex ?k (current_term c) (collect_range c (commit_index c + 1) ?k)]"
      by (simp add: follower_advance_def follower_commit_def follower_target_def Let_def max_def min_def split: if_splits)
    show ?thesis
      unfolding eq filter.simps is_storage_effect.simps if_True one_install_simps
      using replay_commit [OF assms le] one_install_simps(1) by blast
  next
    case False
    then have "follower_advance c lc = []"
      by (auto simp: follower_advance_def follower_commit_def follower_target_def Let_def split: if_splits)
    moreover have "core_durable (c\<lparr>commit_index := ?k\<rparr>) = core_durable c"
      by (rule core_durable_cong) (use False le in simp_all)
    ultimately show ?thesis by simp
  qed
qed

lemma one_install_append:
  "(\<And>m b. InstallSnapshot m b \<notin> set xs) \<Longrightarrow> one_install (xs @ ys) = one_install ys"
proof (induction xs)
  case (Cons x xs)
  then show ?case by (cases x) (auto simp: one_install_def)
qed simp

text \<open>Chaining replays through intermediate cores.\<close>

lemma replay_chain:
  assumes "replay sha (filter is_storage_effect f) du = Some (core_durable c)"
    "replay sha (filter is_storage_effect g) (core_durable c) = Some (core_durable d)"
  shows "replay sha (filter is_storage_effect (f @ g)) du = Some (core_durable d)"
  using assms by (simp add: replay_append)

lemma reconcile_replay:
  assumes "replay sha (filter is_storage_effect f) du = Some (core_durable c)" "du_ok sha (core_durable c)" "log_inv c"
    "contiguous k es" "\<forall>e\<in>set es. entry_fits sha e"
  shows "\<exists>d newly g. reconcile_entries sha c [] f es = Inr (d, newly, f @ g) \<and> log_inv d \<and>
    replay sha (filter is_storage_effect (f @ g @ (if newly = [] then [] else [AppendLogEntries newly]))) du = Some (core_durable d) \<and>
    set g \<subseteq> range TruncateLogSuffixFrom"
proof -
  have good: "\<forall>e\<in>set es. verify_integrity sha e" "\<forall>e\<in>set es. re_index e \<le> u64_max"
    using assms(5) i64_max_less by (fastforce simp: entry_fits_def storable_def)+
  have inv: "log_inv d" if "reconcile_entries sha c [] f es = Inr (d, n, g)" for d n g
    using reconcile_entries_log [OF assms(3) good(2), of sha "[]" f] that log_advances_inv by (simp add: reconciled_core_def)
  have app: "replay sha (filter is_storage_effect (if xs = [] then [] else [AppendLogEntries xs])) (core_durable d) =
      Some (core_durable (d\<lparr>log_tail := log_tail d @ xs\<rparr>))"
    if "du_ok sha (core_durable d)" "log_inv d" "contiguous (snapshot_index d + 1 + length (log_tail d)) xs" "set xs \<subseteq> set es" for d xs
  proof (cases "xs = []")
    case False
    have "\<forall>e\<in>set xs. entry_fits sha e" using that(4) assms(5) by blast
    from replay_append_entries [OF that(1,2) False that(3) this] False show ?thesis
      by (simp only: if_False filter.simps is_storage_effect.simps if_True)
  qed (simp add: core_durable_def)
  show ?thesis
  proof (rule reconcile_shape [OF assms(3,4) good, of f])
    fix es' assume h: "reconcile_entries sha c [] f es = Inr (c\<lparr>log_tail := log_tail c @ es'\<rparr>, es', f)"
      "contiguous (snapshot_index c + 1 + length (log_tail c)) es'" "set es' \<subseteq> set es"
    show ?thesis
      by (rule exI [of _ "c\<lparr>log_tail := log_tail c @ es'\<rparr>"], rule exI [of _ es'], rule exI [of _ "[]"])
        (use h inv [OF h(1)] replay_chain [OF assms(1) app [OF assms(2,3) h(2,3)]] in \<open>simp del: filter.simps filter_append\<close>)
  next
    fix pos e ys
    assume h: "pos < length (log_tail c)" "re_index e = snapshot_index c + 1 + pos" "commit_index c < re_index e"
      "contiguous (re_index e) (e # ys)" "set (e # ys) \<subseteq> set es"
      "reconcile_entries sha c [] f es =
        Inr (c\<lparr>log_tail := take pos (log_tail c) @ e # ys\<rparr>, e # ys, f @ [TruncateLogSuffixFrom (re_index e)])"
    let ?m = "c\<lparr>log_tail := take pos (log_tail c)\<rparr>" and ?t = "[TruncateLogSuffixFrom (re_index e)]"
    have tr: "replay sha (filter is_storage_effect ?t) (core_durable c) = Some (core_durable ?m)"
      unfolding filter.simps is_storage_effect.simps if_True by (rule replay_truncate [OF assms(2,3) h(1-3)])
    have ok: "du_ok sha (core_durable ?m)" by (rule replay_ok [OF assms(2) tr])
    have idx: "snapshot_index ?m = snapshot_index c" by (simp add: snapshot_index_def)
    have m: "log_inv ?m"
      using assms(3) h(1-3) idx contiguous_take [OF log_inv_contiguous [OF assms(3)], of pos] by (auto simp: log_inv_def)
    have "contiguous (snapshot_index ?m + 1 + length (log_tail ?m)) (e # ys)" using h(1,2,4) idx by simp
    from app [OF ok m this h(5)] have
      "replay sha (filter is_storage_effect [AppendLogEntries (e # ys)]) (core_durable ?m) =
        Some (core_durable (c\<lparr>log_tail := take pos (log_tail c) @ e # ys\<rparr>))" by simp
    from replay_chain [OF replay_chain [OF assms(1) tr] this] show ?thesis
      by (intro exI [of _ "c\<lparr>log_tail := take pos (log_tail c) @ e # ys\<rparr>"] exI [of _ "e # ys"] exI [of _ ?t])
        (use h(6) inv [OF h(6)] in \<open>simp del: filter.simps filter_append\<close>)
  qed
qed

lemma persists_reconcile:
  assumes "replay sha (filter is_storage_effect f) (core_durable c0) = Some (core_durable c)"
    "\<And>m b. InstallSnapshot m b \<notin> set f" "du_ok sha (core_durable c0)" "log_inv c"
    "contiguous k es" "\<forall>e\<in>set es. entry_fits sha e"
  shows "persists sha c0 (reconcile_and_commit_entries sha c l es lc r f)"
proof -
  have ok: "du_ok sha (core_durable c)" by (rule replay_ok [OF assms(3,1)])
  obtain d newly g where d: "reconcile_entries sha c [] f es = Inr (d, newly, f @ g)" "log_inv d"
      "replay sha (filter is_storage_effect (f @ g @ (if newly = [] then [] else [AppendLogEntries newly]))) (core_durable c0) =
        Some (core_durable d)" "set g \<subseteq> range TruncateLogSuffixFrom"
    using reconcile_replay [OF assms(1) ok assms(4-6)] by blast
  define h where "h = f @ g @ (if newly = [] then [] else [AppendLogEntries newly])"
  have dok: "du_ok sha (core_durable d)" by (rule replay_ok [OF assms(3) d(3)])
  note adv = follower_advance_replay [OF dok d(2), of lc]
  have all: "replay sha (filter is_storage_effect (h @ follower_advance d lc)) (core_durable c0) =
      Some (core_durable (d\<lparr>commit_index := follower_target d lc\<rparr>))"
    by (rule replay_chain [OF d(3) [folded h_def]]) (use adv in blast)
  have none: "InstallSnapshot m b \<notin> set h" for m b using assms(2) d(4) by (auto simp: h_def)
  have one: "one_install (h @ follower_advance d lc)"
    unfolding one_install_append [OF none] using adv by blast
  have eq: "reconcile_and_commit_entries sha c l es lc r f =
      (d\<lparr>commit_index := follower_target d lc\<rparr>, (h @ follower_advance d lc) @
        [append_response (d\<lparr>commit_index := follower_target d lc\<rparr>) l True
          (last_log_index (d\<lparr>commit_index := follower_target d lc\<rparr>)) None 0 r])"
    by (simp add: reconcile_and_commit_entries_def d(1) follower_commit_eq h_def)
  show ?thesis unfolding eq by (rule persists_after [OF all one refl]) simp
qed

lemma contact_durable: "core_durable (leader_contact t l c) = core_durable (caught_up t c)"
  unfolding leader_contact_def by (rule core_durable_cong) simp_all

lemma caught_up_no_install: "InstallSnapshot m b \<notin> set (caught_up_effects t c)"
  using set_step_down_effects [of t c] by (auto simp: caught_up_effects_def)

lemma one_install_caught_up: "one_install (caught_up_effects t c)"
  using one_install_append [of "caught_up_effects t c" "[]"] caught_up_no_install by simp

lemma contiguous_filter:
  assumes "contiguous k es"
  shows "\<exists>k'. contiguous k' (filter (\<lambda>e. s < re_index e) es)"
  using contiguous_filter_tail [OF assms, of s] by (cases "filter (\<lambda>e. s < re_index e) es = []") auto

lemma persists_append:
  assumes "du_ok sha (core_durable c)" "log_inv c" "t \<le> i64_max" "contiguous k es" "\<forall>e\<in>set es. entry_fits sha e"
  shows "persists sha c (on_append_entries sha c t l pi pt es lc r)"
proof -
  note cu = caught_up_replay [OF assms(1,3), folded contact_durable [of t l]]
  note inv = leader_contact_log(2) [OF assms(2), of t l]
  note go = persists_reconcile [OF cu caught_up_no_install assms(1) inv]
  show ?thesis
  proof (cases rule: on_append_entries_cases [of t c sha l pi pt es lc r])
    case (stale ci)
    then show ?thesis by (simp add: replay_nothing)
  next
    case (reply s mi ct ci)
    show ?thesis
      unfolding reply(3) by (rule persists_after [OF cu one_install_caught_up refl]) simp
  next
    case (below e es2)
    obtain k' where "contiguous k' (e # es2)" using contiguous_filter [OF assms(4), of "snapshot_index c"] below(3) by auto
    moreover have "set (e # es2) \<subseteq> set es" using below(3) by (metis filter_is_subset)
    ultimately show ?thesis unfolding below(5) using assms(5) by (intro go) blast+
  next
    case match
    show ?thesis unfolding match(4) by (rule go [OF assms(4,5)])
  qed
qed

section \<open>Snapshot installation\<close>

lemma replay_install_core:
  assumes "du_ok sha (core_durable c)" "log_inv c" "commit_index c < included_index m" "included_term m \<le> current_term c"
    "snapshot_valid sha m b"
  shows "replay sha [InstallSnapshot m b] (core_durable c) = Some (core_durable (fst (install_completed c l m b n effs)))"
proof -
  let ?i = "included_index m" and ?d = "fst (install_completed c l m b n effs)"
  let ?anchor = "\<exists>e\<in>set (log_tail c). re_index e = ?i \<and> re_term e = included_term m"
  have snap: "snapshot_index c < ?i" using assms(2,3) by (auto simp: log_inv_def)
  have idx: "du_snap_index (core_durable c) = snapshot_index c" by (rule core_durable_snap_index [OF assms(2)])
  have anchor: "term_at c ?i = Some (included_term m) \<longleftrightarrow> ?anchor"
  proof -
    have "entry_at c ?i = Some e \<longleftrightarrow> e \<in> set (log_tail c) \<and> re_index e = ?i" for e
      using log_inv_contiguous [OF assms(2)] snap
      by (auto simp: entry_at_def log_get_def contiguous_def in_set_conv_nth split: if_splits)
        (metis diff_Suc_Suc diff_add_inverse)
    then show ?thesis using log_inv_term_at [OF assms(2) snap] by auto
  qed
  have d: "core_durable ?d = (core_durable c)\<lparr>du_snap := Some (m, b), du_commit := ?i,
      du_log := (if ?anchor then filter (\<lambda>e. re_index e > ?i) (log_tail c) else [])\<rparr>"
    unfolding install_completed_def Let_def anchor using assms(3) by (simp add: core_durable_def)
  have "log_inv ?d"
    using install_completed_log [OF assms(2,3)] assms(5) i64_max_less log_advances_inv
    by (meson le_less_trans snapshot_valid_def)
  then have "contiguous (?i + 1) (log_tail ?d)"
    using log_inv_contiguous by (fastforce simp: install_completed_def Let_def snapshot_index_def)
  then have cont: "contiguous (?i + 1) (du_log (core_durable ?d))" by simp
  have fits: "\<forall>e\<in>set (du_log (core_durable ?d)). entry_fits sha e"
    using assms(1) by (auto simp: d du_ok_def)
  have "?i + length (du_log (core_durable ?d)) \<le> i64_max"
  proof (cases "du_log (core_durable ?d) = []")
    case True
    then show ?thesis using assms(5) by (simp add: snapshot_valid_def)
  next
    case False
    then have "re_index (last (du_log (core_durable ?d))) \<le> i64_max" using fits by (simp add: entry_fits_def)
    then show ?thesis using contiguous_last [OF cont False] by simp
  qed
  then have ok: "du_ok sha (core_durable ?d)"
    using cont fits assms(1,5) unfolding du_ok_def by (simp add: d du_snap_index_def)
  have "replay1 (InstallSnapshot m b) (core_durable c) = Some (core_durable ?d)"
    unfolding d replay1.simps using assms(3,4) snap idx by auto
  then show ?thesis using ok by simp
qed

lemma persists_chunk:
  assumes "du_ok sha (core_durable c)" "log_inv c" "t \<le> i64_max" "it \<le> t"
    "\<And>buf. length buf = b \<Longrightarrow> compute_snapshot_transfer_sha256 sha ii it root buf = tsha \<Longrightarrow>
      snapshot_valid sha \<lparr>included_index = ii, included_term = it, meta_state_root = root\<rparr> buf"
  shows "persists sha c (on_install_snapshot_chunk sha c t l ii it root tsha b off chunk d)"
proof -
  note cu = caught_up_replay [OF assms(1,3), folded contact_durable [of t l]]
  have same: "core_durable ((leader_contact t l c)\<lparr>inbound_snapshot := x\<rparr>) = core_durable (leader_contact t l c)" for x
    by (rule core_durable_cong) simp_all
  show ?thesis
  proof (cases rule: on_install_snapshot_chunk_cases [of t c sha l ii it root tsha b off chunk d])
    case stale
    then show ?thesis by (simp add: replay_nothing)
  next
    case (reply x no inst)
    show ?thesis
      unfolding reply(3) by (rule persists_after [OF cu one_install_caught_up same]) simp
  next
    case (install buf)
    let ?m = "\<lparr>included_index = ii, included_term = it, meta_state_root = root\<rparr>"
    let ?c = "(leader_contact t l c)\<lparr>inbound_snapshot := None\<rparr>" and ?f = "caught_up_effects t c"
    let ?d = "fst (install_completed ?c l ?m buf b ?f)"
    have ok: "du_ok sha (core_durable ?c)" using replay_ok [OF assms(1) cu] by (simp add: same)
    have inv: "log_inv ?c" using leader_contact_log(3) [OF assms(2)] log_advances_inv by blast
    have "current_term ?c = t" using install(1) by (simp add: caught_up_def leader_contact_def)
    then have "replay sha (filter is_storage_effect [InstallSnapshot ?m buf]) (core_durable (leader_contact t l c)) =
        Some (core_durable ?d)"
      unfolding filter.simps is_storage_effect.simps if_True same [of None, symmetric]
      by (intro replay_install_core [OF ok inv]) (use install assms(4,5) in simp_all)
    note all = replay_chain [OF cu this]
    have one: "one_install (?f @ [InstallSnapshot ?m buf])"
      unfolding one_install_append [OF caught_up_no_install] by (simp add: one_install_def)
    have "snd (install_completed ?c l ?m buf b ?f) = (?f @ [InstallSnapshot ?m buf]) @ [snapshot_response ?d l ii b True]"
      by (simp add: install_completed_def Let_def)
    then have "install_completed ?c l ?m buf b ?f = (?d, (?f @ [InstallSnapshot ?m buf]) @ [snapshot_response ?d l ii b True])"
      by (metis prod.collapse)
    moreover have "persists sha c (?d, (?f @ [InstallSnapshot ?m buf]) @ [snapshot_response ?d l ii b True])"
      by (rule persists_after [OF all one refl]) simp
    ultimately show ?thesis unfolding install(5) by (simp only:)
  qed
qed

section \<open>Every step\<close>

text \<open>What the store can hold of an input: the columns are 64-bit signed, an entry must be intact and
  carry an encodable command, the entries of a message are consecutive, and a transferred snapshot
  that matches its digest decodes.\<close>

fun message_storable :: "sha256_fn \<Rightarrow> RaftMessage \<Rightarrow> bool" where
  "message_storable sha (AppendEntries t l pi pt es lc r) =
     (t \<le> i64_max \<and> (\<exists>k. contiguous k es) \<and> (\<forall>e\<in>set es. entry_fits sha e))"
| "message_storable sha (InstallSnapshotChunk t l ii it root tsha b off chunk d) =
     (t \<le> i64_max \<and> it \<le> t \<and> (\<forall>buf. length buf = b \<and> compute_snapshot_transfer_sha256 sha ii it root buf = tsha \<longrightarrow>
        snapshot_valid sha \<lparr>included_index = ii, included_term = it, meta_state_root = root\<rparr> buf))"
| "message_storable sha m = (message_term m \<le> i64_max)"

fun input_storable :: "sha256_fn \<Rightarrow> ConsensusInput \<Rightarrow> bool" where
  "input_storable sha (ReceiveMessage from m) = message_storable sha m"
| "input_storable sha (Propose p e) = command_ok (command p)"
| "input_storable sha i = True"

definition core_storable :: "sha256_fn \<Rightarrow> ConsensusCore \<Rightarrow> bool" where
  "core_storable sha c = (log_inv c \<and> du_ok sha (core_durable c) \<and> length (roster c) \<noteq> 1 \<and>
     \<not> roster_contains (roster c) 0 \<and> local_id c \<noteq> 0 \<and> (role c \<in> {Leader, Candidate} \<longrightarrow> 0 < current_term c))"

lemma core_step_persists:
  assumes "core_storable sha c" "input_storable sha i" "current_term c < i64_max" "last_log_index c < i64_max"
  shows "persists sha c (core_step sha c i)"
proof -
  have c: "du_ok sha (core_durable c)" "log_inv c" "length (roster c) \<noteq> 1" "local_id c \<noteq> 0"
      "role c = Leader \<longrightarrow> 0 < current_term c" "\<And>x. roster_contains (roster c) x \<Longrightarrow> x \<noteq> 0"
    using assms(1) by (auto simp: core_storable_def)
  let ?P = "\<lambda>i res. input_storable sha i \<longrightarrow> persists sha c res"
  have "?P i (core_step sha c i)"
  proof (rule core_step_rule [where P = ?P])
    show "?P Tick (on_tick sha c)" using persists_tick [OF c(3)] by simp
    show "?P (Propose p e) (on_propose sha c p e)" for p e
      using persists_propose [OF c(1,2,3) assms(4) c(5)] by simp
    show "?P (RequestLinearizableRead r e) (on_request_linearizable_read sha c r e)" for r e
      using persists_read [OF c(3)] by simp
    show "?P (ReceiveMessage x m) (c, [])" for x m by (simp add: replay_nothing)
    show "?P (ReceiveMessage l (AppendEntries t l pi pt es lc r)) (on_append_entries sha c t l pi pt es lc r)"
      for t l pi pt es lc r
      using persists_append [OF c(1,2)] by auto
    show "?P (ReceiveMessage l (InstallSnapshotChunk t l ii it root tsha b off chunk d))
        (on_install_snapshot_chunk sha c t l ii it root tsha b off chunk d)"
      for t l ii it root tsha b off chunk d
      using persists_chunk [OF c(1,2)] by auto
  qed (use persists_pre_vote persists_pre_vote_response [OF c(1) assms(3) c(4)] persists_vote [OF c(1) _ c(6)]
      persists_vote_response [OF c(1)] persists_append_response [OF c(1,2)]
      persists_snapshot_response [OF c(1,2)] in simp_all)
  then show ?thesis using assms(2) by simp
qed

end
