(* ===== verification/StoreProps.thy ===== *)
theory StoreProps
  imports RaftDurable RaftExec ControlPlaneProps
begin

text \<open>
  Properties of the durable store and of its composition with the core: what a history of operations
  keeps, that rows are read back exactly, that recovery is sound, and that a step followed by its
  transaction and a crash loses nothing.
\<close>

section \<open>Steps keep the core storable\<close>

definition role_term_ok :: "ConsensusCore \<Rightarrow> bool" where
  "role_term_ok c = (role c \<in> {Leader, Candidate} \<longrightarrow> 0 < current_term c)"

lemma role_term_step_down [simp]: "role_term_ok (stepped_down t c)"
  by (simp add: role_term_ok_def)

lemma role_term_contact:
  "role_term_ok (leader_contact t l c)" "role_term_ok ((leader_contact t l c)\<lparr>inbound_snapshot := x\<rparr>)"
  by (simp_all add: role_term_ok_def leader_contact_def)

lemma role_term_like:
  "role_term_ok c \<Longrightarrow> role d = role c \<Longrightarrow> current_term d = current_term c \<Longrightarrow> role_term_ok d"
  by (simp add: role_term_ok_def)

lemma role_term_election: "role_term_ok (fst (start_real_election c))"
  by (simp add: role_term_ok_def start_real_election_def Let_def sat_add64_def u64_max_def)

lemma role_term_reconcile: "role (fst (reconcile_and_commit_entries sha c l es lc r f)) = role c"
  by (cases rule: reconcile_and_commit_cases [of f sha c es l lc r]) simp_all

lemma step_role_term:
  assumes "role_term_ok c"
  shows "role_term_ok (fst (core_step sha c i))"
proof (rule core_step_rule [where P = "\<lambda>i r. role_term_ok (fst r)"])
  show "role_term_ok (fst (on_append_entries sha c t l pi pt es lc r))" for t l pi pt es lc r
    using assms role_term_contact role_term_reconcile [of sha "leader_contact t l c"]
    by (cases rule: on_append_entries_cases [of t c sha l pi pt es lc r]) (simp_all add: role_term_ok_def leader_contact_def)
  show "role_term_ok (fst (on_install_snapshot_chunk sha c t l ii it root tsha b off chunk d))"
    for t l ii it root tsha b off chunk d
    using assms role_term_contact
    by (cases rule: on_install_snapshot_chunk_cases [of t c sha l ii it root tsha b off chunk d])
      (simp_all add: install_completed_def Let_def role_term_ok_def leader_contact_def)
  show "role_term_ok (fst (on_request_pre_vote_response c t pt v g))" for t pt v g
    using assms role_term_election
    by (simp add: on_request_pre_vote_response_def core_eqs Let_def role_term_like split: option.split bool.split)
  show "role_term_ok (fst (on_request_vote_response sha c t v g))" for t v g
    using assms by (auto simp: on_request_vote_response_def become_leader_def core_eqs Let_def role_term_ok_def
        split: option.split bool.split)
  show "role_term_ok (fst (on_request_vote c t cand li lt))" for t cand li lt
    using assms by (auto simp: on_request_vote_def catch_up_eq caught_up_def Let_def role_term_ok_def)
qed (use assms in \<open>auto simp: role_term_ok_def on_tick_def start_pre_vote_def on_propose_def
    on_request_linearizable_read_def on_request_pre_vote_def on_append_entries_response_def on_append_accepted_def
    on_append_conflict_def on_install_snapshot_response_def on_snapshot_installed_def core_eqs Let_def
    split: sum.split option.split\<close>)

lemma core_step_storable:
  assumes "core_storable sha c" "input_storable sha i" "input_in_range i" "current_term c < i64_max" "last_log_index c < i64_max"
  shows "core_storable sha (fst (core_step sha c i))"
proof -
  have c: "log_inv c" "du_ok sha (core_durable c)" "role_term_ok c"
    using assms(1) by (auto simp: core_storable_def role_term_ok_def)
  have "replay sha (filter is_storage_effect (snd (core_step sha c i))) (core_durable c) = Some (core_durable (fst (core_step sha c i)))"
    using core_step_persists [OF assms(1,2,4,5)] by (simp add: persists_def)
  then have "du_ok sha (core_durable (fst (core_step sha c i)))" by (rule replay_ok [OF c(2)])
  moreover have "log_inv (fst (core_step sha c i))"
    using core_step_log [OF c(1) assms(3)] assms(5) i64_max_less log_advances_inv by (meson less_trans)
  ultimately show ?thesis
    using step_role_term [OF c(3)] core_step_identity [of c sha i] assms(1)
    by (simp add: core_storable_def same_identity_def role_term_ok_def)
qed

lemma step_then_store:
  assumes "core_storable sha c" "input_storable sha i" "current_term c < i64_max" "last_log_index c < i64_max"
    "holds sha (core_durable c) db"
  shows "holds sha (core_durable (fst (core_step sha c i)))
      (fst (snd (apply_durable_effects sha (snd (core_step sha c i)) db sm))) \<and>
    du_ok sha (core_durable (fst (core_step sha c i)))"
proof -
  have ok: "du_ok sha (core_durable c)" using assms(1) by (simp add: core_storable_def)
  have p: "persists sha c (core_step sha c i)" by (rule core_step_persists [OF assms(1-4)])
  show ?thesis
    by (rule durable_effects_refine [OF assms(5) ok])
      (use p replay_stored [OF ok] in \<open>simp_all add: persists_def\<close>)
qed

lemma rehydrate_durable:
  assumes "rehydrate local r tm (du_recovered (core_durable d)) = Inr e" "length r \<noteq> 1" "log_inv d"
  shows "core_durable e = core_durable d"
proof -
  obtain c0 where c0: "core_new local r tm = Inr c0"
    using assms(1) by (auto simp: rehydrate_def result_bind_eq_Inr)
  have snap: "case snapshot_meta d of None \<Rightarrow> snapshot_bytes d = None
      | Some m \<Rightarrow> snapshot_bytes d \<noteq> None \<and> included_index m \<le> commit_index d"
    using assms(3) by (auto simp: log_inv_def snapshot_index_def split: option.splits)
  show ?thesis
    using assms(1,2) c0 snap
    by (auto simp: rehydrate_def du_recovered_def core_durable_def Let_def max_def split: option.splits)
qed

section \<open>Replay succeeds\<close>

lemma apply_next:
  assumes "sm_inv s" "unat (last_applied_index s) < k" "k \<le> i64_max"
  shows "\<exists>t out. apply_committed_entry sha (of_nat k) ct p s = Inr (t, out) \<and> sm_inv t \<and>
    unat (last_applied_index t) = k"
proof -
  have "k < 2 ^ 64" using assms(3) by (simp add: i64_max_def)
  then have idx: "unat (of_nat k :: u64) = k" by (simp add: unat_of_nat)
  then have "last_applied_index s < of_nat k" using assms(2) by (simp only: word_less_nat_alt)
  then have "apply_committed_entry sha (of_nat k) ct p s \<noteq> Inl f" for f
    using apply_panics_inv [of s sha "of_nat k" ct p f] assms(1) by (auto simp: sm_inv_def)
  then obtain t out where t: "apply_committed_entry sha (of_nat k) ct p s = Inr (t, out)"
    by (metis obj_sumE surj_pair)
  moreover have "sm_inv t" using sm_inv_step [OF assms(1)] t unfolding sm_step_def by blast
  moreover have "last_applied_index t = of_nat k" using apply_committed_entry_evolves [OF t] by blast
  ultimately show ?thesis using idx by auto
qed

lemma replay_total:
  assumes "sm_inv s" "unat (last_applied_index s) = b" "contiguous (b + 1) es" "b + length es \<le> i64_max"
    "\<forall>e\<in>set es. storable sha e"
  shows "\<exists>t. replay_committed sha k es s = Inr t"
  using assms
proof (induction es arbitrary: b s)
  case (Cons e es)
  have e: "re_index e = b + 1" "re_term e \<noteq> 0" using Cons.prems(3,5) by (simp_all add: storable_def)
  obtain t out where t: "apply_committed_entry sha (of_nat (re_index e)) (of_nat (re_term e)) (re_proposal e) s = Inr (t, out)"
      "sm_inv t" "unat (last_applied_index t) = b + 1"
    using apply_next [OF Cons.prems(1), of "re_index e" sha "of_nat (re_term e)" "re_proposal e"] Cons.prems(2,4) e(1) by auto
  obtain u where "replay_committed sha k es t = Inr u"
    using Cons.IH [OF t(2,3)] Cons.prems(3-5) by auto
  moreover have "re_index e \<noteq> 0" using e(1) by simp
  ultimately show ?case using e(2) by (simp add: t(1))
qed simp

lemma load_succeeds:
  assumes "holds sha du db" "du_ok sha du" "sm_inv (du_machine sha du)"
  shows "\<exists>sm. fst (load_and_verify_all sha db) = Inr \<lparr>rec_core_state = du_recovered du, rec_state_machine = sm\<rparr>"
proof -
  have "unat (last_applied_index (du_machine sha du)) = du_snap_index du"
    using assms(2) by (auto simp: du_machine_def du_snap_index_def sm_new_def du_ok_def snapshot_valid_def
        matches_meta_def split: option.splits prod.splits)
  then have "\<exists>sm. replay_committed sha (du_commit du) (du_log du) (du_machine sha du) = Inr sm"
    by (rule replay_total [OF assms(3)]) (use assms(2) in \<open>auto simp: du_ok_def entry_fits_def\<close>)
  then obtain sm where "replay_committed sha (du_commit du) (du_log du) (du_machine sha du) = Inr sm" by blast
  then show ?thesis using load_refines [OF assms(1,2)] by auto
qed

lemma rehydrate_exists:
  assumes "core_new local r tm = Inr c0" "length r \<noteq> 1"
  shows "\<exists>e. rehydrate local r tm st = Inr e"
  using assms by (simp add: rehydrate_def Let_def)

section \<open>A concrete node\<close>

definition demo_store :: "sha256_fn \<Rightarrow> SqliteConsensusStore" where
  "demo_store sha = initialize_strict_schema sha empty_store"

definition demo_vote :: ConsensusInput where
  "demo_vote = ReceiveMessage 2 (RequestVote 1 2 0 0)"

lemma demo_node:
  "core_storable sha (demo_follower 1 11)" "holds sha (core_durable (demo_follower 1 11)) (demo_store sha)"
  "input_storable sha demo_vote" "current_term (demo_follower 1 11) < i64_max" "last_log_index (demo_follower 1 11) < i64_max"
  by (simp_all add: core_storable_def log_inv_def du_ok_def du_snap_index_def core_durable_def holds_def tables_hold_def
      demo_store_def demo_vote_def initialize_strict_schema_def empty_store_def genesis_row_eq log_rows_def demo_defs
      snapshot_index_def last_log_index_def roster_contains_def i64_max_def u64_max_def)

lemma demo_vote_cast:
  "current_term (fst (core_step sha (demo_follower 1 11) demo_vote)) = 1"
  "voted_for (fst (core_step sha (demo_follower 1 11) demo_vote)) = Some 2"
  by (simp_all add: demo_vote_def demo_defs core_exec)

section \<open>Properties\<close>

text \<open>C2: Crash safety. A core whose durable part is on disk makes a step, the store runs the
  transaction of its effects, the process dies. Then the disk holds the durable part of the core after
  the step, and if the machine in its snapshot is a reachable one, or there is no snapshot, recovery
  succeeds and rebuilds a core with the same term, vote, commit index, snapshot and log. The
  hypotheses bound terms and indices by the signed 64-bit columns, exclude the all-zero cell and the
  single voter, and ask of the input what the store checks of entries and snapshots.\<close>

theorem crash_recovers_step:
  assumes "core_storable sha c" "input_storable sha i" "input_in_range i" "current_term c < i64_max"
    "last_log_index c < i64_max" "holds sha (core_durable c) db" "d = fst (core_step sha c i)"
    "db' = fst (snd (apply_durable_effects sha (snd (core_step sha c i)) db sm))"
    "core_new (local_id c) (roster c) tm = Inr c0" "(sm_step sha)\<^sup>*\<^sup>* sm_new (du_machine sha (core_durable d))"
  shows "holds sha (core_durable d) db' \<and>
    (\<exists>rec e. fst (load_and_verify_all sha db') = Inr rec \<and>
       rehydrate (local_id c) (roster c) tm (rec_core_state rec) = Inr e \<and>
       current_term e = current_term d \<and> voted_for e = voted_for d \<and> commit_index e = commit_index d \<and>
       snapshot_meta e = snapshot_meta d \<and> snapshot_bytes e = snapshot_bytes d \<and> log_tail e = log_tail d)"
proof -
  have h: "holds sha (core_durable d) db'" "du_ok sha (core_durable d)"
    using step_then_store [OF assms(1,2,4-6)] assms(7,8) by simp_all
  have inv: "log_inv d" "length (roster c) \<noteq> 1"
    using core_step_storable [OF assms(1-5)] assms(1,7) by (simp_all add: core_storable_def)
  obtain m where l: "fst (load_and_verify_all sha db') = Inr \<lparr>rec_core_state = du_recovered (core_durable d), rec_state_machine = m\<rparr>"
    using load_succeeds [OF h sm_run_inv [OF assms(10)]] by blast
  obtain e where e: "rehydrate (local_id c) (roster c) tm (du_recovered (core_durable d)) = Inr e"
    using rehydrate_exists [OF assms(9) inv(2)] by blast
  have same: "core_durable e = core_durable d" by (rule rehydrate_durable [OF e inv(2,1)])
  have "snapshot_meta e = map_option fst (du_snap (core_durable d))"
      "snapshot_bytes e = map_option snd (du_snap (core_durable d))"
    using e inv(2) by (auto simp: rehydrate_def result_bind_eq_Inr du_recovered_def Let_def)
  moreover have "snapshot_meta d = map_option fst (du_snap (core_durable d))"
      "snapshot_bytes d = map_option snd (du_snap (core_durable d))"
    using inv(1) by (auto simp: core_durable_def log_inv_def split: option.splits)
  ultimately have "current_term e = current_term d \<and> voted_for e = voted_for d \<and> commit_index e = commit_index d \<and>
      snapshot_meta e = snapshot_meta d \<and> snapshot_bytes e = snapshot_bytes d \<and> log_tail e = log_tail d"
    using same by (metis core_durable_sel)
  with h(1) l e show ?thesis by (metis RecoveredConsensusState.select_convs(1))
qed

theorem crash_recovers_step_witness:
  "\<exists>rec e. fst (load_and_verify_all (\<lambda>_. 0) (fst (snd (apply_durable_effects (\<lambda>_. 0)
       (snd (core_step (\<lambda>_. 0) (demo_follower 1 11) demo_vote)) (demo_store (\<lambda>_. 0)) sm_new)))) = Inr rec \<and>
     rehydrate 1 demo_roster demo_timing (rec_core_state rec) = Inr e \<and> current_term e = 1 \<and> voted_for e = Some 2"
proof -
  let ?d = "fst (core_step (\<lambda>_. 0) (demo_follower 1 11) demo_vote)"
  have "snapshot_meta ?d = None" by (simp add: demo_vote_def demo_defs core_exec)
  then have "du_machine (\<lambda>_. 0) (core_durable ?d) = sm_new" by (simp add: du_machine_def core_durable_def)
  then have run: "(sm_step (\<lambda>_. 0))\<^sup>*\<^sup>* sm_new (du_machine (\<lambda>_. 0) (core_durable ?d))" by simp
  have new: "core_new (local_id (demo_follower 1 11)) (roster (demo_follower 1 11)) demo_timing = Inr (demo_follower 1 11)"
    using demo_follower_new(1) by (simp add: demo_follower_def)
  have range: "input_in_range demo_vote" by (simp add: demo_vote_def)
  have id: "local_id (demo_follower 1 11) = 1" "roster (demo_follower 1 11) = demo_roster" by (simp_all add: demo_follower_def)
  note th = crash_recovers_step [OF demo_node(1,3) range demo_node(4,5,2) refl refl new run, of sm_new,
      unfolded id demo_vote_cast, THEN conjunct2]
  from th obtain rec e where r: "fst (load_and_verify_all (\<lambda>_. 0) (fst (snd (apply_durable_effects (\<lambda>_. 0)
       (snd (core_step (\<lambda>_. 0) (demo_follower 1 11) demo_vote)) (demo_store (\<lambda>_. 0)) sm_new)))) = Inr rec"
      "rehydrate 1 demo_roster demo_timing (rec_core_state rec) = Inr e" "current_term e = 1" "voted_for e = Some 2"
    by (elim exE conjE)
  show ?thesis by (rule exI [of _ rec], rule exI [of _ e], intro conjI) (fact r)+
qed

text \<open>C6: One vote per term, across crashes. In any history of operations on a store, successful or
  failed, with any number of reopenings, two votes recorded in the same term are for the same cell.\<close>

theorem one_vote_per_term:
  assumes "reach store_init (store_op sha) db" "(store_op sha)\<^sup>*\<^sup>* db db'"
    "consensus_meta db = Some (hard_row sha t (Some x) k)" "consensus_meta db' = Some (hard_row sha t (Some y) k')"
  shows "x = y"
proof -
  have "db_evolves db db'" by (rule store_run_evolves [OF assms(2) durable.inv_reach [OF assms(1)]])
  then show ?thesis using assms(3,4) by (auto simp: db_evolves_def meta_follows_def)
qed

lemma demo_store_reach: "reach store_init (store_op sha) (demo_store sha)"
proof -
  have "snd (open_or_recover sha None empty_store) = demo_store sha"
    by (simp add: open_or_recover_def verify_wal_header_if_present_def demo_store_def initialize_strict_schema_def
        empty_store_def load_and_verify_all_def load_snapshot_def load_tail_def read_snapshot_row_conn_def Let_def
        genesis_row_eq read_hard_state_iff [THEN iffD2] result_bind_def split: sum.split)
  then have "store_op sha empty_store (demo_store sha)" by (metis op_open)
  then show ?thesis by (meson reach.intros store_init_def)
qed

definition demo_voted :: "sha256_fn \<Rightarrow> SqliteConsensusStore" where
  "demo_voted sha = (demo_store sha)\<lparr>consensus_meta := Some (hard_row sha 1 (Some 2) 0)\<rparr>"

lemma demo_store_meta: "consensus_meta (demo_store sha) = Some (hard_row sha 0 None 0)"
  by (simp add: demo_store_def initialize_strict_schema_def empty_store_def genesis_row_eq)

lemma demo_persist_vote: "persist_hard_state sha 1 (Some 2) (demo_store sha) = Inr (demo_voted sha)"
proof -
  have "read_and_verify_hard_state_conn sha (demo_store sha) = Inr (0, None, 0)"
    by (simp add: read_hard_state_iff demo_store_meta)
  moreover have "write_hard_state_tx sha 1 (Some 2) 0 (demo_store sha) = Inr (demo_voted sha)"
    by (simp add: write_hard_state_iff [OF demo_store_meta] hard_state_follows_def demo_voted_def i64_max_def)
  ultimately show ?thesis by (simp add: persist_hard_state_def)
qed

lemma demo_voted_reach: "reach store_init (store_op sha) (demo_voted sha)"
  using demo_store_reach demo_persist_vote by (meson op_persist reach.reach_step)

theorem one_vote_per_term_witness:
  "\<exists>db db'. (store_op (\<lambda>_. 0))\<^sup>*\<^sup>* db db' \<and> consensus_meta db = Some (hard_row (\<lambda>_. 0) 1 (Some 2) 0) \<and>
     (\<forall>y k. consensus_meta db' = Some (hard_row (\<lambda>_. 0) 1 (Some y) k) \<longrightarrow> 2 = y)"
proof -
  let ?db = "demo_voted (\<lambda>_. 0)" and ?db' = "snd (open_or_recover (\<lambda>_. 0) None (demo_voted (\<lambda>_. 0)))"
  have run: "(store_op (\<lambda>_. 0))\<^sup>*\<^sup>* ?db ?db'" by (rule r_into_rtranclp) (rule op_open)
  have "consensus_meta ?db = Some (hard_row (\<lambda>_. 0) 1 (Some 2) 0)" by (simp add: demo_voted_def)
  with run one_vote_per_term [OF demo_voted_reach run this] show ?thesis by blast
qed

text \<open>C8: Committed rows stay. Along any history, a log row at or below the commit index is still
  there, unchanged, unless a durable snapshot covers its index; the commit index, the term and the
  snapshot never go back.\<close>

theorem committed_rows_kept:
  assumes "reach store_init (store_op sha) db" "(store_op sha)\<^sup>*\<^sup>* db db'"
    "consensus_meta db = Some old" "bt_get (consensus_log db) idx = Some row" "idx \<le> hs_commit_index old"
  shows "\<exists>new. consensus_meta db' = Some new \<and> hs_current_term old \<le> hs_current_term new \<and>
    hs_commit_index old \<le> hs_commit_index new \<and> snapshot_cover db \<le> snapshot_cover db' \<and>
    (idx \<le> snapshot_cover db' \<or> bt_get (consensus_log db') idx = Some row)"
proof -
  have ev: "db_evolves db db'" by (rule store_run_evolves [OF assms(2) durable.inv_reach [OF assms(1)]])
  then obtain new where new: "consensus_meta db' = Some new" "meta_follows old new"
    using assms(3) by (auto simp: db_evolves_def)
  have "bt_get (consensus_log db') idx = Some row" if "snapshot_cover db' < idx"
    using ev assms(3-5) that unfolding db_evolves_def by blast
  then have "idx \<le> snapshot_cover db' \<or> bt_get (consensus_log db') idx = Some row" by linarith
  moreover have "snapshot_cover db \<le> snapshot_cover db'" using ev by (simp add: db_evolves_def)
  ultimately show ?thesis using new unfolding meta_follows_def by blast
qed

definition demo_entry :: "sha256_fn \<Rightarrow> RaftLogEntry" where
  "demo_entry sha = log_entry_new sha 1 1 RaftExec.demo_proposal"

definition demo_logged :: "sha256_fn \<Rightarrow> SqliteConsensusStore" where
  "demo_logged sha = (demo_voted sha)\<lparr>consensus_log := log_rows [demo_entry sha],
     consensus_meta := Some (hard_row sha 1 (Some 2) 1)\<rparr>"

lemma demo_entry_fits: "entry_fits sha (demo_entry sha)"
  by (simp add: entry_fits_def storable_def demo_entry_def log_entry_new_def verify_integrity_def i64_max_def
      RaftExec.demo_proposal_def)

lemma demo_logged_reach: "reach store_init (store_op sha) (demo_logged sha)"
proof -
  let ?db = "(demo_voted sha)\<lparr>consensus_log := log_rows [demo_entry sha]\<rparr>"
  have ix: "re_index (demo_entry sha) = 1" by (simp add: demo_entry_def log_entry_new_def)
  have "append_entries_tx sha [demo_entry sha] (demo_voted sha) = Inr ?db"
    using append_refines [of 1 "[]" "[demo_entry sha]" sha "demo_voted sha"] demo_entry_fits ix
    by (simp add: demo_voted_def demo_store_def initialize_strict_schema_def empty_store_def log_rows_def del: append_entries_tx.simps)
  then have 1: "append_entries sha [demo_entry sha] (demo_voted sha) = Inr ?db" by (simp add: append_entries_def del: append_entries_tx.simps)
  have meta: "consensus_meta ?db = Some (hard_row sha 1 (Some 2) 0)" by (simp add: demo_voted_def)
  have "verify_commit_bound_covered_tx 1 ?db = Inr ()"
    by (rule commit_covered [of sha "\<lparr>du_term = 1, du_voted = Some 2, du_commit = 0, du_snap = None, du_log = [demo_entry sha]\<rparr>"])
      (simp_all add: tables_hold_def demo_voted_def demo_store_def initialize_strict_schema_def empty_store_def
        du_snap_index_def ix)
  moreover have "read_and_verify_hard_state_conn sha ?db = Inr (1, Some 2, 0)" by (simp add: read_hard_state_iff meta)
  moreover have "write_hard_state_tx sha 1 (Some 2) 1 ?db = Inr (demo_logged sha)"
    by (simp add: write_hard_state_iff [OF meta] hard_state_follows_def i64_max_def demo_logged_def)
  ultimately have 2: "advance_commit_index sha 1 ?db = Inr (demo_logged sha)" by (simp add: advance_commit_index_def)
  show ?thesis using demo_voted_reach op_append [OF 1] op_advance [OF 2] by (meson reach.reach_step)
qed

theorem committed_rows_kept_witness:
  "\<exists>new. consensus_meta (snd (open_or_recover (\<lambda>_. 0) None (demo_logged (\<lambda>_. 0)))) = Some new \<and> 1 \<le> hs_commit_index new"
proof -
  let ?db = "demo_logged (\<lambda>_. 0)"
  have run: "(store_op (\<lambda>_. 0))\<^sup>*\<^sup>* ?db (snd (open_or_recover (\<lambda>_. 0) None ?db))" by (rule r_into_rtranclp) (rule op_open)
  have ix: "re_index (demo_entry (\<lambda>_. 0)) = 1" by (simp add: demo_entry_def log_entry_new_def)
  have h: "consensus_meta ?db = Some (hard_row (\<lambda>_. 0) 1 (Some 2) 1)"
      "bt_get (consensus_log ?db) 1 = Some (raw_log_row (demo_entry (\<lambda>_. 0)))"
    by (simp_all add: demo_logged_def log_rows_def bt_get_def ix)
  show ?thesis using committed_rows_kept [OF demo_logged_reach run h] by auto
qed

text \<open>C26: Log rows are read back exactly. A raw row is accepted as an entry precisely when it is the
  row written for that entry and the entry is intact, has a positive index and term, and carries an
  encodable command.\<close>

theorem log_row_exact:
  "verify_and_hydrate_log_row sha raw = Inr e \<longleftrightarrow> raw = raw_log_row e \<and> 0 < re_index e \<and> 0 < re_term e \<and>
     verify_integrity sha e \<and> command_ok (command (re_proposal e))"
  by (simp add: verify_and_hydrate_iff storable_def)

lemma rehydrate_commit:
  assumes "rehydrate local r tm st = Inr c" "recoverable st"
  shows "rh_commit_index st \<le> commit_index c"
proof (cases "length r = 1")
  case True
  have inv: "core_inv c" "log_tail c = rh_log_tail st" "snapshot_meta c = map_option fst (rh_snapshot st)"
    using rehydrate_inv [OF assms] by simp_all
  have "roster c = r"
    using assms(1) core_new_facts by (auto simp: rehydrate_def result_bind_eq_Inr Let_def split: if_splits)
  then have "commit_index c = last_log_index c" using inv(1) True by (simp add: core_inv_def)
  moreover have "log_inv c" using inv(1) by (simp add: core_inv_def)
  ultimately show ?thesis
    using assms(2) inv(2,3) log_inv_last_log_index [of c]
    by (auto simp: recoverable_def snapshot_index_def Let_def split: option.splits)
next
  case False
  then show ?thesis using assms(1) by (auto simp: rehydrate_def result_bind_eq_Inr Let_def)
qed

lemma demo_voted_loads:
  "\<exists>rec c. fst (load_and_verify_all sha (demo_voted sha)) = Inr rec \<and>
     rehydrate 1 demo_roster demo_timing (rec_core_state rec) = Inr c"
proof -
  let ?du = "\<lparr>du_term = 1, du_voted = Some 2, du_commit = 0, du_snap = None, du_log = []\<rparr>"
  have "holds sha ?du (demo_voted sha)"
    by (simp add: holds_def tables_hold_def demo_voted_def demo_store_def initialize_strict_schema_def empty_store_def log_rows_def)
  moreover have "du_ok sha ?du" by (simp add: du_ok_def du_snap_index_def i64_max_def)
  moreover have "sm_inv (du_machine sha ?du)" using sm_inv_new by (simp add: du_machine_def)
  ultimately have "\<exists>rec. fst (load_and_verify_all sha (demo_voted sha)) = Inr rec" using load_succeeds by blast
  moreover have "length demo_roster \<noteq> 1" by (simp add: demo_roster_def)
  ultimately show ?thesis using rehydrate_exists [OF demo_follower_new(1)] by blast
qed

text \<open>C27: Recovery fails closed. Whatever the tables hold within their column types, a recovery that
  succeeds returns the hard state of a row with a matching digest, a contiguous tail of intact
  entries that reaches the commit index, and a state from which the core is rebuilt with its log
  invariant.\<close>

theorem recovery_sound:
  assumes "db_inv db" "fst (load_and_verify_all sha db) = Inr rec"
    "rehydrate local r tm (rec_core_state rec) = Inr c"
  shows "consensus_meta db = Some (hard_row sha (rh_current_term (rec_core_state rec))
      (rh_voted_for (rec_core_state rec)) (rh_commit_index (rec_core_state rec))) \<and>
    (\<forall>e\<in>set (log_tail c). verify_integrity sha e) \<and>
    map re_index (log_tail c) = [snapshot_index c + 1 ..< last_log_index c + 1] \<and>
    rh_commit_index (rec_core_state rec) \<le> commit_index c \<and> commit_index c \<le> last_log_index c"
proof -
  note s = load_sound [OF assms(2,1)]
  have rec: "recoverable (rec_core_state rec)" using s by blast
  have c: "core_inv c" "log_tail c = rh_log_tail (rec_core_state rec)" using rehydrate_inv [OF assms(3) rec] by simp_all
  then have inv: "log_inv c" by (simp add: core_inv_def)
  have "rh_commit_index (rec_core_state rec) \<le> commit_index c"
    using rehydrate_commit [OF assms(3) rec] .
  then show ?thesis
    using s c(2) contiguous_indices [OF log_inv_contiguous [OF inv]] log_inv_last_log_index [OF inv] log_inv_commit_le [OF inv]
    by (simp add: storable_def del: upt_Suc)
qed

theorem recovery_sound_witness:
  "\<exists>rec c. fst (load_and_verify_all (\<lambda>_. 0) (demo_voted (\<lambda>_. 0))) = Inr rec \<and>
     rehydrate 1 demo_roster demo_timing (rec_core_state rec) = Inr c \<and>
     map re_index (log_tail c) = [snapshot_index c + 1 ..< last_log_index c + 1]"
proof -
  obtain rec c where l: "fst (load_and_verify_all (\<lambda>_. 0) (demo_voted (\<lambda>_. 0))) = Inr rec"
      "rehydrate 1 demo_roster demo_timing (rec_core_state rec) = Inr c"
    using demo_voted_loads by blast
  show ?thesis using recovery_sound [OF durable.inv_reach [OF demo_voted_reach] l] l by blast
qed

end
