(* ===== verification/SingleNode.thy ===== *)
theory SingleNode
  imports StoreProps SnapshotCodec
begin

text \<open>
  The single-host node of \<open>nlos-consensus/src/single_node.rs\<close>: one voter, its store and its state
  machine behind one lock. Every operation returns the state it leaves behind, failed or not, because
  the lock is taken over again after a failure or a panic. \<open>store_effects\<close> adds to the transaction of
  the store the failures of SQLite and of the file system: \<open>Some e\<close> stands for a transaction that
  the database rolls back with the error \<open>e\<close>.
\<close>

section \<open>Model\<close>

text \<open>\<open>TransportInit\<close> is left out: it is produced only while sockets are bound.\<close>

datatype ConsensusError =
    Config ConsensusConfigError
  | ScopeViolation ScopeViolationError
  | ProposalRejectedError ProposalRejectReason
  | StoreError ConsensusStoreError
  | ProposalTimeout
  | DriverFatal string
  | NodeShutDown

datatype NodeFailure =
    Failed ConsensusError
  | Panicked StoreFailure
  | SnapshotPanicked

type_synonym 'a node_result = "(NodeFailure, 'a) result"

fun node_failure :: "StoreFailure \<Rightarrow> NodeFailure" where
  "node_failure (Refused e) = Failed (StoreError e)"
| "node_failure f = Panicked f"

record SingleHostInner =
  si_store :: SqliteConsensusStore
  si_core :: ConsensusCore
  si_state_machine :: ControlPlaneStateMachine
  si_latest_durable_snapshot :: "(SnapshotMetadata \<times> byte list) option"

definition single_open ::
  "sha256_fn \<Rightarrow> byte list option \<Rightarrow> CellIdentity \<Rightarrow> ControlDomainId \<Rightarrow> SqliteConsensusStore \<Rightarrow>
   SingleHostInner node_result \<times> SqliteConsensusStore" where
  "single_open sha wal cell domain db =
     (case roster_new [\<lparr>cell_identity = cell, control_domain_id = domain\<rparr>] of
        Inl e \<Rightarrow> (Inl (Failed (Config e)), db)
      | Inr r \<Rightarrow>
     (case open_or_recover sha wal db of
        (Inl f, db1) \<Rightarrow> (Inl (node_failure f), db1)
      | (Inr recovered, db1) \<Rightarrow>
          let st = rec_core_state recovered;
              first = (if rh_current_term st = 0
                then result_bind (persist_hard_state sha 1 (Some cell) db1) (\<lambda>db2.
                  Inr (db2, st\<lparr>rh_current_term := 1, rh_voted_for := Some cell\<rparr>))
                else Inr (db1, st))
          in (case first of
                Inl e \<Rightarrow> (Inl (Failed (StoreError e)), db1)
              | Inr (db2, st1) \<Rightarrow>
                  (case rehydrate cell r timing_default st1 of
                     Inl e \<Rightarrow> (Inl (Failed (Config e)), db2)
                   | Inr core \<Rightarrow>
                       (Inr \<lparr>si_store = db2, si_core = core,
                          si_state_machine = rec_state_machine recovered,
                          si_latest_durable_snapshot = rh_snapshot st1\<rparr>, db2)))))"

definition store_effects ::
  "sha256_fn \<Rightarrow> ConsensusStoreError option \<Rightarrow> ConsensusEffect list \<Rightarrow> SqliteConsensusStore \<Rightarrow>
   ControlPlaneStateMachine \<Rightarrow> receipts store_run \<times> SqliteConsensusStore \<times> ControlPlaneStateMachine" where
  "store_effects sha fault effects db sm =
     (case fault of
        None \<Rightarrow> apply_durable_effects sha effects db sm
      | Some e \<Rightarrow>
          if list_ex is_storage_effect effects
          then (Inl (Refused e), snd (stage_snapshots sha effects None db), sm)
          else apply_durable_effects sha effects db sm)"

definition single_propose ::
  "sha256_fn \<Rightarrow> ConsensusStoreError option \<Rightarrow> ControlPlaneProposal \<Rightarrow> SingleHostInner \<Rightarrow>
   ConsensusCommitReceipt node_result \<times> SingleHostInner" where
  "single_propose sha fault p n =
     (let (core, effects) = core_step sha (si_core n) (Propose p None);
          (res, db, sm) = store_effects sha fault effects (si_store n) (si_state_machine n);
          n1 = n\<lparr>si_core := core, si_store := db, si_state_machine := sm\<rparr>
      in case res of
           Inl f \<Rightarrow> (Inl (node_failure f), n1)
         | Inr receipts \<Rightarrow>
             if receipts = []
             then (Inl (Failed (StoreError (IntegrityCorrupted
                    ''single-host proposal produced no ConsensusCommitReceipt''))), n1)
             else (Inr (snd (last receipts)), n1))"

definition single_propose_wire ::
  "sha256_fn \<Rightarrow> ConsensusStoreError option \<Rightarrow> byte list \<Rightarrow> SingleHostInner \<Rightarrow>
   ConsensusCommitReceipt node_result \<times> SingleHostInner" where
  "single_propose_wire sha fault frame n =
     (case decode_wire sha frame of
        Inl e \<Rightarrow> (Inl (Failed (ScopeViolation e)), n)
      | Inr p \<Rightarrow> single_propose sha fault p n)"

definition single_read_state :: "SingleHostInner \<Rightarrow> ControlPlaneStateMachine \<times> LogIndex \<times> ConsensusTerm" where
  "single_read_state n = (si_state_machine n, commit_index (si_core n), current_term (si_core n))"

definition single_create_snapshot_only ::
  "sha256_fn \<Rightarrow> SingleHostInner \<Rightarrow> SnapshotMetadata node_result \<times> SingleHostInner" where
  "single_create_snapshot_only sha n =
     (let included = unat (last_applied_index (si_state_machine n));
          trm = unat (last_applied_term (si_state_machine n))
      in case encode_snapshot sha (si_state_machine n) of
           None \<Rightarrow> (Inl SnapshotPanicked, n)
         | Some bytes \<Rightarrow>
             (case create_snapshot sha included trm bytes (si_store n) of
                (Inl f, db) \<Rightarrow> (Inl (node_failure f), n\<lparr>si_store := db\<rparr>)
              | (Inr meta, db) \<Rightarrow>
                  (Inr meta, n\<lparr>si_store := db, si_latest_durable_snapshot := Some (meta, bytes)\<rparr>)))"

text \<open>The number of rows deleted is the result.\<close>

definition single_compact_log_up_to ::
  "LogIndex \<Rightarrow> SingleHostInner \<Rightarrow> nat node_result \<times> SingleHostInner" where
  "single_compact_log_up_to up_to n =
     (case compact_log_up_to up_to (si_store n) of
        Inl e \<Rightarrow> (Inl (Failed (StoreError e)), n)
      | Inr db \<Rightarrow>
          (Inr (length (consensus_log (si_store n)) - length (consensus_log db)),
           n\<lparr>si_store := db, si_core := (case si_latest_durable_snapshot n of
               None \<Rightarrow> si_core n
             | Some (meta, bytes) \<Rightarrow> fst (record_local_snapshot meta bytes up_to (si_core n)))\<rparr>))"

definition single_create_snapshot_and_compact ::
  "sha256_fn \<Rightarrow> SingleHostInner \<Rightarrow> SnapshotMetadata node_result \<times> SingleHostInner" where
  "single_create_snapshot_and_compact sha n =
     (let included = unat (last_applied_index (si_state_machine n));
          trm = unat (last_applied_term (si_state_machine n))
      in case encode_snapshot sha (si_state_machine n) of
           None \<Rightarrow> (Inl SnapshotPanicked, n)
         | Some bytes \<Rightarrow>
             (case create_snapshot sha included trm bytes (si_store n) of
                (Inl f, db) \<Rightarrow> (Inl (node_failure f), n\<lparr>si_store := db\<rparr>)
              | (Inr meta, db) \<Rightarrow>
                  (case compact_log_up_to included db of
                     Inl e \<Rightarrow> (Inl (Failed (StoreError e)), n\<lparr>si_store := db\<rparr>)
                   | Inr db1 \<Rightarrow>
                       (Inr meta, n\<lparr>si_store := db1, si_latest_durable_snapshot := Some (meta, bytes),
                          si_core := fst (record_local_snapshot meta bytes included (si_core n))\<rparr>))))"

end
