(* ===== verification/ControlPlaneGrowth.thy ===== *)
theory ControlPlaneGrowth
  imports ControlPlaneProps Snapshot
begin

text \<open>
  Growth of the replicated tables: one committed entry adds at most one row to each, so the panic of
  the canonical encoding, which writes table lengths in 32 bits, is out of reach below \<open>2 ^ 32\<close> entries.
\<close>

definition rows_grow :: "('k, 'v) btree \<Rightarrow> ('k, 'v) btree \<Rightarrow> bool" where
  "rows_grow m m' \<longleftrightarrow> length m' \<le> Suc (length m)"

lemma bt_insert_twice: "bt_insert k v (bt_insert k w m) = bt_insert k v m"
  by (induction k w m rule: bt_insert.induct) auto

lemma rows_grow_refl [simp]: "rows_grow m m"
  by (simp add: rows_grow_def)

lemma rows_grow_insert [simp]: "rows_grow m (bt_insert k v m)"
  unfolding rows_grow_def by (induction k v m rule: bt_insert.induct) auto

lemma rows_grow_insert_twice [simp]: "rows_grow m (bt_insert k v (bt_insert k w m))"
  by (simp add: bt_insert_twice)

definition tables_grow :: "ControlPlaneStateMachine \<Rightarrow> ControlPlaneStateMachine \<Rightarrow> bool" where
  "tables_grow s t \<longleftrightarrow>
     rows_grow (cells s) (cells t) \<and> rows_grow (quota_pools s) (quota_pools t) \<and>
     rows_grow (quota_leases s) (quota_leases t) \<and> rows_grow (capacity_pools s) (capacity_pools t) \<and>
     rows_grow (capacity_leases s) (capacity_leases t) \<and> rows_grow (device_heads s) (device_heads t) \<and>
     rows_grow (fence_scope_high_water s) (fence_scope_high_water t) \<and>
     rows_grow (task_shards s) (task_shards t) \<and> rows_grow (takeover_receipts s) (takeover_receipts t) \<and>
     rows_grow (migration_anchors s) (migration_anchors t) \<and>
     rows_grow (checkpoint_anchors s) (checkpoint_anchors t) \<and> dedup_table t = dedup_table s"

lemma cells_grow: "apply_cell_directory i cmd s = (t, r) \<Longrightarrow> tables_grow s t"
  by (cases cmd) (auto simp: tables_grow_def split: if_splits option.splits)

lemma authority_grow: "apply_task_authority i cterm cmd s = (t, r) \<Longrightarrow> tables_grow s t"
  by (cases cmd) (auto simp: tables_grow_def split: if_splits option.splits)

lemma audit_grow: "apply_audit i cmd s = (t, r) \<Longrightarrow> tables_grow s t"
  by (cases cmd) (auto simp: tables_grow_def split: if_splits)

lemma device_grow:
  "apply_device_transition i device lease_id epoch holder token new_state has_proof s = (t, r) \<Longrightarrow> tables_grow s t"
  by (auto simp: apply_device_transition_def tables_grow_def split: if_splits option.splits)

lemma quota_grow:
  "apply_register_quota_pool root initial s = (t, r) \<Longrightarrow> tables_grow s t"
  "apply_allocate_quota_lease i lease_id root holder boot_gen face epoch token scope s = (t, r) \<Longrightarrow> tables_grow s t"
  "apply_settle_quota_lease i lease_id disposition returned quarantined epoch token s = Inr (t, r) \<Longrightarrow> tables_grow s t"
  by (auto simp: apply_register_quota_pool_def tables_grow_def split: if_splits
      elim!: allocate_quota_leaseE settle_quota_leaseE)

lemma capacity_grow:
  "apply_allocate_capacity_lease i lease_id pool_id pool_total target boot_gen amount cepoch token s = (t, r) \<Longrightarrow>
     tables_grow s t"
  by (erule allocate_capacity_leaseE)
    (auto simp: capacity_pool_or_insert_def Let_def tables_grow_def split: option.splits)

lemma apply_inner_grow:
  assumes "apply_inner i cterm cmd s = Inr (t, r)"
  shows "tables_grow s t"
proof (cases cmd)
  case (RootLeasePoolMutation c)
  with assms show ?thesis by (cases c) (auto intro: quota_grow capacity_grow device_grow)
qed (use assms in \<open>auto intro: cells_grow authority_grow audit_grow\<close>)

definition tables_within :: "nat \<Rightarrow> ControlPlaneStateMachine \<Rightarrow> bool" where
  "tables_within n s \<longleftrightarrow>
     length (cells s) \<le> n \<and> length (quota_pools s) \<le> n \<and> length (quota_leases s) \<le> n \<and>
     length (capacity_pools s) \<le> n \<and> length (capacity_leases s) \<le> n \<and> length (device_heads s) \<le> n \<and>
     length (fence_scope_high_water s) \<le> n \<and> length (task_shards s) \<le> n \<and>
     length (takeover_receipts s) \<le> n \<and> length (migration_anchors s) \<le> n \<and>
     length (checkpoint_anchors s) \<le> n \<and> length (dedup_table s) \<le> n"

lemma tables_within_grow:
  "tables_within n s \<Longrightarrow> tables_grow s t \<Longrightarrow> rows_grow (dedup_table s) d \<Longrightarrow> tables_within (Suc n) (t\<lparr>dedup_table := d\<rparr>)"
  unfolding tables_within_def tables_grow_def rows_grow_def by simp

lemma apply_committed_entry_within:
  assumes "apply_committed_entry sha i cterm p s = Inr (t, out)" "tables_within n s"
  shows "tables_within (Suc n) t"
  using assms(1)
proof (cases rule: apply_committed_entryE)
  case (fresh s1 rejection)
  let ?s = "s\<lparr>last_applied_index := i, last_applied_term := cterm\<rparr>"
  have grow: "tables_grow ?s s1" by (rule apply_inner_grow [OF fresh(3)])
  have "tables_within n ?s" using assms(2) by (simp add: tables_within_def)
  then have "tables_within (Suc n) (s1\<lparr>dedup_table := dedup_table t\<rparr>)"
    by (rule tables_within_grow [OF _ grow]) (use grow in \<open>simp add: fresh(4) tables_grow_def\<close>)
  then show ?thesis by (simp add: tables_within_def fresh(4))
qed (use assms(2) in \<open>simp_all add: tables_within_def\<close>)

lemma tables_within_fit: "tables_within n s \<Longrightarrow> n < 2 ^ 32 \<Longrightarrow> tables_fit s"
  unfolding tables_within_def tables_fit_def by simp

lemma tables_within_digest:
  "tables_within n s \<Longrightarrow> n < 2 ^ 32 \<Longrightarrow> \<exists>root. state_root_digest sha s = Some root"
  by (simp add: state_root_digest_def encode_canonical_state_body_def tables_within_fit)

end
