(* ===== verification/SingleNodeInv.thy ===== *)
theory SingleNodeInv
  imports SingleNode ControlPlaneGrowth
begin

text \<open>
  The specification of the single-host node is the list of proposals it has accepted. \<open>history\<close> runs
  that list on the empty state machine; \<open>single_ok\<close> relates a node to it: the state machine is the
  result of the run, the commit index is its length, and the disk holds the log from some point at
  or below the snapshot. Every operation keeps the relation and reopening restores it.
\<close>

section \<open>The specification\<close>

definition history_log :: "sha256_fn \<Rightarrow> ControlPlaneProposal list \<Rightarrow> RaftLogEntry list" where
  "history_log sha ps = map (\<lambda>i. log_entry_new sha (Suc i) 1 (ps ! i)) [0..<length ps]"

definition history :: "sha256_fn \<Rightarrow> ControlPlaneProposal list \<Rightarrow> ControlPlaneStateMachine \<Rightarrow> bool" where
  "history sha ps s \<longleftrightarrow> replay_committed sha (length ps) (history_log sha ps) sm_new = Inr s"

lemma length_history_log [simp]: "length (history_log sha ps) = length ps"
  by (simp add: history_log_def)

lemma history_log_Nil_iff [simp]: "history_log sha ps = [] \<longleftrightarrow> ps = []"
  by (simp add: history_log_def)

lemma history_log_nth [simp]: "i < length ps \<Longrightarrow> history_log sha ps ! i = log_entry_new sha (Suc i) 1 (ps ! i)"
  by (simp add: history_log_def)

lemma history_log_snoc [simp]:
  "history_log sha (ps @ [p]) = history_log sha ps @ [log_entry_new sha (Suc (length ps)) 1 p]"
  by (simp add: history_log_def nth_append)

lemma take_history_log: "take k (history_log sha ps) = history_log sha (take k ps)"
  by (rule nth_equalityI) simp_all

lemma history_contiguous [simp]: "contiguous (Suc 0) (history_log sha ps)"
  by (simp add: contiguous_def)

lemma history_log_index: "e \<in> set (history_log sha ps) \<Longrightarrow> 0 < re_index e \<and> re_index e \<le> length ps"
  using contiguous_bounds [OF history_contiguous] by fastforce

definition history_ok :: "ControlPlaneProposal list \<Rightarrow> bool" where
  "history_ok ps \<longleftrightarrow> length ps < 2 ^ 32 \<and> (\<forall>p\<in>set ps. command_ok (command p))"

lemma history_entry_fits: "history_ok ps \<Longrightarrow> e \<in> set (history_log sha ps) \<Longrightarrow> entry_fits sha e"
  by (auto simp: history_log_def history_ok_def entry_fits_def storable_def i64_max_def)

section \<open>Replay\<close>

lemma replay_bound:
  "\<forall>e\<in>set es. re_index e \<le> k \<Longrightarrow> \<forall>e\<in>set es. re_index e \<le> k' \<Longrightarrow> replay_committed sha k es s = replay_committed sha k' es s"
  by (induction es arbitrary: s) (auto split: sum.splits)

lemma replay_append_log:
  "\<forall>e\<in>set xs. re_index e \<le> k \<Longrightarrow>
     replay_committed sha k (xs @ ys) s = result_bind (replay_committed sha k xs s) (replay_committed sha k ys)"
  by (induction xs arbitrary: s) (auto split: sum.splits)

lemma history_split:
  assumes "history sha (take k ps) s" "k \<le> length ps"
  shows "replay_committed sha (length ps) (drop k (history_log sha ps)) s =
    replay_committed sha (length ps) (history_log sha ps) sm_new"
proof -
  have bound: "\<forall>e\<in>set (take k (history_log sha ps)). re_index e \<le> length ps"
    by (meson history_log_index in_set_takeD)
  have "\<forall>e\<in>set (history_log sha (take k ps)). re_index e \<le> k \<and> re_index e \<le> length ps"
    using history_log_index [of _ sha "take k ps"] by fastforce
  then have "replay_committed sha (length ps) (history_log sha (take k ps)) sm_new =
      replay_committed sha k (history_log sha (take k ps)) sm_new"
    by (intro replay_bound) simp_all
  then have "replay_committed sha (length ps) (take k (history_log sha ps)) sm_new = Inr s"
    using assms by (simp add: history_def take_history_log min_absorb2)
  then show ?thesis
    using replay_append_log [OF bound, of sha "drop k (history_log sha ps)" sm_new] by simp
qed

lemma history_snoc:
  assumes "history sha ps s" "apply_committed_entry sha (of_nat (Suc (length ps))) 1 p s = Inr (t, out)"
  shows "history sha (ps @ [p]) t"
proof -
  have h: "history sha (take (length ps) (ps @ [p])) s" using assms(1) by simp
  show ?thesis
    using history_split [OF h] assms(2) by (simp add: history_def)
qed

lemma apply_committed_entry_term: "apply_committed_entry sha i cterm p s = Inr (t, out) \<Longrightarrow> last_applied_term t = cterm"
  using apply_inner_counters by (erule_tac apply_committed_entryE) fastforce+

definition machine_at :: "nat \<Rightarrow> ControlPlaneStateMachine \<Rightarrow> bool" where
  "machine_at n s \<longleftrightarrow> sm_inv s \<and> sm_typed s \<and> tables_within n s \<and> unat (last_applied_index s) = n \<and>
     last_applied_term s = (if n = 0 then 0 else 1)"

lemma machine_at_next:
  assumes "machine_at n s" "Suc n < 2 ^ 32" "command_ok (command p)"
  shows "\<exists>t out. apply_committed_entry sha (of_nat (Suc n)) 1 p s = Inr (t, out) \<and> machine_at (Suc n) t"
proof -
  obtain t out where t: "apply_committed_entry sha (of_nat (Suc n)) 1 p s = Inr (t, out)" "sm_inv t"
      "unat (last_applied_index t) = Suc n"
    using apply_next [of s "Suc n" sha 1 p] assms(1,2) by (auto simp: machine_at_def i64_max_def)
  have "(of_nat (Suc n) :: u64) \<noteq> 0"
    using t(3) apply_committed_entry_evolves [OF t(1)] by auto
  then have "typed_step sha s t" unfolding typed_step_def using t(1) assms(3) zero_neq_one by metis
  then have "sm_typed t" using sm_typed_step assms(1) by (auto simp: machine_at_def)
  then show ?thesis
    using t apply_committed_entry_term [OF t(1)] apply_committed_entry_within [OF t(1)] assms(1)
    by (auto simp: machine_at_def)
qed

lemma history_machine:
  assumes "history_ok ps"
  shows "\<exists>s. history sha ps s \<and> machine_at (length ps) s"
  using assms
proof (induction ps rule: rev_induct)
  case Nil
  have "tables_within 0 sm_new" by (simp add: tables_within_def sm_new_def)
  then have "machine_at 0 sm_new"
    using sm_inv_new sm_typed_new by (simp add: machine_at_def) (simp add: sm_new_def)
  then show ?case by (simp add: history_def history_log_def)
next
  case (snoc p ps)
  then obtain s where s: "history sha ps s" "machine_at (length ps) s" by (auto simp: history_ok_def)
  then show ?case
    using machine_at_next [OF s(2), of p sha] history_snoc [OF s(1), of p] snoc.prems by (force simp: history_ok_def)
qed

lemma history_machine_at: "history sha ps s \<Longrightarrow> history_ok ps \<Longrightarrow> machine_at (length ps) s"
  using history_machine [of ps sha] by (auto simp: history_def)

section \<open>The relation\<close>

definition snap_index :: "(SnapshotMetadata \<times> byte list) option \<Rightarrow> LogIndex" where
  "snap_index snap = (case snap of Some (m, _) \<Rightarrow> included_index m | None \<Rightarrow> 0)"

definition snap_ok :: "sha256_fn \<Rightarrow> ControlPlaneProposal list \<Rightarrow> SnapshotMetadata \<Rightarrow> byte list \<Rightarrow> bool" where
  "snap_ok sha ps m b \<longleftrightarrow> snapshot_valid sha m b \<and> included_index m \<le> length ps \<and>
     (\<exists>s. decode_snapshot sha b = Inr s \<and> history sha (take (included_index m) ps) s)"

definition disk_at ::
  "sha256_fn \<Rightarrow> CellIdentity \<Rightarrow> ControlPlaneProposal list \<Rightarrow> (SnapshotMetadata \<times> byte list) option \<Rightarrow>
   SqliteConsensusStore \<Rightarrow> bool" where
  "disk_at sha cell ps snap db \<longleftrightarrow>
     consensus_meta db = Some (hard_row sha 1 (Some cell) (length ps)) \<and>
     consensus_snapshot db = map_option (\<lambda>(m, b). snapshot_row sha m b) snap \<and>
     (\<forall>m b. snap = Some (m, b) \<longrightarrow> snapshot_files db (meta_file m) = Some b \<and> snap_ok sha ps m b) \<and>
     (\<exists>k \<le> snap_index snap. consensus_log db = log_rows (drop k (history_log sha ps)))"

definition core_at :: "sha256_fn \<Rightarrow> ControlPlaneProposal list \<Rightarrow> ConsensusCore \<Rightarrow> bool" where
  "core_at sha ps c \<longleftrightarrow> length (roster c) = 1 \<and> role c = Leader \<and> current_term c = 1 \<and>
     commit_index c = length ps \<and> (\<exists>j. log_tail c = drop j (history_log sha ps)) \<and>
     (log_tail c = [] \<longrightarrow> snapshot_index c = length ps)"

definition single_ok :: "sha256_fn \<Rightarrow> CellIdentity \<Rightarrow> ControlPlaneProposal list \<Rightarrow> SingleHostInner \<Rightarrow> bool" where
  "single_ok sha cell ps n \<longleftrightarrow> cell \<noteq> 0 \<and> history_ok ps \<and> history sha ps (si_state_machine n) \<and>
     core_at sha ps (si_core n) \<and> disk_at sha cell ps (si_latest_durable_snapshot n) (si_store n) \<and>
     snapshot_index (si_core n) \<le> snap_index (si_latest_durable_snapshot n)"

section \<open>Proposals\<close>

lemma core_at_last: "core_at sha ps c \<Longrightarrow> last_log_index c = length ps"
proof (cases "log_tail c = []")
  case False
  assume c: "core_at sha ps c"
  then obtain j where j: "log_tail c = drop j (history_log sha ps)" by (auto simp: core_at_def)
  with False have "j < length ps" "history_log sha ps \<noteq> []" by auto
  then have "last (log_tail c) = log_entry_new sha (Suc (length ps - 1)) 1 (ps ! (length ps - 1))"
    unfolding j by (simp add: last_conv_nth)
  then show ?thesis using False \<open>j < length ps\<close> by (simp add: last_log_index_def)
qed (auto simp: core_at_def last_log_index_def snapshot_index_def)

lemma core_at_propose:
  fixes p :: ControlPlaneProposal
  assumes "core_at sha ps c" "length ps < 2 ^ 32"
  defines "e \<equiv> log_entry_new sha (Suc (length ps)) 1 p"
  shows "\<exists>c'. core_step sha c (Propose p None) =
      (c', [AppendLogEntries [e], AdvanceCommitIndex (Suc (length ps)) 1 [e]]) \<and>
    core_at sha (ps @ [p]) c' \<and> snapshot_index c' = snapshot_index c"
proof -
  have c: "role c = Leader" "length (roster c) = 1" "current_term c = 1" using assms(1) by (simp_all add: core_at_def)
  have next_idx: "sat_add64 (last_log_index c) (Suc 0) = Suc (length ps)"
    using assms(2) by (simp add: core_at_last [OF assms(1)] sat_add64_def u64_max_def)
  define c' where "c' = c\<lparr>log_tail := log_tail c @ [e], commit_index := Suc (length ps),
    match_index := bt_insert (local_id c) (Suc (length ps)) (match_index c),
    next_index := bt_insert (local_id c) (sat_add64 (Suc (length ps)) 1) (next_index c)\<rparr>"
  have step: "core_step sha c (Propose p None) = (c', [AppendLogEntries [e], AdvanceCommitIndex (Suc (length ps)) 1 [e]])"
    by (simp add: on_propose_def check_leader_gate_def c next_idx e_def c'_def Let_def)
  obtain j where "log_tail c = drop j (history_log sha ps)" using assms(1) by (auto simp: core_at_def)
  then have "log_tail c' = drop (min j (length ps)) (history_log sha (ps @ [p]))"
    by (simp add: c'_def e_def min_def)
  then have "\<exists>j. log_tail c' = drop j (history_log sha (ps @ [p]))" by blast
  then have "core_at sha (ps @ [p]) c'" unfolding core_at_def using c by (simp add: c'_def)
  then show ?thesis using step by (auto simp: c'_def snapshot_index_def)
qed

lemma snap_ok_snoc: "snap_ok sha ps m b \<Longrightarrow> snap_ok sha (ps @ [p]) m b"
  by (auto simp: snap_ok_def)

lemma read_snapshot_disk:
  assumes "disk_at sha cell ps snap db"
  shows "read_snapshot_row_conn db = Inr (map_option (\<lambda>(m, b). \<lparr>ss_meta = m, ss_file_name = meta_file m,
    ss_byte_len = length b, ss_snapshot_sha256 = snapshot_digest sha m b\<rparr>) snap)"
proof (cases snap)
  case None
  then show ?thesis using assms by (simp add: disk_at_def read_snapshot_row_none)
next
  case (Some x)
  then show ?thesis using assms by (cases x) (simp add: disk_at_def read_snapshot_row_iff snapshot_row_def)
qed

lemma disk_read: "disk_at sha cell ps snap db \<Longrightarrow> cell \<noteq> 0 \<Longrightarrow>
    read_and_verify_hard_state_conn sha db = Inr (1, Some cell, length ps)"
  by (simp add: read_hard_state_iff disk_at_def)

lemma snap_index_le: "disk_at sha cell ps snap db \<Longrightarrow> snap_index snap \<le> length ps"
  by (auto simp: disk_at_def snap_index_def snap_ok_def split: option.splits)

lemma disk_append:
  fixes p :: ControlPlaneProposal
  assumes "disk_at sha cell ps snap db" "history_ok (ps @ [p])"
  defines "e \<equiv> log_entry_new sha (Suc (length ps)) 1 p"
  shows "\<exists>k \<le> snap_index snap. append_entries_tx sha [e] db =
    Inr (db\<lparr>consensus_log := log_rows (drop k (history_log sha (ps @ [p])))\<rparr>)"
proof -
  obtain k where k: "k \<le> snap_index snap" "consensus_log db = log_rows (drop k (history_log sha ps))"
    using assms(1) by (auto simp: disk_at_def)
  have le: "k \<le> length ps" using k(1) snap_index_le [OF assms(1)] by simp
  have "contiguous (Suc 0 + k) (drop k (history_log sha (ps @ [p])))" by (rule contiguous_drop) (rule history_contiguous)
  then have "contiguous (Suc 0 + k) (drop k (history_log sha ps) @ [e])" using le by (simp add: e_def)
  moreover have "entry_fits sha e" using history_entry_fits [OF assms(2), of e sha] by (simp add: e_def)
  ultimately have "append_entries_tx sha [e] db = Inr (db\<lparr>consensus_log := log_rows (drop k (history_log sha ps) @ [e])\<rparr>)"
    using append_refines [of "Suc 0 + k" "drop k (history_log sha ps)" "[e]" sha db, OF _ _ k(2)]
    by (simp del: append_entries_tx.simps)
  then show ?thesis using k(1) le by (auto simp: e_def simp del: append_entries_tx.simps)
qed

lemma disk_commit:
  assumes "disk_at sha cell ps snap db" "history_ok (ps @ [p])" "k \<le> snap_index snap"
    "db1 = db\<lparr>consensus_log := log_rows (drop k (history_log sha (ps @ [p])))\<rparr>"
  shows "verify_commit_bound_covered_tx (Suc (length ps)) db1 = Inr () \<and>
    write_hard_state_tx sha 1 (Some cell) (Suc (length ps)) db1 =
      Inr (db1\<lparr>consensus_meta := Some (hard_row sha 1 (Some cell) (Suc (length ps)))\<rparr>) \<and>
    disk_at sha cell (ps @ [p]) snap (db1\<lparr>consensus_meta := Some (hard_row sha 1 (Some cell) (Suc (length ps)))\<rparr>)"
proof -
  have le: "k \<le> length ps" using assms(3) snap_index_le [OF assms(1)] by simp
  have "consensus_snapshot db1 = consensus_snapshot db" by (simp add: assms(4))
  then have "read_snapshot_row_conn db1 = read_snapshot_row_conn db" by (simp add: read_snapshot_row_conn_def)
  moreover have "nat (fst (last (consensus_log db1))) = Suc (length ps)" "consensus_log db1 \<noteq> []"
    using le by (simp_all add: assms(4) log_rows_def)
  ultimately have "verify_commit_bound_covered_tx (Suc (length ps)) db1 = Inr ()"
    by (simp add: verify_commit_bound_covered_tx_def read_snapshot_disk [OF assms(1)] Let_def)
  moreover have meta: "consensus_meta db1 = Some (hard_row sha 1 (Some cell) (length ps))"
    using assms(1) by (simp add: assms(4) disk_at_def)
  then have "write_hard_state_tx sha 1 (Some cell) (Suc (length ps)) db1 =
      Inr (db1\<lparr>consensus_meta := Some (hard_row sha 1 (Some cell) (Suc (length ps)))\<rparr>)"
    using assms(2) by (simp add: write_hard_state_iff [OF meta] hard_state_follows_def history_ok_def i64_max_def)
  moreover have "disk_at sha cell (ps @ [p]) snap (db1\<lparr>consensus_meta := Some (hard_row sha 1 (Some cell) (Suc (length ps)))\<rparr>)"
    using assms(1,3) snap_ok_snoc by (auto simp: disk_at_def assms(4))
  ultimately show ?thesis by simp
qed

lemma propose_tx:
  fixes p :: ControlPlaneProposal
  assumes "disk_at sha cell ps snap db" "history_ok (ps @ [p])" "cell \<noteq> 0"
  defines "e \<equiv> log_entry_new sha (Suc (length ps)) 1 p"
  shows "\<exists>db'. effects_tx sha None [AppendLogEntries [e], AdvanceCommitIndex (Suc (length ps)) 1 [e]] db = Inr db' \<and>
    disk_at sha cell (ps @ [p]) snap db'"
proof -
  obtain k where k: "k \<le> snap_index snap"
      "append_entries_tx sha [e] db = Inr (db\<lparr>consensus_log := log_rows (drop k (history_log sha (ps @ [p])))\<rparr>)"
    using disk_append [OF assms(1,2)] unfolding e_def by blast
  define db1 where "db1 = db\<lparr>consensus_log := log_rows (drop k (history_log sha (ps @ [p])))\<rparr>"
  note w = disk_commit [OF assms(1,2) k(1) db1_def]
  have "effects_tx sha None [AppendLogEntries [e], AdvanceCommitIndex (Suc (length ps)) 1 [e]] db =
      Inr (db1\<lparr>consensus_meta := Some (hard_row sha 1 (Some cell) (Suc (length ps)))\<rparr>)"
    using w k(2) [folded db1_def]
    by (simp add: effects_tx_def disk_read [OF assms(1,3)] flush_hard_state_def del: append_entries_tx.simps)
  then show ?thesis using w by blast
qed

lemma single_propose_ok:
  assumes "single_ok sha cell ps n" "history_ok (ps @ [p])"
  shows "\<exists>r n'. single_propose sha None p n = (Inr r, n') \<and> single_ok sha cell (ps @ [p]) n' \<and>
    unat (rc_consensus_commit_index r) = Suc (length ps) \<and> rc_term r = 1 \<and>
    state_root_digest sha (si_state_machine n') = Some (rc_state_root_digest r)"
proof -
  let ?e = "log_entry_new sha (Suc (length ps)) 1 p"
  have small: "Suc (length ps) < 2 ^ 32" "command_ok (command p)" "length ps < 2 ^ 32"
    using assms(2) by (simp_all add: history_ok_def)
  have n: "cell \<noteq> 0" "history_ok ps" "history sha ps (si_state_machine n)" "core_at sha ps (si_core n)"
      "disk_at sha cell ps (si_latest_durable_snapshot n) (si_store n)"
      "snapshot_index (si_core n) \<le> snap_index (si_latest_durable_snapshot n)"
    using assms(1) by (simp_all add: single_ok_def)
  obtain c' where c': "core_step sha (si_core n) (Propose p None) =
        (c', [AppendLogEntries [?e], AdvanceCommitIndex (Suc (length ps)) 1 [?e]])"
      "core_at sha (ps @ [p]) c'" "snapshot_index c' = snapshot_index (si_core n)"
    using core_at_propose [OF n(4) small(3)] by blast
  obtain db' where db': "effects_tx sha None [AppendLogEntries [?e], AdvanceCommitIndex (Suc (length ps)) 1 [?e]] (si_store n) = Inr db'"
      "disk_at sha cell (ps @ [p]) (si_latest_durable_snapshot n) db'"
    using propose_tx [OF n(5) assms(2) n(1)] by blast
  have at: "machine_at (length ps) (si_state_machine n)" by (rule history_machine_at [OF n(3,2)])
  obtain t out where t: "apply_committed_entry sha (of_nat (Suc (length ps))) 1 p (si_state_machine n) = Inr (t, out)"
      "machine_at (Suc (length ps)) t"
    using machine_at_next [OF at small(1,2)] by blast
  obtain root where root: "state_root_digest sha t = Some root"
    using tables_within_digest t(2) small(1) unfolding machine_at_def by blast
  have idx: "\<not> Suc (length ps) \<le> unat (last_applied_index (si_state_machine n))"
    using at by (simp add: machine_at_def)
  let ?r = "\<lparr>rc_consensus_commit_index = of_nat (Suc (length ps)), rc_term = 1, rc_state_root_digest = root, rc_outcome = out\<rparr>"
  have "apply_committed sha [?e] (si_state_machine n) = (Inr [(?e, ?r)], t)"
    using t(1) root idx by simp
  then have "single_propose sha None p n = (Inr ?r, n\<lparr>si_core := c', si_store := db', si_state_machine := t\<rparr>)"
    by (simp add: single_propose_def c'(1) store_effects_def apply_durable_effects_def db'(1) committed_of_def
        del: apply_committed.simps core_step.simps One_nat_def)
  moreover have "single_ok sha cell (ps @ [p]) (n\<lparr>si_core := c', si_store := db', si_state_machine := t\<rparr>)"
    using c'(2,3) db'(2) n(1,6) assms(2) history_snoc [OF n(3) t(1)] by (simp add: single_ok_def)
  moreover have "unat (of_nat (Suc (length ps)) :: u64) = Suc (length ps)"
  proof -
    have "Suc (length ps) < 2 ^ 64" using small(1) by simp
    then show ?thesis by (simp add: unat_of_nat del: of_nat_Suc)
  qed
  ultimately show ?thesis
    using root by (intro exI [of _ ?r] exI [of _ "n\<lparr>si_core := c', si_store := db', si_state_machine := t\<rparr>"] conjI) simp_all
qed

section \<open>Snapshots and compaction\<close>

lemma encoded_snapshot_length: "encode_snapshot sha s = Some b \<Longrightarrow> length b \<le> i64_max"
  by (auto simp: encode_snapshot_def i64_max_def SNAPSHOT_MAGIC_def ascii_def snapshot_checksum_def Let_def
      split: option.splits if_splits)

lemma history_snapshot:
  assumes "history sha ps s" "history_ok ps" "encode_snapshot sha s = Some b" "ps \<noteq> []"
  shows "\<exists>root. state_root_digest sha s = Some root \<and> decode_snapshot sha b = Inr s \<and>
    unat (last_applied_index s) = length ps \<and> unat (last_applied_term s) = 1 \<and>
    snap_ok sha ps \<lparr>included_index = length ps, included_term = 1, meta_state_root = root\<rparr> b"
proof -
  have at: "machine_at (length ps) s" by (rule history_machine_at [OF assms(1,2)])
  obtain root where root: "state_root_digest sha s = Some root"
    using tables_within_digest at assms(2) unfolding machine_at_def history_ok_def by blast
  have dec: "decode_snapshot sha b = Inr s"
    using decode_snapshot_encode_snapshot [OF _ assms(3)] at by (simp add: machine_at_def)
  moreover have idx: "unat (last_applied_index s) = length ps" "unat (last_applied_term s) = 1"
    using at assms(4) by (simp_all add: machine_at_def)
  ultimately show ?thesis
    using root assms encoded_snapshot_length [OF assms(3)]
    by (auto simp: snap_ok_def snapshot_valid_def matches_meta_def history_ok_def i64_max_def)
qed

lemma create_snapshot_ok:
  assumes "disk_at sha cell ps snap db" "cell \<noteq> 0" "history sha ps s" "history_ok ps" "encode_snapshot sha s = Some b"
    "ps \<noteq> []"
  shows "\<exists>m db'. create_snapshot sha (unat (last_applied_index s)) (unat (last_applied_term s)) b db = (Inr m, db') \<and>
    included_index m = length ps \<and> disk_at sha cell ps (Some (m, b)) db'"
proof -
  obtain root where root: "state_root_digest sha s = Some root" "decode_snapshot sha b = Inr s"
      "unat (last_applied_index s) = length ps" "unat (last_applied_term s) = 1"
      "snap_ok sha ps \<lparr>included_index = length ps, included_term = 1, meta_state_root = root\<rparr> b"
    using history_snapshot [OF assms(3-6)] by blast
  define m where "m = \<lparr>included_index = length ps, included_term = 1, meta_state_root = root\<rparr>"
  define db1 where "db1 = write_atomic_snapshot_file (meta_file m) b db"
  have tab: "consensus_meta db1 = consensus_meta db" "consensus_snapshot db1 = consensus_snapshot db" "consensus_log db1 = consensus_log db"
    by (simp_all add: db1_def write_atomic_snapshot_file_def)
  have read: "read_and_verify_hard_state_conn sha db1 = Inr (1, Some cell, length ps)"
    using disk_read [OF assms(1,2)] by (simp add: read_hard_state_iff tab)
  have "read_snapshot_row_conn db1 = read_snapshot_row_conn db" by (simp add: read_snapshot_row_conn_def tab)
  note snaprow = this [unfolded read_snapshot_disk [OF assms(1)]]
  have le: "snap_index snap \<le> length ps" by (rule snap_index_le [OF assms(1)])
  have m: "snapshot_valid sha m b" "included_index m = length ps" "included_term m = 1" "meta_state_root m = root"
    using root(5) by (simp_all add: m_def snap_ok_def)
  have cov: "snapshot_cover db1 \<le> int (included_index m)"
    using assms(1) le m(2) by (auto simp: snapshot_cover_def tab disk_at_def snap_index_def snapshot_row_def split: option.splits)
  have up: "upsert_snapshot_row_tx m (meta_file m) (length b) (snapshot_digest sha m b) db1 =
      Inr (db1\<lparr>consensus_snapshot := Some (snapshot_row sha m b)\<rparr>)" by (rule upsert_refines [OF m(1) cov])
  define db2 where "db2 = retire_obsolete_snapshot_files (meta_file m) (db1\<lparr>consensus_snapshot := Some (snapshot_row sha m b)\<rparr>)"
  have noreg: "\<not> (case map_option (\<lambda>(m, b). \<lparr>ss_meta = m, ss_file_name = meta_file m, ss_byte_len = length b,
      ss_snapshot_sha256 = snapshot_digest sha m b\<rparr>) snap of None \<Rightarrow> False | Some q \<Rightarrow> length ps < included_index (ss_meta q))"
    using le by (auto simp: snap_index_def split: option.splits)
  have "create_snapshot sha (length ps) 1 b db = (Inr m, db2)"
  proof -
    have f: "snapshot_file_name (length ps) 1 = meta_file m"
        "compute_snapshot_transfer_sha256 sha (length ps) 1 root b = snapshot_digest sha m b"
      by (simp_all add: meta_file_def snapshot_digest_def m(2-4) del: One_nat_def)
    show ?thesis
      unfolding create_snapshot_def root(2) sum.case root(3,4) root(1) option.case Let_def f m_def [symmetric]
        db1_def [symmetric] read snaprow result_bind_simps prod.case
      using noreg assms(6) by (simp add: up db2_def del: One_nat_def)
  qed
  moreover have "disk_at sha cell ps (Some (m, b)) db2"
  proof -
    obtain k where "k \<le> length ps" "consensus_log db = log_rows (drop k (history_log sha ps))"
      using assms(1) le unfolding disk_at_def by (meson le_trans)
    moreover have "snapshot_files db2 (meta_file m) = Some b"
      by (simp add: db2_def retire_obsolete_snapshot_files_def db1_def write_atomic_snapshot_file_def)
    ultimately show ?thesis
      using assms(1) root(5) [folded m_def]
      by (auto simp: disk_at_def db2_def retire_obsolete_snapshot_files_def tab snap_index_def m(2))
  qed
  ultimately show ?thesis using m(2) root(3,4) by auto
qed

lemma history_filter: "filter (\<lambda>e. t < re_index e) (drop j (history_log sha ps)) = drop (max j t) (history_log sha ps)"
proof (cases "j \<le> t")
  case True
  have c: "\<forall>i < length (drop j (history_log sha ps)). re_index (drop j (history_log sha ps) ! i) = Suc j + i" by simp
  have "filter (\<lambda>e. Suc j + (t - j) \<le> re_index e) (drop j (history_log sha ps)) = drop (t - j) (drop j (history_log sha ps))"
    by (rule filter_greater_contiguous [OF c])
  then show ?thesis using True by (simp add: Suc_le_eq max_def)
next
  case False
  have "t < re_index e" if "e \<in> set (drop j (history_log sha ps))" for e
    using contiguous_bounds [OF contiguous_drop [OF history_contiguous] that] False by simp
  then show ?thesis using False by (simp add: max_def)
qed

lemma compact_ok:
  assumes "disk_at sha cell ps snap db" "compact_log_up_to k db = Inr db'"
  shows "disk_at sha cell ps snap db'"
proof (cases "k = 0")
  case False
  then obtain m b where s: "snap = Some (m, b)" "k \<le> included_index m" "delete_log_where (\<lambda>i. i \<le> int k) db = Inr db'"
    using assms(2) by (auto simp: compact_log_up_to_def read_snapshot_disk [OF assms(1)] result_bind_eq_Inr split: option.splits if_splits)
  obtain j where j: "j \<le> included_index m" "consensus_log db = log_rows (drop j (history_log sha ps))"
    using assms(1) s(1) by (auto simp: disk_at_def snap_index_def)
  have "consensus_snapshot db = Some (snapshot_row sha m b)" using assms(1) s(1) by (simp add: disk_at_def)
  then have "\<not> delete_protected db i" if "i \<le> int k" for i
    using that s(2) by (auto simp: delete_protected_def snapshot_cover_def snapshot_row_def split: option.splits)
  then have "db' = db\<lparr>consensus_log := log_rows (filter (\<lambda>e. \<not> int (re_index e) \<le> int k) (drop j (history_log sha ps)))\<rparr>"
    using delete_refines [OF j(2), of "\<lambda>i. i \<le> int k"] s(3) by simp
  then have db': "db' = db\<lparr>consensus_log := log_rows (drop (max j k) (history_log sha ps))\<rparr>"
    by (simp add: not_le history_filter)
  have "max j k \<le> snap_index snap" using s(1,2) j(1) by (simp add: snap_index_def)
  then show ?thesis using assms(1) unfolding disk_at_def db' by (intro conjI exI [of _ "max j k"]) simp_all
qed (use assms in \<open>simp add: compact_log_up_to_def\<close>)

lemma record_snapshot_ok:
  fixes b :: "byte list" and k :: LogIndex
  assumes "core_at sha ps c" "snapshot_index c \<le> included_index m" "included_index m \<le> length ps"
  defines "c' \<equiv> fst (record_local_snapshot m b k c)"
  shows "core_at sha ps c' \<and> snapshot_index c' \<le> included_index m"
proof (cases "included_index m = 0")
  case False
  let ?t = "min k (included_index m)"
  obtain j where j: "log_tail c = drop j (history_log sha ps)" using assms(1) by (auto simp: core_at_def)
  define c1 where "c1 = c\<lparr>log_tail := drop (max j ?t) (history_log sha ps)\<rparr>"
  have "\<not> (case snapshot_meta c of Some existing \<Rightarrow> included_index m < included_index existing | None \<Rightarrow> False)"
    using assms(2) by (auto simp: snapshot_index_def split: option.splits)
  then have c': "c' = (if ?t = included_index m
      then c1\<lparr>snapshot_meta := Some m, snapshot_bytes := Some b, snapshot_send_offset := []\<rparr> else c1)"
    using False assms(1,3) by (simp add: c'_def record_local_snapshot_def core_at_def c1_def j history_filter Let_def)
  have tail: "log_tail c' = drop (max j ?t) (history_log sha ps)" by (simp add: c' c1_def)
  have "snapshot_index c' = length ps" if "log_tail c' = []"
  proof (cases "length ps \<le> j")
    case True
    then have "snapshot_index c = length ps" using assms(1) j by (simp add: core_at_def)
    then show ?thesis using assms(2,3) by (simp add: c' c1_def snapshot_index_def)
  next
    case False
    then have "length ps \<le> ?t" using that tail by (auto simp: max_def split: if_splits)
    then show ?thesis using assms(3) by (simp add: c' c1_def snapshot_index_def)
  qed
  moreover have "snapshot_index c' \<le> included_index m" using assms(2) by (simp add: c' c1_def snapshot_index_def)
  moreover have "roster c' = roster c" "role c' = role c" "current_term c' = current_term c" "commit_index c' = commit_index c"
    by (simp_all add: c' c1_def)
  ultimately show ?thesis using assms(1) tail by (auto simp: core_at_def)
qed (use assms in \<open>simp add: record_local_snapshot_def\<close>)

section \<open>Opening\<close>

lemma load_tail_disk:
  assumes "disk_at sha cell ps snap db" "history_ok ps"
  shows "load_tail sha (snap_index snap) (length ps) db = Inr (drop (snap_index snap) (history_log sha ps))"
proof -
  let ?s = "snap_index snap" and ?log = "history_log sha ps"
  obtain k where k: "k \<le> ?s" "consensus_log db = log_rows (drop k ?log)" using assms(1) by (auto simp: disk_at_def)
  have le: "?s \<le> length ps" by (rule snap_index_le [OF assms(1)])
  have fits: "\<forall>e\<in>set (drop k ?log). entry_fits sha e" using history_entry_fits [OF assms(2)] by (meson in_set_dropD)
  have "hydrate_rows sha (map snd (consensus_log db)) = Inr (drop k ?log)"
    using fits by (simp add: k(2) hydrate_rows_iff log_rows_def comp_def entry_fits_def)
  moreover have "verify_no_gap None (drop k ?log) = Inr ()"
  proof (cases "drop k ?log")
    case (Cons e es)
    have c: "contiguous (Suc 0 + k) (drop k ?log)" by (rule contiguous_drop) (rule history_contiguous)
    have small: "\<forall>e\<in>set (drop k ?log). re_index e < u64_max" using fits i64_max_less by (auto simp: entry_fits_def)
    show ?thesis unfolding verify_no_gap_None [OF small] using c Cons by simp
  qed simp
  moreover have "filter (\<lambda>e. ?s < re_index e) (drop k ?log) = drop ?s ?log"
    using k(1) by (simp add: history_filter max_def)
  moreover have "re_index (hd (drop ?s ?log)) = sat_add64 ?s 1 \<and> re_index (last (drop ?s ?log)) = length ps" if "drop ?s ?log \<noteq> []"
  proof -
    have "?s < length ps" using that by simp
    then show ?thesis using assms(2)
      by (simp add: hd_drop_conv_nth last_conv_nth sat_add64_def u64_max_def history_ok_def)
  qed
  ultimately show ?thesis using le by (simp add: load_tail_def Let_def)
qed

lemma load_snapshot_disk:
  assumes "disk_at sha cell ps snap db" "history_ok ps"
  shows "\<exists>s db'. load_snapshot sha db = Inr (s, snap, db') \<and> history sha (take (snap_index snap) ps) s \<and>
    disk_at sha cell ps snap db'"
proof (cases snap)
  case None
  have "history sha [] sm_new" by (simp add: history_def history_log_def)
  then show ?thesis
    using assms(1) None read_snapshot_disk [OF assms(1)] by (simp add: load_snapshot_def snap_index_def)
next
  case (Some x)
  then obtain m b where mb: "snap = Some (m, b)" by (cases x) simp
  then obtain sm where sm: "decode_snapshot sha b = Inr sm" "matches_meta sha sm m" "history sha (take (included_index m) ps) sm"
    using assms(1) by (auto simp: disk_at_def snap_ok_def snapshot_valid_def)
  have stored: "snapshot_files db (meta_file m) = Some b" using assms(1) mb by (simp add: disk_at_def)
  have "load_snapshot sha db = Inr (sm, Some (m, b), retire_obsolete_snapshot_files (meta_file m) db)"
    using read_snapshot_disk [OF assms(1)] mb stored sm(1,2) by (simp add: load_snapshot_def snapshot_digest_def)
  moreover have "disk_at sha cell ps snap (retire_obsolete_snapshot_files (meta_file m) db)"
    using assms(1) mb by (simp add: disk_at_def retire_obsolete_snapshot_files_def)
  ultimately show ?thesis using mb sm(3) by (simp add: snap_index_def)
qed

lemma load_disk:
  assumes "disk_at sha cell ps snap db" "history_ok ps" "cell \<noteq> 0" "history sha ps s"
  shows "\<exists>db'. load_and_verify_all sha db = (Inr \<lparr>rec_core_state = \<lparr>rh_current_term = 1, rh_voted_for = Some cell,
      rh_commit_index = length ps, rh_snapshot = snap, rh_log_tail = drop (snap_index snap) (history_log sha ps)\<rparr>,
      rec_state_machine = s\<rparr>, db') \<and> disk_at sha cell ps snap db'"
proof -
  let ?s = "snap_index snap" and ?log = "history_log sha ps"
  obtain s0 db1 where ld: "load_snapshot sha db = Inr (s0, snap, db1)" "history sha (take ?s ps) s0" "disk_at sha cell ps snap db1"
    using load_snapshot_disk [OF assms(1,2)] by blast
  have le: "?s \<le> length ps" by (rule snap_index_le [OF assms(1)])
  have rep: "replay_committed sha (length ps) (drop ?s ?log) s0 = Inr s"
    using history_split [OF ld(2) le] assms(4) by (simp add: history_def)
  obtain db2 where del: "(if ?s > 0 then result_bind (u64_to_i64 ?s) (\<lambda>idx. delete_log_where (\<lambda>i. i \<le> idx) db1) else Inr db1) = Inr db2"
      "disk_at sha cell ps snap db2"
  proof (cases "?s = 0")
    case False
    then obtain m b where mb: "snap = Some (m, b)" by (cases snap) (auto simp: snap_index_def)
    have "?s \<le> i64_max" using le assms(2) by (simp add: history_ok_def i64_max_def)
    moreover have "delete_log_where (\<lambda>i. i \<le> int ?s) db1 = Inr (db1\<lparr>consensus_log := filter (\<lambda>(i, _). \<not> i \<le> int ?s) (consensus_log db1)\<rparr>)"
      using ld(3) mb by (auto simp: delete_log_where_def delete_protected_def disk_at_def snapshot_cover_def snapshot_row_def
          snap_index_def list_ex_iff)
    ultimately have "compact_log_up_to ?s db1 = (if ?s > 0 then result_bind (u64_to_i64 ?s) (\<lambda>idx. delete_log_where (\<lambda>i. i \<le> idx) db1) else Inr db1)"
      using False mb by (simp add: compact_log_up_to_def read_snapshot_disk [OF ld(3)] snap_index_def)
    moreover obtain db2 where "compact_log_up_to ?s db1 = Inr db2"
      using calculation \<open>?s \<le> i64_max\<close> \<open>delete_log_where (\<lambda>i. i \<le> int ?s) db1 = _\<close> False by (auto simp: u64_to_i64_def)
    ultimately show ?thesis using that compact_ok [OF ld(3)] by metis
  qed (use ld(3) that in simp)
  have inc: "(case snap of Some (m, _) \<Rightarrow> included_index m | None \<Rightarrow> 0) = ?s" by (simp add: snap_index_def)
  have "\<not> length ps < ?s" using le by simp
  then show ?thesis
    unfolding load_and_verify_all_def disk_read [OF assms(1,3)] ld(1) sum.case prod.case inc Let_def
    using del by (simp only: load_tail_disk [OF ld(3) assms(2)] rep sum.case if_False) blast
qed

lemma single_roster: "roster_new [\<lparr>cell_identity = cell, control_domain_id = domain\<rparr>] = Inr [\<lparr>cell_identity = cell, control_domain_id = domain\<rparr>]"
  by (simp add: roster_new_def bt_get_def)

lemma single_rehydrate:
  assumes "snap_index snap \<le> length ps" "history_ok ps"
  shows "\<exists>c. rehydrate cell [\<lparr>cell_identity = cell, control_domain_id = domain\<rparr>] timing_default
      \<lparr>rh_current_term = 1, rh_voted_for = v, rh_commit_index = length ps, rh_snapshot = snap,
       rh_log_tail = drop (snap_index snap) (history_log sha ps)\<rparr> = Inr c \<and>
    core_at sha ps c \<and> snapshot_index c = snap_index snap"
proof -
  let ?r = "[\<lparr>cell_identity = cell, control_domain_id = domain\<rparr>]"
  obtain c0 where c0: "core_new cell ?r timing_default = Inr c0" "roster c0 = ?r"
    by (simp add: core_new_def timing_validate_def timing_default_def domain_of_def)
  define c1 where "c1 = c0\<lparr>snapshot_meta := map_option fst snap, snapshot_bytes := map_option snd snap,
    log_tail := drop (snap_index snap) (history_log sha ps),
    commit_index := max (length ps) (case map_option fst snap of None \<Rightarrow> 0 | Some m \<Rightarrow> included_index m)\<rparr>"
  have snap: "snapshot_index c1 = snap_index snap"
    by (auto simp: c1_def snapshot_index_def snap_index_def split: option.splits)
  have last: "last_log_index c1 = length ps"
  proof (cases "snap_index snap = length ps")
    case True
    then show ?thesis using snap by (simp add: last_log_index_def c1_def snapshot_index_def)
  next
    case False
    then show ?thesis using assms(1) by (simp add: last_log_index_def c1_def last_conv_nth)
  qed
  define c where "c = c1\<lparr>current_term := 1, voted_for := Some cell, role := Leader, known_leader := Some cell,
    commit_index := length ps, match_index := bt_insert cell (length ps) (match_index c1),
    next_index := bt_insert cell (sat_add64 (length ps) 1) (next_index c1)\<rparr>"
  have "rehydrate cell ?r timing_default
      \<lparr>rh_current_term = 1, rh_voted_for = v, rh_commit_index = length ps, rh_snapshot = snap,
       rh_log_tail = drop (snap_index snap) (history_log sha ps)\<rparr> = Inr c"
    unfolding rehydrate_def c0(1) result_bind_simps Let_def RehydratedCoreState.simps c1_def [symmetric] last
    by (simp add: c_def)
  moreover have "core_at sha ps c"
    using assms(1) snap c0(2) by (auto simp: core_at_def c_def c1_def snapshot_index_def)
  moreover have "snapshot_index c = snap_index snap" using snap by (simp add: c_def snapshot_index_def)
  ultimately show ?thesis by blast
qed

lemma single_reopen_ok:
  assumes "disk_at sha cell ps snap db" "history_ok ps" "cell \<noteq> 0" "history sha ps s" "verify_wal_header_if_present wal = Inr ()"
  shows "\<exists>n. single_open sha wal cell domain db = (Inr n, si_store n) \<and> single_ok sha cell ps n \<and> si_state_machine n = s"
proof -
  obtain db' where ld: "load_and_verify_all sha db = (Inr \<lparr>rec_core_state = \<lparr>rh_current_term = 1, rh_voted_for = Some cell,
      rh_commit_index = length ps, rh_snapshot = snap, rh_log_tail = drop (snap_index snap) (history_log sha ps)\<rparr>,
      rec_state_machine = s\<rparr>, db')" "disk_at sha cell ps snap db'"
    using load_disk [OF assms(1-4)] by blast
  obtain c where c: "rehydrate cell [\<lparr>cell_identity = cell, control_domain_id = domain\<rparr>] timing_default
      \<lparr>rh_current_term = 1, rh_voted_for = Some cell, rh_commit_index = length ps, rh_snapshot = snap,
       rh_log_tail = drop (snap_index snap) (history_log sha ps)\<rparr> = Inr c" "core_at sha ps c" "snapshot_index c = snap_index snap"
    using single_rehydrate [OF snap_index_le [OF assms(1)] assms(2)] by blast
  have "initialize_strict_schema sha db = db" using assms(1) by (simp add: initialize_strict_schema_def disk_at_def)
  then have "open_or_recover sha wal db = load_and_verify_all sha db" by (simp add: open_or_recover_def assms(5))
  then have "single_open sha wal cell domain db =
      (Inr \<lparr>si_store = db', si_core = c, si_state_machine = s, si_latest_durable_snapshot = snap\<rparr>, db')"
    by (simp add: single_open_def single_roster ld(1) c(1) Let_def del: One_nat_def)
  then show ?thesis using assms(2-4) ld(2) c(2,3) by (simp add: single_ok_def)
qed

lemma single_first_parts:
  "\<exists>n. single_open sha None cell domain empty_store = (Inr n, si_store n) \<and> si_state_machine n = sm_new \<and>
     si_latest_durable_snapshot n = None \<and> core_at sha [] (si_core n) \<and> snapshot_index (si_core n) = 0 \<and>
     disk_at sha cell [] None (si_store n)"
proof -
  let ?du = "\<lparr>du_term = 0, du_voted = None, du_commit = 0, du_snap = None, du_log = []\<rparr>"
  have "holds sha ?du (demo_store sha)"
    by (simp add: holds_def tables_hold_def log_rows_def demo_store_def initialize_strict_schema_def empty_store_def genesis_row_eq)
  moreover have "du_ok sha ?du" by (simp add: du_ok_def du_snap_index_def)
  ultimately have ld: "load_and_verify_all sha (demo_store sha) =
      (Inr \<lparr>rec_core_state = du_recovered ?du, rec_state_machine = sm_new\<rparr>, snd (load_and_verify_all sha (demo_store sha)))"
      "holds sha ?du (snd (load_and_verify_all sha (demo_store sha)))"
    using load_refines [of sha ?du "demo_store sha"] by (simp_all add: prod_eq_iff du_machine_def)
  define db1 where "db1 = snd (load_and_verify_all sha (demo_store sha))"
  have db1: "consensus_meta db1 = Some (hard_row sha 0 None 0)" "consensus_log db1 = []" "consensus_snapshot db1 = None"
    using ld(2) by (simp_all add: db1_def holds_def tables_hold_def log_rows_def)
  define db2 where "db2 = db1\<lparr>consensus_meta := Some (hard_row sha 1 (Some cell) 0)\<rparr>"
  have "read_and_verify_hard_state_conn sha db1 = Inr (0, None, 0)" by (simp add: read_hard_state_iff db1(1))
  moreover have "write_hard_state_tx sha 1 (Some cell) 0 db1 = Inr db2"
    by (simp add: write_hard_state_iff [OF db1(1)] hard_state_follows_def i64_max_def db2_def)
  ultimately have persist: "persist_hard_state sha 1 (Some cell) db1 = Inr db2" by (simp add: persist_hard_state_def)
  obtain c where c: "rehydrate cell [\<lparr>cell_identity = cell, control_domain_id = domain\<rparr>] timing_default
      \<lparr>rh_current_term = 1, rh_voted_for = Some cell, rh_commit_index = 0, rh_snapshot = None, rh_log_tail = []\<rparr> = Inr c"
      "core_at sha [] c" "snapshot_index c = 0"
    using single_rehydrate [of None "[]" cell domain "Some cell" sha]
    by (auto simp: snap_index_def history_ok_def history_log_def)
  have "open_or_recover sha None empty_store = (Inr \<lparr>rec_core_state = du_recovered ?du, rec_state_machine = sm_new\<rparr>, db1)"
    using ld(1) by (simp add: open_or_recover_def verify_wal_header_if_present_def db1_def demo_store_def)
  then have "single_open sha None cell domain empty_store =
      (Inr \<lparr>si_store = db2, si_core = c, si_state_machine = sm_new, si_latest_durable_snapshot = None\<rparr>, db2)"
    using c(1) by (simp add: single_open_def single_roster du_recovered_def persist Let_def del: One_nat_def)
  moreover have "disk_at sha cell [] None db2"
    by (simp add: disk_at_def db2_def db1(2,3) log_rows_def snap_index_def history_log_def)
  ultimately show ?thesis using c(2,3) by simp
qed

lemma single_first_open:
  assumes "cell \<noteq> 0"
  shows "\<exists>n. single_open sha None cell domain empty_store = (Inr n, si_store n) \<and> single_ok sha cell [] n"
  using single_first_parts [of sha cell domain] assms
  by (auto simp: single_ok_def history_ok_def history_def history_log_def snap_index_def)

end
