(* ===== verification/SingleNodeProps.thy ===== *)
theory SingleNodeProps
  imports SingleNodeInv
begin

text \<open>
  Properties of the single-host node over every history of its operations, and two failures: a
  proposal whose transaction is rolled back leaves a gap in the log that the next proposal makes
  durable, and a node whose cell is all zero bytes locks itself out of its own store.
\<close>

section \<open>Histories\<close>

definition single_init :: "sha256_fn \<Rightarrow> CellIdentity \<Rightarrow> ControlDomainId \<Rightarrow> ControlPlaneProposal list \<times> SingleHostInner \<Rightarrow> bool" where
  "single_init sha cell domain = (\<lambda>(ps, n). cell \<noteq> 0 \<and> ps = [] \<and>
     fst (single_open sha None cell domain empty_store) = Inr n)"

inductive single_op ::
  "sha256_fn \<Rightarrow> CellIdentity \<Rightarrow> ControlDomainId \<Rightarrow> ControlPlaneProposal list \<times> SingleHostInner \<Rightarrow>
   ControlPlaneProposal list \<times> SingleHostInner \<Rightarrow> bool"
  for sha cell domain where
  op_propose: "single_propose sha None p n = (Inr r, n') \<Longrightarrow> command_ok (command p) \<Longrightarrow> Suc (length ps) < 2 ^ 32 \<Longrightarrow>
     single_op sha cell domain (ps, n) (ps @ [p], n')"
| op_snapshot: "single_create_snapshot_only sha n = (res, n') \<Longrightarrow> single_op sha cell domain (ps, n) (ps, n')"
| op_compact: "single_compact_log_up_to k n = (cnt, n') \<Longrightarrow> single_op sha cell domain (ps, n) (ps, n')"
| op_snapshot_compact: "single_create_snapshot_and_compact sha n = (res, n') \<Longrightarrow>
     single_op sha cell domain (ps, n) (ps, n')"
| op_reopen: "verify_wal_header_if_present wal = Inr () \<Longrightarrow>
     single_open sha wal cell domain (si_store n) = (Inr n', db) \<Longrightarrow> single_op sha cell domain (ps, n) (ps, n')"

lemma single_okD:
  assumes "single_ok sha cell ps n"
  shows "cell \<noteq> 0" "history_ok ps" "history sha ps (si_state_machine n)" "core_at sha ps (si_core n)"
    "disk_at sha cell ps (si_latest_durable_snapshot n) (si_store n)"
    "snapshot_index (si_core n) \<le> snap_index (si_latest_durable_snapshot n)"
  using assms by (simp_all add: single_ok_def)

lemma create_snapshot_empty: "history sha [] s \<Longrightarrow> create_snapshot sha (unat (last_applied_index s)) (unat (last_applied_term s)) b db =
    (Inl (Refused (InvalidSnapshotBoundary ''snapshot included_index and included_term must be >= 1'')), db)"
  by (auto simp: history_def history_log_def create_snapshot_def sm_new_def)

lemma snapshot_only_ok:
  assumes "single_ok sha cell ps n" "single_create_snapshot_only sha n = (r, n')"
  shows "single_ok sha cell ps n'"
proof (cases "encode_snapshot sha (si_state_machine n)")
  case None
  then show ?thesis using assms by (simp add: single_create_snapshot_only_def)
next
  case (Some b)
  note n = single_okD [OF assms(1)]
  show ?thesis
  proof (cases "ps = []")
    case True
    then show ?thesis using assms Some create_snapshot_empty [of sha "si_state_machine n" b "si_store n"] n(3)
      by (auto simp: single_create_snapshot_only_def)
  next
    case False
    obtain m db where m: "create_snapshot sha (unat (last_applied_index (si_state_machine n))) (unat (last_applied_term (si_state_machine n))) b (si_store n) = (Inr m, db)"
        "included_index m = length ps" "disk_at sha cell ps (Some (m, b)) db"
      using create_snapshot_ok [OF n(5,1,3,2) Some False] by blast
    have "snapshot_index (si_core n) \<le> length ps" using n(6) snap_index_le [OF n(5)] by simp
    then show ?thesis
      using assms(2) Some m n by (auto simp: single_create_snapshot_only_def single_ok_def snap_index_def)
  qed
qed

lemma compact_op_ok:
  assumes "single_ok sha cell ps n" "single_compact_log_up_to k n = (r, n')"
  shows "single_ok sha cell ps n'"
proof (cases "compact_log_up_to k (si_store n)")
  case (Inl e)
  then show ?thesis using assms by (simp add: single_compact_log_up_to_def)
next
  case (Inr db)
  note n = single_okD [OF assms(1)]
  have db: "disk_at sha cell ps (si_latest_durable_snapshot n) db" by (rule compact_ok [OF n(5) Inr])
  show ?thesis
  proof (cases "si_latest_durable_snapshot n")
    case None
    then show ?thesis using assms(2) Inr db n by (auto simp: single_compact_log_up_to_def single_ok_def)
  next
    case (Some x)
    then obtain m b where mb: "si_latest_durable_snapshot n = Some (m, b)" by (cases x) simp
    have "snapshot_index (si_core n) \<le> included_index m" "included_index m \<le> length ps"
      using n(6) snap_index_le [OF n(5)] mb by (simp_all add: snap_index_def)
    note core = record_snapshot_ok [OF n(4) this, of b k]
    show ?thesis using assms(2) Inr db n core mb by (auto simp: single_compact_log_up_to_def single_ok_def snap_index_def)
  qed
qed

lemma snapshot_compact_ok:
  assumes "single_ok sha cell ps n" "single_create_snapshot_and_compact sha n = (r, n')"
  shows "single_ok sha cell ps n'"
proof (cases "encode_snapshot sha (si_state_machine n)")
  case None
  then show ?thesis using assms by (simp add: single_create_snapshot_and_compact_def)
next
  case (Some b)
  note n = single_okD [OF assms(1)]
  let ?i = "unat (last_applied_index (si_state_machine n))"
  show ?thesis
  proof (cases "ps = []")
    case True
    then show ?thesis using assms Some create_snapshot_empty [of sha "si_state_machine n" b "si_store n"] n(3)
      by (auto simp: single_create_snapshot_and_compact_def)
  next
    case False
    obtain m db where m: "create_snapshot sha ?i (unat (last_applied_term (si_state_machine n))) b (si_store n) = (Inr m, db)"
        "included_index m = length ps" "disk_at sha cell ps (Some (m, b)) db"
      using create_snapshot_ok [OF n(5,1,3,2) Some False] by blast
    have i: "?i = length ps" using history_machine_at [OF n(3,2)] by (simp add: machine_at_def)
    have le: "snapshot_index (si_core n) \<le> included_index m" "included_index m \<le> length ps"
      using n(6) snap_index_le [OF n(5)] m(2) by simp_all
    have "compact_log_up_to (length ps) db = delete_log_where (\<lambda>i. i \<le> int (length ps)) db"
      using False m(2) n(2) by (simp add: compact_log_up_to_def read_snapshot_disk [OF m(3)] u64_to_i64_def history_ok_def i64_max_def)
    moreover have "\<not> delete_protected db x" for x
      using m(2,3) by (simp add: delete_protected_def disk_at_def snapshot_cover_def snapshot_row_def)
    ultimately obtain db1 where c: "compact_log_up_to (length ps) db = Inr db1"
      by (simp add: delete_log_where_def list_ex_iff)
    show ?thesis
      using assms(2) Some m i c compact_ok [OF m(3) c] n(1-3) record_snapshot_ok [OF n(4) le, of b "length ps"]
      by (auto simp: single_create_snapshot_and_compact_def single_ok_def snap_index_def)
  qed
qed

lemma single_op_ok:
  assumes "single_op sha cell domain (ps, n) (ps', n')" "single_ok sha cell ps n"
  shows "single_ok sha cell ps' n'"
  using assms(1)
proof cases
  case (op_propose p r)
  have "history_ok (ps @ [p])" using op_propose single_okD(2) [OF assms(2)] by (simp add: history_ok_def)
  then show ?thesis using single_propose_ok [OF assms(2), of p] op_propose by auto
next
  case (op_reopen wal db)
  note n = single_okD [OF assms(2)]
  show ?thesis using single_reopen_ok [OF n(5,2,1,3) op_reopen(2), of domain] op_reopen by auto
qed (use assms(2) snapshot_only_ok compact_op_ok snapshot_compact_ok in blast)+

interpretation single: invariant_system "single_init sha cell domain" "single_op sha cell domain"
  "\<lambda>(ps, n). single_ok sha cell ps n" for sha cell domain
proof
  show "case s of (ps, n) \<Rightarrow> single_ok sha cell ps n" if "single_init sha cell domain s" for s
    using that single_first_open [of cell sha domain] by (auto simp: single_init_def)
  show "case t of (ps, n) \<Rightarrow> single_ok sha cell ps n"
    if "case s of (ps, n) \<Rightarrow> single_ok sha cell ps n" "single_op sha cell domain s t" for s t
    using that single_op_ok by (auto split: prod.splits)
qed

section \<open>Properties\<close>

text \<open>C4: The single-host node refines the list of its accepted proposals. After any history of
  proposals, snapshots, compactions and reopenings that starts in an empty directory, the state
  machine is the result of applying the accepted proposals in order, the commit index is their number,
  and a crash at this point loses nothing: reopening the directory succeeds and reads the same
  state, commit index and term. This is for histories shorter than \<open>2 ^ 32\<close> without failing
  transactions, a cell that is not all zero, and proposals whose IPv6 endpoint hints, if any, have no
  flow label and no scope id: the log rows and the snapshot do not hold these two, so a node that was
  given such a hint reads it back without them when it is reopened.\<close>

theorem single_node_refines:
  assumes "reach (single_init sha cell domain) (single_op sha cell domain) (ps, n)"
    "verify_wal_header_if_present wal = Inr ()"
  shows "replay_committed sha (length ps) (history_log sha ps) sm_new = Inr (si_state_machine n) \<and>
    commit_index (si_core n) = length ps \<and>
    (\<exists>n'. single_open sha wal cell domain (si_store n) = (Inr n', si_store n') \<and>
       single_read_state n' = single_read_state n)"
proof -
  have ok: "single_ok sha cell ps n" using single.inv_reach [OF assms(1)] by simp
  note n = single_okD [OF ok]
  obtain n' where n': "single_open sha wal cell domain (si_store n) = (Inr n', si_store n')" "single_ok sha cell ps n'"
      "si_state_machine n' = si_state_machine n"
    using single_reopen_ok [OF n(5,2,1,3) assms(2)] by blast
  have "single_read_state n' = single_read_state n"
    using n(4) single_okD(4) [OF n'(2)] n'(3) by (simp add: single_read_state_def core_at_def)
  then show ?thesis using n(3,4) n'(1) by (auto simp: history_def core_at_def)
qed

lemma single_reach_open:
  "\<exists>n. fst (single_open sha None 5 7 empty_store) = Inr n \<and> reach (single_init sha 5 7) (single_op sha 5 7) ([], n)"
proof -
  obtain n where "single_open sha None 5 7 empty_store = (Inr n, si_store n)"
    using single_first_open [of 5 sha 7] by auto
  then show ?thesis using reach_init [of "single_init sha 5 7" "([], n)"] by (auto simp: single_init_def)
qed

lemma single_reach_one:
  "\<exists>n. reach (single_init sha 5 7) (single_op sha 5 7) ([RaftExec.demo_proposal], n)"
proof -
  obtain n where n: "reach (single_init sha 5 7) (single_op sha 5 7) ([], n)" using single_reach_open by blast
  have ok: "single_ok sha 5 [] n" using single.inv_reach [OF n] by simp
  have p: "command_ok (command RaftExec.demo_proposal)" by (simp add: RaftExec.demo_proposal_def)
  then obtain r n' where "single_propose sha None RaftExec.demo_proposal n = (Inr r, n')"
    using single_propose_ok [OF ok, of RaftExec.demo_proposal] by (auto simp: history_ok_def)
  then have "single_op sha 5 7 ([], n) ([] @ [RaftExec.demo_proposal], n')" by (rule op_propose) (simp_all add: p)
  then show ?thesis using reach_step [OF n] by auto
qed

theorem single_node_refines_witness:
  "\<exists>n n'. commit_index (si_core n) = 1 \<and> single_open (\<lambda>_. 0) None 5 7 (si_store n) = (Inr n', si_store n') \<and>
     single_read_state n' = single_read_state n"
proof -
  obtain n where n: "reach (single_init (\<lambda>_. 0) 5 7) (single_op (\<lambda>_. 0) 5 7) ([RaftExec.demo_proposal], n)"
    using single_reach_one by blast
  show ?thesis using single_node_refines [OF n, of None] by (auto simp: verify_wal_header_if_present_def)
qed

text \<open>C28: Every proposal commits. In any such state a proposal gets a receipt, whose index is the next
  one and whose digest is the root of the state machine it leaves; the node never refuses it and no
  panic is reached. The cell is not all zero and the proposal's endpoint hint has no flow
  label or scope id. The hypothesis on the length keeps the table lengths within their 32 bits.\<close>

theorem single_propose_commits:
  assumes "reach (single_init sha cell domain) (single_op sha cell domain) (ps, n)"
    "command_ok (command p)" "Suc (length ps) < 2 ^ 32"
  shows "\<exists>r n'. single_propose sha None p n = (Inr r, n') \<and>
    reach (single_init sha cell domain) (single_op sha cell domain) (ps @ [p], n') \<and>
    unat (rc_consensus_commit_index r) = Suc (length ps) \<and>
    state_root_digest sha (si_state_machine n') = Some (rc_state_root_digest r)"
proof -
  have ok: "single_ok sha cell ps n" using single.inv_reach [OF assms(1)] by simp
  have "history_ok (ps @ [p])" using single_okD(2) [OF ok] assms(2,3) by (simp add: history_ok_def)
  then obtain r n' where r: "single_propose sha None p n = (Inr r, n')" "unat (rc_consensus_commit_index r) = Suc (length ps)"
      "state_root_digest sha (si_state_machine n') = Some (rc_state_root_digest r)"
    using single_propose_ok [OF ok, of p] by blast
  have "reach (single_init sha cell domain) (single_op sha cell domain) (ps @ [p], n')"
    by (rule reach_step [OF assms(1)]) (rule op_propose [OF r(1) assms(2,3)])
  then show ?thesis using r by blast
qed

theorem single_propose_commits_witness:
  "\<exists>n r n'. single_propose (\<lambda>_. 0) None RaftExec.demo_proposal n = (Inr r, n') \<and> unat (rc_consensus_commit_index r) = 2"
proof -
  obtain n where n: "reach (single_init (\<lambda>_. 0) 5 7) (single_op (\<lambda>_. 0) 5 7) ([RaftExec.demo_proposal], n)"
    using single_reach_one by blast
  have "command_ok (command RaftExec.demo_proposal)" by (simp add: RaftExec.demo_proposal_def)
  from single_propose_commits [OF n this] obtain r n' where
      "single_propose (\<lambda>_. 0) None RaftExec.demo_proposal n = (Inr r, n')" "unat (rc_consensus_commit_index r) = 2"
    by auto
  then show ?thesis by blast
qed

section \<open>Failures\<close>

lemma hydrate_gap:
  fixes p :: ControlPlaneProposal
  assumes "command_ok (command p)" "consensus_log db = log_rows [log_entry_new sha 2 1 p]" "consensus_snapshot db = None"
    "consensus_meta db = Some (hard_row sha 1 (Some cell) 2)" "cell \<noteq> 0"
  shows "fst (single_open sha None cell domain db) =
    Inl (Failed (StoreError (IntegrityCorrupted ''log tail does not start at snapshot_included + 1'')))"
proof -
  let ?e = "log_entry_new sha 2 1 p"
  have read: "read_and_verify_hard_state_conn sha db = Inr (1, Some cell, 2)" using assms(4,5) by (simp add: read_hard_state_iff)
  have snap: "load_snapshot sha db = Inr (sm_new, None, db)"
    using assms(3) by (simp add: load_snapshot_def read_snapshot_row_none)
  have "hydrate_rows sha (map snd (consensus_log db)) = Inr [?e]"
    unfolding hydrate_rows_iff using assms(1,2) by (simp add: log_rows_def storable_def)
  then have "load_tail sha 0 2 db = Inl (IntegrityCorrupted ''log tail does not start at snapshot_included + 1'')"
    by (simp add: load_tail_def Let_def sat_add64_def u64_max_def)
  then have "load_and_verify_all sha db = (Inl (Refused (IntegrityCorrupted ''log tail does not start at snapshot_included + 1'')), db)"
    by (simp add: load_and_verify_all_def read snap)
  moreover have "initialize_strict_schema sha db = db" using assms(4) by (simp add: initialize_strict_schema_def)
  ultimately show ?thesis
    by (simp add: single_open_def single_roster open_or_recover_def verify_wal_header_if_present_def)
qed

lemma propose_after_fault:
  assumes "single_ok sha cell [] n" "command_ok (command q)" "core_at sha [p] c"
  shows "\<exists>r n2. single_propose sha None q (n\<lparr>si_core := c\<rparr>) = (Inr r, n2) \<and> rc_consensus_commit_index r = 2 \<and>
    (consensus_snapshot (si_store n) = None \<longrightarrow>
     consensus_snapshot (si_store n2) = None \<and> consensus_log (si_store n2) = log_rows [log_entry_new sha 2 1 q] \<and>
     consensus_meta (si_store n2) = Some (hard_row sha 1 (Some cell) 2))"
proof -
  let ?e = "log_entry_new sha 2 1 q"
  note n = single_okD [OF assms(1)]
  have two: "Suc (length [p]) = 2" by simp
  obtain c' where c': "core_step sha c (Propose q None) = (c', [AppendLogEntries [?e], AdvanceCommitIndex 2 1 [?e]])"
    using core_at_propose [OF assms(3), of q, unfolded two] by auto
  have disk: "consensus_log (si_store n) = log_rows []" "consensus_meta (si_store n) = Some (hard_row sha 1 (Some cell) 0)"
    using n(5) by (auto simp: disk_at_def history_log_def)
  have fits: "entry_fits sha ?e" using assms(2) by (simp add: entry_fits_def storable_def i64_max_def)
  define db1 where "db1 = (si_store n)\<lparr>consensus_log := log_rows [?e]\<rparr>"
  have app: "append_entries_tx sha [?e] (si_store n) = Inr db1"
    using append_refines [of 2 "[]" "[?e]" sha "si_store n"] fits disk(1) by (simp add: db1_def del: append_entries_tx.simps)
  have meta: "consensus_meta db1 = Some (hard_row sha 1 (Some cell) 0)" by (simp add: db1_def disk(2))
  have "read_snapshot_row_conn db1 = read_snapshot_row_conn (si_store n)" by (simp add: read_snapshot_row_conn_def db1_def)
  then have cov: "verify_commit_bound_covered_tx 2 db1 = Inr ()"
    by (simp add: verify_commit_bound_covered_tx_def read_snapshot_disk [OF n(5)] db1_def log_rows_def Let_def)
  define db2 where "db2 = db1\<lparr>consensus_meta := Some (hard_row sha 1 (Some cell) 2)\<rparr>"
  have wr: "write_hard_state_tx sha 1 (Some cell) 2 db1 = Inr db2"
    by (simp add: write_hard_state_iff [OF meta] hard_state_follows_def i64_max_def db2_def)
  have tx: "effects_tx sha None [AppendLogEntries [?e], AdvanceCommitIndex 2 1 [?e]] (si_store n) = Inr db2"
    using app cov wr disk_read [OF n(5,1)]
    by (simp add: effects_tx_def flush_hard_state_def del: append_entries_tx.simps One_nat_def)
  have sm: "si_state_machine n = sm_new" using n(3) by (simp add: history_def history_log_def)
  obtain t out where t: "apply_committed_entry sha 2 1 q sm_new = Inr (t, out)"
    using apply_next [OF sm_inv_new, of 2 sha 1 q] by (auto simp: sm_new_def i64_max_def)
  have "tables_within 0 sm_new" by (simp add: tables_within_def sm_new_def)
  then have "tables_within 1 t" using apply_committed_entry_within [OF t] by simp
  then obtain root where root: "state_root_digest sha t = Some root" using tables_within_digest by fastforce
  have "apply_committed sha [?e] sm_new = (Inr [(?e, \<lparr>rc_consensus_commit_index = 2, rc_term = 1,
      rc_state_root_digest = root, rc_outcome = out\<rparr>)], t)"
    using t root by (simp add: sm_new_def)
  then have "single_propose sha None q (n\<lparr>si_core := c\<rparr>) =
      (Inr \<lparr>rc_consensus_commit_index = 2, rc_term = 1, rc_state_root_digest = root, rc_outcome = out\<rparr>,
       n\<lparr>si_core := c', si_store := db2, si_state_machine := t\<rparr>)"
    by (simp add: single_propose_def c' store_effects_def apply_durable_effects_def tx committed_of_def sm
        del: apply_committed.simps core_step.simps One_nat_def)
  then show ?thesis by (simp add: db2_def db1_def)
qed

text \<open>C29: A proposal whose transaction fails corrupts the node. The core advances its log and its commit
  index before the store is asked, and nothing takes that back when SQLite rolls the transaction
  back. The caller sees the error; the next proposal, at index 2, is accepted and gets a commit
  receipt, but its row is the first one on disk, so the directory can never be opened again.\<close>

theorem failed_proposal_leaves_gap:
  assumes "cell \<noteq> 0" "command_ok (command p)" "command_ok (command q)"
  shows "\<exists>n n1 n2 r. single_open sha None cell domain empty_store = (Inr n, si_store n) \<and>
    single_propose sha (Some fault) p n = (Inl (Failed (StoreError fault)), n1) \<and> si_store n1 = si_store n \<and>
    single_propose sha None q n1 = (Inr r, n2) \<and> rc_consensus_commit_index r = 2 \<and>
    fst (single_open sha None cell domain (si_store n2)) =
      Inl (Failed (StoreError (IntegrityCorrupted ''log tail does not start at snapshot_included + 1'')))"
proof -
  obtain n where n: "single_open sha None cell domain empty_store = (Inr n, si_store n)" "single_ok sha cell [] n"
    using single_first_open [OF assms(1)] by blast
  obtain c where c: "core_step sha (si_core n) (Propose p None) = (c, [AppendLogEntries [log_entry_new sha 1 1 p],
        AdvanceCommitIndex 1 1 [log_entry_new sha 1 1 p]])" "core_at sha [p] c"
    using core_at_propose [OF single_okD(4) [OF n(2)], of p] by auto
  have 1: "single_propose sha (Some fault) p n = (Inl (Failed (StoreError fault)), n\<lparr>si_core := c\<rparr>)"
    by (simp add: single_propose_def c(1) store_effects_def del: core_step.simps)
  have "si_latest_durable_snapshot n = None"
    using single_okD(5) [OF n(2)] by (cases "si_latest_durable_snapshot n") (auto simp: disk_at_def snap_ok_def snapshot_valid_def)
  then have none: "consensus_snapshot (si_store n) = None" using single_okD(5) [OF n(2)] by (simp add: disk_at_def)
  obtain r n2 where 2: "single_propose sha None q (n\<lparr>si_core := c\<rparr>) = (Inr r, n2)" "rc_consensus_commit_index r = 2"
      "consensus_snapshot (si_store n2) = None" "consensus_log (si_store n2) = log_rows [log_entry_new sha 2 1 q]"
      "consensus_meta (si_store n2) = Some (hard_row sha 1 (Some cell) 2)"
    using propose_after_fault [OF n(2) assms(3) c(2)] none by blast
  have "fst (single_open sha None cell domain (si_store n2)) =
      Inl (Failed (StoreError (IntegrityCorrupted ''log tail does not start at snapshot_included + 1'')))"
    by (rule hydrate_gap [OF assms(3) 2(4,3,5) assms(1)])
  then show ?thesis using n(1) 1 2(1,2) by (intro exI conjI) simp_all
qed

theorem failed_proposal_leaves_gap_witness:
  "\<exists>n n1 n2 r. single_propose (\<lambda>_. 0) (Some (Sqlite ''disk I/O error'')) RaftExec.demo_proposal n =
       (Inl (Failed (StoreError (Sqlite ''disk I/O error''))), n1) \<and>
     single_propose (\<lambda>_. 0) None RaftExec.demo_proposal n1 = (Inr r, n2) \<and>
     (\<exists>e. fst (single_open (\<lambda>_. 0) None 5 7 (si_store n2)) = Inl (Failed e))"
proof -
  have "(5 :: CellIdentity) \<noteq> 0" "command_ok (command RaftExec.demo_proposal)" by (simp_all add: RaftExec.demo_proposal_def)
  from failed_proposal_leaves_gap [OF this(1,2,2), of "\<lambda>_. 0" 7 "Sqlite ''disk I/O error''"]
  show ?thesis by blast
qed

lemma zero_vote_refused:
  assumes "consensus_meta db = Some (hard_row sha t (Some 0) k)"
  shows "read_and_verify_hard_state_conn sha db = Inl (IntegrityCorrupted ''all-zero voted_for'')"
proof -
  have b: "blob16 m (to_be (0 :: bytes16)) = Inr 0" for m by simp
  show ?thesis
    by (simp add: read_and_verify_hard_state_conn_def assms hard_row_def read_voted_for_def i64_to_u64_def b del: blob16_iff)
qed

text \<open>C30: A node whose cell is all zero bytes locks itself out. Nothing refuses such a cell when the node is
  opened in an empty directory: the vote for it is written, the node opens, every proposal is then
  refused because the vote cannot be read, and so is every later opening.\<close>

theorem zero_cell_locks_store:
  "\<exists>n. single_open sha None 0 domain empty_store = (Inr n, si_store n) \<and>
     (\<forall>p. fst (single_propose sha None p n) = Inl (Failed (StoreError (IntegrityCorrupted ''all-zero voted_for'')))) \<and>
     fst (single_open sha None 0 domain (si_store n)) = Inl (Failed (StoreError (IntegrityCorrupted ''all-zero voted_for'')))"
proof -
  obtain n where n: "single_open sha None 0 domain empty_store = (Inr n, si_store n)" "core_at sha [] (si_core n)"
      "disk_at sha 0 [] None (si_store n)"
    using single_first_parts by blast
  have read: "read_and_verify_hard_state_conn sha (si_store n) = Inl (IntegrityCorrupted ''all-zero voted_for'')"
    using n(3) by (intro zero_vote_refused) (simp add: disk_at_def)
  have "fst (single_propose sha None p n) = Inl (Failed (StoreError (IntegrityCorrupted ''all-zero voted_for'')))" for p
  proof -
    obtain c where "core_step sha (si_core n) (Propose p None) = (c, [AppendLogEntries [log_entry_new sha 1 1 p],
        AdvanceCommitIndex 1 1 [log_entry_new sha 1 1 p]])"
      using core_at_propose [OF n(2), of p] by auto
    then show ?thesis
      by (simp add: single_propose_def store_effects_def apply_durable_effects_def effects_tx_def read del: core_step.simps)
  qed
  moreover have "initialize_strict_schema sha (si_store n) = si_store n"
    using n(3) by (simp add: initialize_strict_schema_def disk_at_def)
  then have "fst (single_open sha None 0 domain (si_store n)) = Inl (Failed (StoreError (IntegrityCorrupted ''all-zero voted_for'')))"
    by (simp add: single_open_def single_roster open_or_recover_def verify_wal_header_if_present_def load_and_verify_all_def read)
  ultimately show ?thesis using n(1) by blast
qed

end
