(* ===== verification/RaftWire.thy ===== *)
theory RaftWire
  imports RaftCore CommandCodec
begin

text \<open>
  The message codec of \<open>nlos-consensus/src/net_driver.rs\<close>: \<open>encode_raft_message\<close> and
  \<open>decode_raft_message\<close> with their \<open>WireReader\<close>. The reader has the operations of the byte cursor with
  its own error type. Encoding is partial: \<open>None\<close> is the panic on a length that does not fit 32 bits.
  Each field satisfies the contract \<open>field_codec\<close>, and so does the whole message.
\<close>

section \<open>Model\<close>

datatype RaftWireCodecError =
    WireInvalidMagic
  | WireTruncated
  | WireTrailingBytes
  | WireInvalidField string
  | WireChecksumMismatch
  | WireScopeViolation ScopeViolationError

type_synonym 'a wire_reader = "(RaftWireCodecError, 'a) reader"

definition RAFT_WIRE_MAGIC :: "byte list" where
  "RAFT_WIRE_MAGIC = ascii ''NLOSRF01''"

definition u32_be :: "nat \<Rightarrow> byte list" where
  "u32_be n = to_be (of_nat n :: u32)"

definition encode_wire_entry :: "RaftLogEntry \<Rightarrow> byte list" where
  "encode_wire_entry e =
     (let body = encode_command_body (re_proposal e)
      in u64_be (re_index e) @ u64_be (re_term e) @ family_as_u8 (family_code (command (re_proposal e))) #
         to_be (idempotency_key (re_proposal e)) @ u32_be (length body) @ body @ to_be (re_entry_sha256 e))"

fun encode_raft_body :: "RaftMessage \<Rightarrow> byte list" where
  "encode_raft_body (RequestPreVote prospective candidate lli llt) =
     1 # u64_be prospective @ to_be candidate @ u64_be lli @ u64_be llt"
| "encode_raft_body (RequestPreVoteResponse t prospective voter granted) =
     2 # u64_be t @ u64_be prospective @ to_be voter @ [bool_u8 granted]"
| "encode_raft_body (RequestVote t candidate lli llt) =
     3 # u64_be t @ to_be candidate @ u64_be lli @ u64_be llt"
| "encode_raft_body (RequestVoteResponse t voter granted) =
     4 # u64_be t @ to_be voter @ [bool_u8 granted]"
| "encode_raft_body (AppendEntries t leader pli plt entries leader_commit round_id) =
     5 # u64_be t @ to_be leader @ u64_be pli @ u64_be plt @ u64_be leader_commit @ u64_be round_id @
     u32_be (length entries) @ concat (map encode_wire_entry entries)"
| "encode_raft_body (AppendEntriesResponse t follower success mi conflict_term conflict_index round_id) =
     6 # u64_be t @ to_be follower @ bool_u8 success # u64_be mi @ encode_opt u64_be conflict_term @
     u64_be conflict_index @ u64_be round_id"
| "encode_raft_body (InstallSnapshotChunk t leader ii it root sha256 total_len offset chunk fin) =
     7 # u64_be t @ to_be leader @ u64_be ii @ u64_be it @ to_be root @ to_be sha256 @ u64_be total_len @
     u64_be offset @ bool_u8 fin # u32_be (length chunk) @ chunk"
| "encode_raft_body (InstallSnapshotResponse t follower ii next_offset installed) =
     8 # u64_be t @ to_be follower @ u64_be ii @ u64_be next_offset @ [bool_u8 installed]"

text \<open>The three \<open>expect\<close>s on lengths.\<close>

fun wire_lengths_fit :: "RaftMessage \<Rightarrow> bool" where
  "wire_lengths_fit (AppendEntries t leader pli plt entries leader_commit round_id) =
     (length entries < 2 ^ 32 \<and>
      list_all (\<lambda>e. length (encode_command_body (re_proposal e)) < 2 ^ 32) entries)"
| "wire_lengths_fit (InstallSnapshotChunk t leader ii it root sha256 total_len offset chunk fin) =
     (length chunk < 2 ^ 32)"
| "wire_lengths_fit _ = True"

definition encode_raft_message :: "sha256_fn \<Rightarrow> RaftMessage \<Rightarrow> byte list option" where
  "encode_raft_message sha m =
     (if wire_lengths_fit m
      then let out = RAFT_WIRE_MAGIC @ encode_raft_body m in Some (out @ to_be (sha out))
      else None)"

definition wire_slice :: "nat \<Rightarrow> byte list wire_reader" where
  "wire_slice len = read_slice_or WireTruncated len"

definition wire_u8 :: "byte wire_reader" where
  "wire_u8 = rbind (wire_slice 1) (\<lambda>s. rret (hd s))"

definition wire_bool :: "bool wire_reader" where
  "wire_bool = rbind wire_u8 (\<lambda>b. if b = 0 then rret False else if b = 1 then rret True
     else rfail (WireInvalidField ''bool''))"

definition wire_u32 :: "nat wire_reader" where
  "wire_u32 = rbind (wire_slice 4) (\<lambda>s. rret (unat (from_be s :: u32)))"

definition wire_u64 :: "nat wire_reader" where
  "wire_u64 = rbind (wire_slice 8) (\<lambda>s. rret (unat (from_be s :: u64)))"

definition wire_16 :: "bytes16 wire_reader" where
  "wire_16 = rbind (wire_slice 16) (\<lambda>s. rret (from_be s))"

definition wire_32 :: "bytes32 wire_reader" where
  "wire_32 = rbind (wire_slice 32) (\<lambda>s. rret (from_be s))"

definition wire_cell :: "CellIdentity wire_reader" where
  "wire_cell = rbind wire_16 (\<lambda>c. if c = 0 then rfail (WireInvalidField ''zero CellIdentity'') else rret c)"

definition wire_conflict_term :: "ConsensusTerm option wire_reader" where
  "wire_conflict_term = rbind wire_u8 (\<lambda>flag. if flag = 0 then rret None
     else if flag = 1 then rbind wire_u64 (\<lambda>ct. rret (Some ct))
     else rfail (WireInvalidField ''conflict_term flag''))"

definition wire_entry :: "sha256_fn \<Rightarrow> RaftLogEntry wire_reader" where
  "wire_entry sha =
     rbind wire_u64 (\<lambda>index. rbind wire_u64 (\<lambda>trm. rbind wire_u8 (\<lambda>raw_family.
     case from_wire_tag raw_family of
       Inl r \<Rightarrow> rfail (WireScopeViolation (ScopeRejectDataPlanePayload r))
     | Inr family \<Rightarrow>
         rbind wire_16 (\<lambda>key. rbind wire_u32 (\<lambda>body_len. rbind (wire_slice body_len) (\<lambda>body.
         rbind wire_32 (\<lambda>entry_sha256.
           if entry_sha256 \<noteq> compute_log_entry_sha256 sha index trm (family_as_u8 family) key body
           then rfail WireChecksumMismatch
           else case decode_command_body family key body of
               Inl e \<Rightarrow> rfail (WireScopeViolation e)
             | Inr p \<Rightarrow> rret \<lparr>re_index = index, re_term = trm, re_proposal = p,
                 re_entry_sha256 = entry_sha256\<rparr>)))))))"

fun wire_entries :: "sha256_fn \<Rightarrow> nat \<Rightarrow> RaftLogEntry list wire_reader" where
  "wire_entries sha 0 = rret []"
| "wire_entries sha (Suc n) = rbind (wire_entry sha) (\<lambda>e. rbind (wire_entries sha n) (\<lambda>es. rret (e # es)))"

definition decode_raft_body :: "sha256_fn \<Rightarrow> byte \<Rightarrow> RaftMessage wire_reader" where
  "decode_raft_body sha tag =
     (if tag = 1 then
        rbind wire_u64 (\<lambda>prospective. rbind wire_cell (\<lambda>candidate. rbind wire_u64 (\<lambda>lli. rbind wire_u64 (\<lambda>llt.
        rret (RequestPreVote prospective candidate lli llt)))))
      else if tag = 2 then
        rbind wire_u64 (\<lambda>t. rbind wire_u64 (\<lambda>prospective. rbind wire_cell (\<lambda>voter. rbind wire_bool (\<lambda>granted.
        rret (RequestPreVoteResponse t prospective voter granted)))))
      else if tag = 3 then
        rbind wire_u64 (\<lambda>t. rbind wire_cell (\<lambda>candidate. rbind wire_u64 (\<lambda>lli. rbind wire_u64 (\<lambda>llt.
        rret (RequestVote t candidate lli llt)))))
      else if tag = 4 then
        rbind wire_u64 (\<lambda>t. rbind wire_cell (\<lambda>voter. rbind wire_bool (\<lambda>granted.
        rret (RequestVoteResponse t voter granted))))
      else if tag = 5 then
        rbind wire_u64 (\<lambda>t. rbind wire_cell (\<lambda>leader. rbind wire_u64 (\<lambda>pli. rbind wire_u64 (\<lambda>plt.
        rbind wire_u64 (\<lambda>leader_commit. rbind wire_u64 (\<lambda>round_id. rbind wire_u32 (\<lambda>count.
          if count > 4096 then rfail (WireInvalidField ''AppendEntries count > 4096'')
          else rbind (wire_entries sha count) (\<lambda>entries.
            rret (AppendEntries t leader pli plt entries leader_commit round_id)))))))))
      else if tag = 6 then
        rbind wire_u64 (\<lambda>t. rbind wire_cell (\<lambda>follower. rbind wire_bool (\<lambda>success. rbind wire_u64 (\<lambda>mi.
        rbind wire_conflict_term (\<lambda>conflict_term. rbind wire_u64 (\<lambda>conflict_index. rbind wire_u64 (\<lambda>round_id.
        rret (AppendEntriesResponse t follower success mi conflict_term conflict_index round_id))))))))
      else if tag = 7 then
        rbind wire_u64 (\<lambda>t. rbind wire_cell (\<lambda>leader. rbind wire_u64 (\<lambda>ii. rbind wire_u64 (\<lambda>it.
        rbind wire_32 (\<lambda>root. rbind wire_32 (\<lambda>sha256. rbind wire_u64 (\<lambda>total_len. rbind wire_u64 (\<lambda>offset.
        rbind wire_bool (\<lambda>fin. rbind wire_u32 (\<lambda>chunk_len. rbind (wire_slice chunk_len) (\<lambda>chunk.
        rret (InstallSnapshotChunk t leader ii it root sha256 total_len offset chunk fin))))))))))))
      else if tag = 8 then
        rbind wire_u64 (\<lambda>t. rbind wire_cell (\<lambda>follower. rbind wire_u64 (\<lambda>ii. rbind wire_u64 (\<lambda>next_offset.
        rbind wire_bool (\<lambda>installed. rret (InstallSnapshotResponse t follower ii next_offset installed))))))
      else rfail (WireInvalidField ''unknown RaftMessage tag''))"

definition decode_raft_message :: "sha256_fn \<Rightarrow> byte list \<Rightarrow> (RaftWireCodecError, RaftMessage) result" where
  "decode_raft_message sha bytes =
     (if length bytes < 8 + 1 + 32 then Inl WireTruncated
      else if take 8 bytes \<noteq> RAFT_WIRE_MAGIC then Inl WireInvalidMagic
      else
        let payload_end = length bytes - 32
        in if drop payload_end bytes \<noteq> to_be (sha (take payload_end bytes)) then Inl WireChecksumMismatch
           else case rbind wire_u8 (decode_raft_body sha) (cursor_new (drop 8 (take payload_end bytes))) of
               Inl e \<Rightarrow> Inl e
             | Inr (msg, cur) \<Rightarrow> if \<not> cursor_is_empty cur then Inl WireTrailingBytes else Inr msg)"

section \<open>Field codecs\<close>

lemma wire_u8_codec: "field_codec (\<lambda>b. [b]) wire_u8 (\<lambda>_. True)"
proof
  show "wire_u8 (cursor_at pre ([x] @ rest)) = Inr (x, cursor_at (pre @ [x]) rest)" for x pre rest
    by (simp add: wire_u8_def wire_slice_def rbind_def)
  show "True \<and> (\<exists>rest. bs = [x] @ rest \<and> c = cursor_at (pre @ [x]) rest)"
    if "wire_u8 (cursor_at pre bs) = Inr (x, c)" for pre bs x c
    using that by (cases bs) (auto simp: wire_u8_def wire_slice_def rbind_def split: if_splits)
qed

lemma nat_codec:
  assumes "LENGTH('a::len) = 8 * n"
  shows "field_codec (\<lambda>k. to_be (of_nat k :: 'a word)) (rbind (read_slice_or e n) (\<lambda>s. rret (unat (from_be s :: 'a word))))
    (\<lambda>k. k < 2 ^ LENGTH('a))"
proof -
  have un: "unat (of_nat k :: 'a word) = k" if "k < 2 ^ LENGTH('a)" for k
    using that by (simp add: unsigned_of_nat take_bit_nat_eq_self)
  have alt: "rbind (read_slice_or e n) (\<lambda>s. rret (unat (from_be s :: 'a word))) =
      rbind (rbind (read_slice_or e n) (\<lambda>s. rret (from_be s :: 'a word))) (\<lambda>w. rret (unat w))"
    by (simp only: rbind_assoc rbind_rret)
  note bind = readable.bind_enc [OF field_codec.axioms(1) [OF be_codec [OF assms]]]
    and canon = field_codec.bindE [OF be_codec [OF assms]]
  show ?thesis
    unfolding alt by unfold_locales (auto simp: bind un elim!: canon)
qed

interpretation w8: field_codec "\<lambda>b. [b]" wire_u8 "\<lambda>_. True"
  by (rule wire_u8_codec)

interpretation w32: field_codec u32_be wire_u32 "\<lambda>k. k < 2 ^ 32"
proof -
  have "u32_be = (\<lambda>k. to_be (of_nat k :: u32))" by (rule ext) (simp add: u32_be_def)
  then show "field_codec u32_be wire_u32 (\<lambda>k. k < 2 ^ 32)"
    using nat_codec [where 'a = 32 and n = 4 and e = WireTruncated] by (simp add: wire_u32_def wire_slice_def)
qed

interpretation w64: field_codec u64_be wire_u64 "\<lambda>k. k \<le> u64_max"
proof -
  have "u64_be = (\<lambda>k. to_be (of_nat k :: u64))" by (rule ext) (simp add: u64_be_def)
  moreover have "(\<lambda>k. k \<le> u64_max) = (\<lambda>k. k < 2 ^ 64)" by (rule ext) (auto simp: u64_max_def)
  ultimately show "field_codec u64_be wire_u64 (\<lambda>k. k \<le> u64_max)"
    using nat_codec [where 'a = 64 and n = 8 and e = WireTruncated] by (simp add: wire_u64_def wire_slice_def)
qed

interpretation w16: field_codec to_be wire_16 "\<lambda>_. True"
  unfolding wire_16_def wire_slice_def by (rule be_codec) simp

interpretation w256: field_codec to_be wire_32 "\<lambda>_. True"
  unfolding wire_32_def wire_slice_def by (rule be_codec) simp

interpretation wcell: field_codec to_be wire_cell "\<lambda>c. c \<noteq> 0"
  unfolding wire_cell_def by (rule nonzero_codec [OF w16.field_codec_axioms])

interpretation wbool: field_codec "\<lambda>b. [bool_u8 b]" wire_bool "\<lambda>_. True"
  unfolding wire_bool_def
  by unfold_locales (auto simp: w8.bind_enc [simplified] bool_u8_def split: if_splits elim!: w8.bindE)

interpretation wconflict: field_codec "encode_opt u64_be" wire_conflict_term "pred_option (\<lambda>k. k \<le> u64_max)"
  unfolding wire_conflict_term_def
  by unfold_locales
    (auto simp: encode_opt_def w8.bind_enc [simplified] w64.bind_enc split: option.splits if_splits elim!: w8.bindE w64.bindE)

lemma wire_slice_bind:
  "rbind (wire_slice (length b)) f (cursor_at pre (b @ rest)) = f b (cursor_at (pre @ b) rest)"
  "rbind (wire_slice (length b)) f (cursor_at pre b) = f b (cursor_at (pre @ b) [])"
  by (simp_all add: wire_slice_def rbind_def)

lemma wire_slice_bindE:
  assumes "rbind (wire_slice n) f (cursor_at pre bs) = Inr r"
  obtains b rest where "length b = n" "bs = b @ rest" "f b (cursor_at (pre @ b) rest) = Inr r"
proof -
  have "n \<le> length bs" and f: "f (take n bs) (cursor_at (pre @ take n bs) (drop n bs)) = Inr r"
    using assms by (auto simp: wire_slice_def rbind_def split: if_splits)
  then show ?thesis using that [of "take n bs" "drop n bs"] by simp
qed

lemmas wire_bind =
  w8.bind_enc [simplified] w8.bind_enc_end [simplified] w32.bind_enc w32.bind_enc_end w64.bind_enc w64.bind_enc_end
  w16.bind_enc w16.bind_enc_end w256.bind_enc w256.bind_enc_end wcell.bind_enc wcell.bind_enc_end
  wbool.bind_enc [simplified] wbool.bind_enc_end [simplified] wconflict.bind_enc wire_slice_bind

lemmas wire_canonE =
  w8.bindE w32.bindE w64.bindE w16.bindE w256.bindE wcell.bindE wbool.bindE wconflict.bindE wire_slice_bindE

section \<open>Entries and messages\<close>

definition wire_entry_ok :: "sha256_fn \<Rightarrow> RaftLogEntry \<Rightarrow> bool" where
  "wire_entry_ok sha e \<longleftrightarrow> re_index e \<le> u64_max \<and> re_term e \<le> u64_max \<and>
     command_ok (command (re_proposal e)) \<and> verify_integrity sha e"

lemma body_fits: "length (encode_command_body p) < 2 ^ 32"
  using length_encode_command_body [of p] by simp

interpretation wentry: field_codec encode_wire_entry "wire_entry sha" "wire_entry_ok sha" for sha
proof
  fix e pre rest
  assume ok: "wire_entry_ok sha e"
  let ?p = "re_proposal e"
  have "from_wire_tag (family_as_u8 (family_code (command ?p))) = Inr (family_code (command ?p))"
    by (simp add: from_wire_tag_iff)
  moreover have "decode_command_body (family_code (command ?p)) (idempotency_key ?p) (encode_command_body ?p) = Inr ?p"
    using ok by (simp add: decode_command_body_iff wire_entry_ok_def)
  ultimately show "wire_entry sha (cursor_at pre (encode_wire_entry e @ rest)) =
      Inr (e, cursor_at (pre @ encode_wire_entry e) rest)"
    using ok body_fits [of ?p]
    by (simp add: wire_entry_def encode_wire_entry_def Let_def wire_bind wire_entry_ok_def verify_integrity_def
        proposal_entry_sha256_def)
next
  fix pre bs e c
  assume "wire_entry sha (cursor_at pre bs) = Inr (e, c)"
  then show "wire_entry_ok sha e \<and> (\<exists>rest. bs = encode_wire_entry e @ rest \<and> c = cursor_at (pre @ encode_wire_entry e) rest)"
    unfolding wire_entry_def
    by (auto simp: from_wire_tag_iff decode_command_body_iff encode_wire_entry_def Let_def wire_entry_ok_def
        verify_integrity_def proposal_entry_sha256_def split: sum.splits if_splits elim!: wire_canonE)
qed

interpretation wentries: field_codec "\<lambda>es. concat (map encode_wire_entry es)" "wire_entries sha n"
  "\<lambda>es. length es = n \<and> list_all (wire_entry_ok sha) es" for sha n
proof
  fix es pre rest
  assume "length es = n \<and> list_all (wire_entry_ok sha) es"
  then show "wire_entries sha n (cursor_at pre (concat (map encode_wire_entry es) @ rest)) =
      Inr (es, cursor_at (pre @ concat (map encode_wire_entry es)) rest)"
    by (induction es arbitrary: n pre) (auto simp: wentry.bind_enc)
next
  fix pre bs es c
  assume "wire_entries sha n (cursor_at pre bs) = Inr (es, c)"
  then show "(length es = n \<and> list_all (wire_entry_ok sha) es) \<and>
      (\<exists>rest. bs = concat (map encode_wire_entry es) @ rest \<and> c = cursor_at (pre @ concat (map encode_wire_entry es)) rest)"
  proof (induction n arbitrary: es pre bs c)
    case (Suc n)
    from Suc.prems obtain e rest where e: "wire_entry_ok sha e" "bs = encode_wire_entry e @ rest"
        "rbind (wire_entries sha n) (\<lambda>es. rret (e # es)) (cursor_at (pre @ encode_wire_entry e) rest) = Inr (es, c)"
      by (auto elim!: wentry.bindE)
    then obtain es' where "wire_entries sha n (cursor_at (pre @ encode_wire_entry e) rest) = Inr (es', c)" "es = e # es'"
      by (auto simp: rbind_eq_Inr)
    with Suc.IH [OF this(1)] e show ?case by auto
  qed simp
qed

text \<open>What a frame can carry: 64-bit numbers, a cell that is not zero, at most 4096 intact entries.\<close>

fun wire_message_ok :: "sha256_fn \<Rightarrow> RaftMessage \<Rightarrow> bool" where
  "wire_message_ok sha (RequestPreVote a c lli llt) = (a \<le> u64_max \<and> c \<noteq> 0 \<and> lli \<le> u64_max \<and> llt \<le> u64_max)"
| "wire_message_ok sha (RequestPreVoteResponse t a v g) = (t \<le> u64_max \<and> a \<le> u64_max \<and> v \<noteq> 0)"
| "wire_message_ok sha (RequestVote t c lli llt) = (t \<le> u64_max \<and> c \<noteq> 0 \<and> lli \<le> u64_max \<and> llt \<le> u64_max)"
| "wire_message_ok sha (RequestVoteResponse t v g) = (t \<le> u64_max \<and> v \<noteq> 0)"
| "wire_message_ok sha (AppendEntries t l pli plt es lc r) = (t \<le> u64_max \<and> l \<noteq> 0 \<and> pli \<le> u64_max \<and>
     plt \<le> u64_max \<and> lc \<le> u64_max \<and> r \<le> u64_max \<and> length es \<le> 4096 \<and> list_all (wire_entry_ok sha) es)"
| "wire_message_ok sha (AppendEntriesResponse t f s mi ct ci r) = (t \<le> u64_max \<and> f \<noteq> 0 \<and> mi \<le> u64_max \<and>
     pred_option (\<lambda>k. k \<le> u64_max) ct \<and> ci \<le> u64_max \<and> r \<le> u64_max)"
| "wire_message_ok sha (InstallSnapshotChunk t l ii it root h total_len off chunk fin) = (t \<le> u64_max \<and> l \<noteq> 0 \<and>
     ii \<le> u64_max \<and> it \<le> u64_max \<and> total_len \<le> u64_max \<and> off \<le> u64_max \<and> length chunk < 2 ^ 32)"
| "wire_message_ok sha (InstallSnapshotResponse t f ii off i) = (t \<le> u64_max \<and> f \<noteq> 0 \<and> ii \<le> u64_max \<and> off \<le> u64_max)"

interpretation wmessage: field_codec encode_raft_body "rbind wire_u8 (decode_raft_body sha)" "wire_message_ok sha" for sha
proof
  fix m pre rest
  assume "wire_message_ok sha m"
  then show "rbind wire_u8 (decode_raft_body sha) (cursor_at pre (encode_raft_body m @ rest)) =
      Inr (m, cursor_at (pre @ encode_raft_body m) rest)"
    by (cases m) (simp_all add: wire_bind decode_raft_body_def wentries.bind_enc)
next
  fix pre bs m c
  assume "rbind wire_u8 (decode_raft_body sha) (cursor_at pre bs) = Inr (m, c)"
  then show "wire_message_ok sha m \<and> (\<exists>rest. bs = encode_raft_body m @ rest \<and> c = cursor_at (pre @ encode_raft_body m) rest)"
    by (auto simp: decode_raft_body_def split: if_splits elim!: wire_canonE wentries.bindE)
qed

section \<open>Frames\<close>

lemma length_RAFT_WIRE_MAGIC [simp]: "length RAFT_WIRE_MAGIC = 8"
  by (simp add: RAFT_WIRE_MAGIC_def ascii_def)

lemma encode_raft_body_nonempty: "Suc 0 \<le> length (encode_raft_body m)"
  by (cases m) simp_all

lemma wire_message_fits: "wire_message_ok sha m \<Longrightarrow> wire_lengths_fit m"
  using body_fits by (cases m) (simp_all add: list_all_iff)

lemma decode_frame:
  assumes "encode_raft_message sha m = Some bytes"
  shows "decode_raft_message sha bytes =
    (case rbind wire_u8 (decode_raft_body sha) (cursor_at [] (encode_raft_body m)) of
       Inl e \<Rightarrow> Inl e
     | Inr (msg, cur) \<Rightarrow> if \<not> cursor_is_empty cur then Inl WireTrailingBytes else Inr msg)"
proof -
  define out where "out = RAFT_WIRE_MAGIC @ encode_raft_body m"
  have bytes: "bytes = out @ to_be (sha out)"
    using assms by (simp add: encode_raft_message_def out_def Let_def split: if_splits)
  have "9 \<le> length out" "take 8 out = RAFT_WIRE_MAGIC" "drop 8 out = encode_raft_body m"
    using encode_raft_body_nonempty [of m] by (simp_all add: out_def)
  then show ?thesis by (simp add: decode_raft_message_def bytes Let_def cursor_new_at)
qed

lemma decode_raft_message_canonical:
  assumes "decode_raft_message sha bytes = Inr m"
  shows "wire_message_ok sha m \<and> encode_raft_message sha m = Some bytes"
proof -
  define pe where "pe = length bytes - 32"
  define out where "out = take pe bytes"
  obtain cur where long: "41 \<le> length bytes" and magic: "take 8 bytes = RAFT_WIRE_MAGIC"
    and sum: "drop pe bytes = to_be (sha out)"
    and dec: "rbind wire_u8 (decode_raft_body sha) (cursor_at [] (drop 8 out)) = Inr (m, cur)" "cursor_is_empty cur"
    using assms by (auto simp: decode_raft_message_def Let_def pe_def out_def cursor_new_at split: if_splits sum.splits)
  obtain rest where ok: "wire_message_ok sha m" "drop 8 out = encode_raft_body m @ rest"
      "cur = cursor_at ([] @ encode_raft_body m) rest"
    using wmessage.rd_canonicalE [OF dec(1)] by metis
  have "take 8 out = RAFT_WIRE_MAGIC" using magic long by (simp add: out_def pe_def)
  then have "out = RAFT_WIRE_MAGIC @ drop 8 out" by (metis append_take_drop_id)
  then have "out = RAFT_WIRE_MAGIC @ encode_raft_body m" using ok(2,3) dec(2) by simp
  moreover have "bytes = out @ to_be (sha out)" by (metis append_take_drop_id out_def sum)
  ultimately show ?thesis using ok(1) wire_message_fits [OF ok(1)] by (simp add: encode_raft_message_def Let_def)
qed

text \<open>C31: The message codec is exact. A frame decodes to a message precisely when it is the encoding of
  that message, bit for bit, and the message can be carried: numbers of 64 bits, a sender that is not
  the all-zero cell, at most 4096 log entries, each intact and with a well-formed command.\<close>

theorem decode_raft_message_exact:
  "decode_raft_message sha bytes = Inr m \<longleftrightarrow> wire_message_ok sha m \<and> encode_raft_message sha m = Some bytes"
proof
  assume h: "wire_message_ok sha m \<and> encode_raft_message sha m = Some bytes"
  then show "decode_raft_message sha bytes = Inr m"
    using decode_frame [of sha m bytes] wmessage.rd_enc_end [of sha m "[]"] by simp
qed (rule decode_raft_message_canonical)

end
