(* ===== verification/Driver.thy ===== *)
theory Driver
  imports RaftWire SingleNode
begin

text \<open>
  The multi-host driver of \<open>nlos-consensus/src/net_driver.rs\<close> around the core: the shared engine, its
  step with the transaction before any message or receipt is released, the RPC handler, the folding of
  an outbound batch, opening and local snapshots. A client waiting for an answer is a number, the
  identity of its channel; an answer is a \<open>Delivery\<close>. Channels to the peers are the list of messages
  handed to them. Tasks, sockets, TLS and timeouts are not modelled. As in \<open>SingleNode\<close>, a fault is the error
  with which SQLite rolls a transaction back.
\<close>

section \<open>Timing\<close>

definition sat_mul32 :: "nat \<Rightarrow> nat \<Rightarrow> nat" where
  "sat_mul32 a b = min (a * b) u32_max"

fun position :: "('a \<Rightarrow> bool) \<Rightarrow> 'a list \<Rightarrow> nat option" where
  "position P [] = None"
| "position P (x # xs) = (if P x then Some 0 else map_option Suc (position P xs))"

definition staggered_timing_for_roster :: "CellIdentity \<Rightarrow> ValidatedVoterRoster \<Rightarrow> ConsensusTimingConfig" where
  "staggered_timing_for_roster local r =
     (let rank = (case position (\<lambda>m. cell_identity m = local) r of Some k \<Rightarrow> k | None \<Rightarrow> 0);
          rank32 = (if rank \<le> u32_max then rank else 0)
      in \<lparr>heartbeat_interval_ticks = 2, leader_lease_ticks = 6,
          election_timeout_ticks = sat_add32 12 (sat_mul32 rank32 6),
          max_snapshot_chunk_bytes = 16 * 1024\<rparr>)"

section \<open>Engine\<close>

fun store_error_text :: "ConsensusStoreError \<Rightarrow> string" where
  "store_error_text (DurabilityUnavailable msg) = ''[DUR-FAILCLOSED-001] durability unavailable: '' @ msg"
| "store_error_text (IntegrityCorrupted msg) = ''[DUR-FAILCLOSED-001] consensus store integrity corrupted: '' @ msg"
| "store_error_text (InvalidSnapshotBoundary msg) = ''[DUR-SNAP-001] invalid snapshot/compaction boundary: '' @ msg"
| "store_error_text (Io msg) = ''consensus store I/O error: '' @ msg"
| "store_error_text (Sqlite msg) = ''consensus store SQLite error: '' @ msg"

record PendingProposalWaiter =
  pw_term :: ConsensusTerm
  pw_tx :: nat

record PendingReadWaiter =
  prw_round_id :: "nat option"
  prw_tx :: nat

record DriverSyncState =
  ds_store :: SqliteConsensusStore
  ds_core :: ConsensusCore
  ds_state_machine :: ControlPlaneStateMachine
  ds_pending_proposals :: "(LogIndex, PendingProposalWaiter) btree"
  ds_pending_reads :: "(nat, PendingReadWaiter) btree"
  ds_sticky_fatal_error :: "string option"

record SharedEngine =
  eng_sync :: DriverSyncState
  eng_peers :: "CellIdentity list"
  eng_next_read_id :: nat
  eng_shutting_down :: bool

datatype Delivery =
    ProposalReply nat "(ConsensusError, ConsensusCommitReceipt) result"
  | ReadReply nat "(ConsensusError, LogIndex \<times> ConsensusTerm) result"

definition reject_proposal ::
  "PendingProposalWaiter \<Rightarrow> ConsensusTerm \<Rightarrow> ConsensusTerm \<Rightarrow> CellIdentity option \<Rightarrow> Delivery" where
  "reject_proposal w attempted current leader =
     ProposalReply (pw_tx w) (Inl (ProposalRejectedError (StaleLeaderTerm attempted current leader)))"

fun is_response_message :: "RaftMessage \<Rightarrow> bool" where
  "is_response_message (RequestPreVoteResponse _ _ _ _) = True"
| "is_response_message (RequestVoteResponse _ _ _) = True"
| "is_response_message (AppendEntriesResponse _ _ _ _ _ _ _) = True"
| "is_response_message (InstallSnapshotResponse _ _ _ _ _) = True"
| "is_response_message _ = False"

definition immediate_rejection :: "ConsensusEffect list \<Rightarrow> ProposalRejectReason option" where
  "immediate_rejection effects =
     List.find (\<lambda>_. True) (concat (map (\<lambda>eff. case eff of ProposalRejected None reason \<Rightarrow> [reason] | _ \<Rightarrow> []) effects))"

text \<open>The first non-empty append of the step carries the proposal.\<close>

definition first_appended :: "ConsensusEffect list \<Rightarrow> RaftLogEntry option" where
  "first_appended effects =
     List.find (\<lambda>_. True) (concat (map (\<lambda>eff. case eff of AppendLogEntries (e # _) \<Rightarrow> [e] | _ \<Rightarrow> []) effects))"

definition register_proposal :: "nat option \<Rightarrow> ConsensusEffect list \<Rightarrow> DriverSyncState \<Rightarrow> DriverSyncState \<times> Delivery list" where
  "register_proposal waiter effects ds =
     (case (waiter, first_appended effects) of
        (Some tx, Some e) \<Rightarrow>
          (ds\<lparr>ds_pending_proposals := bt_insert (re_index e) \<lparr>pw_term = re_term e, pw_tx = tx\<rparr> (ds_pending_proposals ds)\<rparr>,
           (case bt_get (ds_pending_proposals ds) (re_index e) of
              Some displaced \<Rightarrow> [reject_proposal displaced (pw_term displaced) (current_term (ds_core ds))
                (known_leader (ds_core ds))]
            | None \<Rightarrow> []))
      | _ \<Rightarrow> (ds, []))"

definition round_of_effects :: "ConsensusEffect list \<Rightarrow> nat option" where
  "round_of_effects effects =
     List.find (\<lambda>_. True) (concat (map (\<lambda>eff. case eff of
         SendMessage _ (AppendEntries _ _ _ _ _ _ round_id) \<Rightarrow> [round_id] | _ \<Rightarrow> []) effects))"

definition register_read :: "(nat \<times> nat) option \<Rightarrow> ConsensusEffect list \<Rightarrow> DriverSyncState \<Rightarrow> DriverSyncState" where
  "register_read waiter effects ds =
     (case waiter of
        None \<Rightarrow> ds
      | Some (rid, tx) \<Rightarrow> ds\<lparr>ds_pending_reads := bt_insert rid
          \<lparr>prw_round_id = round_of_effects effects, prw_tx = tx\<rparr> (ds_pending_reads ds)\<rparr>)"

fun settle_effect :: "ConsensusEffect \<Rightarrow> DriverSyncState \<Rightarrow> DriverSyncState \<times> Delivery list" where
  "settle_effect (TruncateLogSuffixFrom from_index) ds =
     (ds\<lparr>ds_pending_proposals := filter (\<lambda>(i, _). i < from_index) (ds_pending_proposals ds)\<rparr>,
      map (\<lambda>(_, w). reject_proposal w (pw_term w) (current_term (ds_core ds)) (known_leader (ds_core ds)))
        (filter (\<lambda>(i, _). i \<ge> from_index) (ds_pending_proposals ds)))"
| "settle_effect (LeaderSteppedDown aborted_term new_term) ds =
     (ds\<lparr>ds_pending_proposals := []\<rparr>,
      map (\<lambda>(_, w). reject_proposal w (min (pw_term w) aborted_term) new_term (known_leader (ds_core ds)))
        (ds_pending_proposals ds))"
| "settle_effect (ProposalRejected (Some rid) reason) ds =
     (case bt_get (ds_pending_reads ds) rid of
        None \<Rightarrow> (ds, [])
      | Some w \<Rightarrow> (ds\<lparr>ds_pending_reads := bt_remove rid (ds_pending_reads ds)\<rparr>,
          [ReadReply (prw_tx w) (Inl (ProposalRejectedError reason))]))"
| "settle_effect (LinearizableReadConfirmed rid confirmed_term commit) ds =
     (case bt_get (ds_pending_reads ds) rid of
        None \<Rightarrow> (ds, [])
      | Some w \<Rightarrow> (ds\<lparr>ds_pending_reads := bt_remove rid (ds_pending_reads ds)\<rparr>,
          [ReadReply (prw_tx w) (Inr (commit, confirmed_term))]))"
| "settle_effect _ ds = (ds, [])"

fun settle_effects :: "ConsensusEffect list \<Rightarrow> DriverSyncState \<Rightarrow> DriverSyncState \<times> Delivery list" where
  "settle_effects [] ds = (ds, [])"
| "settle_effects (eff # effects) ds =
     (let (ds1, out1) = settle_effect eff ds; (ds2, out2) = settle_effects effects ds1 in (ds2, out1 @ out2))"

fun deliver_receipts :: "receipts \<Rightarrow> DriverSyncState \<Rightarrow> DriverSyncState \<times> Delivery list" where
  "deliver_receipts [] ds = (ds, [])"
| "deliver_receipts ((entry, receipt) # rest) ds =
     (case bt_get (ds_pending_proposals ds) (re_index entry) of
        None \<Rightarrow> deliver_receipts rest ds
      | Some w \<Rightarrow>
          let ds1 = ds\<lparr>ds_pending_proposals := bt_remove (re_index entry) (ds_pending_proposals ds)\<rparr>;
              answer = (if pw_term w = re_term entry then ProposalReply (pw_tx w) (Inr receipt)
                else reject_proposal w (pw_term w) (re_term entry) (known_leader (ds_core ds)));
              (ds2, out) = deliver_receipts rest ds1
          in (ds2, answer # out))"

text \<open>The first response to the direct peer is the reply; every other message goes out.\<close>

fun split_messages :: "CellIdentity option \<Rightarrow> ConsensusEffect list \<Rightarrow> RaftMessage option \<times> (CellIdentity \<times> RaftMessage) list" where
  "split_messages peer [] = (None, [])"
| "split_messages peer (SendMessage target message # effects) =
     (if peer = Some target \<and> is_response_message message
      then (Some message, snd (split_messages None effects))
      else let (reply, out) = split_messages peer effects in (reply, (target, message) # out))"
| "split_messages peer (_ # effects) = split_messages peer effects"

definition step_and_persist ::
  "sha256_fn \<Rightarrow> ConsensusStoreError option \<Rightarrow> ConsensusInput \<Rightarrow> CellIdentity option \<Rightarrow> nat option \<Rightarrow>
   (nat \<times> nat) option \<Rightarrow> SharedEngine \<Rightarrow>
   RaftMessage option node_result \<times> SharedEngine \<times> Delivery list \<times> (CellIdentity \<times> RaftMessage) list" where
  "step_and_persist sha fault input direct_reply_peer proposal_waiter read_waiter eng =
     (let ds = eng_sync eng in
      case ds_sticky_fatal_error ds of
        Some fatal \<Rightarrow> (Inl (Failed (DriverFatal fatal)), eng, [], [])
      | None \<Rightarrow>
          let (core, effects) = core_step sha (ds_core ds) input;
              ds1 = ds\<lparr>ds_core := core\<rparr>
          in (case immediate_rejection effects of
                Some reason \<Rightarrow>
                  (Inr None, eng\<lparr>eng_sync := ds1\<rparr>,
                   (case proposal_waiter of Some tx \<Rightarrow> [ProposalReply tx (Inl (ProposalRejectedError reason))] | None \<Rightarrow> []), [])
              | None \<Rightarrow>
                  let (ds2, displaced) = register_proposal proposal_waiter effects ds1;
                      ds3 = register_read read_waiter effects ds2;
                      (res, db, sm) = store_effects sha fault effects (ds_store ds3) (ds_state_machine ds3);
                      ds4 = ds3\<lparr>ds_store := db, ds_state_machine := sm\<rparr>
                  in (case res of
                        Inl (Refused err) \<Rightarrow>
                          (Inl (Failed (StoreError err)),
                           eng\<lparr>eng_sync := ds4\<lparr>ds_sticky_fatal_error := Some (store_error_text err)\<rparr>\<rparr>, displaced, [])
                      | Inl f \<Rightarrow> (Inl (Panicked f), eng\<lparr>eng_sync := ds4\<rparr>, displaced, [])
                      | Inr receipts \<Rightarrow>
                          let (ds5, settled) = settle_effects effects ds4;
                              (ds6, answers) = deliver_receipts receipts ds5;
                              (reply, outbound) = split_messages direct_reply_peer effects
                          in (Inr reply, eng\<lparr>eng_sync := ds6\<rparr>, displaced @ settled @ answers,
                              if eng_shutting_down eng then []
                              else filter (\<lambda>(target, _). target \<in> set (eng_peers eng)) outbound))))"

section \<open>Outbound batches\<close>

fun outbound_message_term :: "RaftMessage \<Rightarrow> ConsensusTerm" where
  "outbound_message_term (RequestPreVote prospective _ _ _) = prospective"
| "outbound_message_term (RequestPreVoteResponse t _ _ _) = t"
| "outbound_message_term (RequestVote t _ _ _) = t"
| "outbound_message_term (RequestVoteResponse t _ _) = t"
| "outbound_message_term (AppendEntries t _ _ _ _ _ _) = t"
| "outbound_message_term (AppendEntriesResponse t _ _ _ _ _ _) = t"
| "outbound_message_term (InstallSnapshotChunk t _ _ _ _ _ _ _ _ _) = t"
| "outbound_message_term (InstallSnapshotResponse t _ _ _ _) = t"

text \<open>The loop runs over the reversed batch; \<open>later\<close> is the largest term of a replication message seen so
  far, that is, later in the batch, and \<open>kept\<close> the messages kept so far, in batch order.\<close>

fun drop_superseded :: "nat list \<Rightarrow> RaftMessage list \<Rightarrow> ConsensusTerm option \<Rightarrow> RaftMessage list \<Rightarrow> RaftMessage list" where
  "drop_superseded rounds [] later kept = kept"
| "drop_superseded rounds (msg # rest) later kept =
     (case msg of
        AppendEntries t _ _ _ entries _ round_id \<Rightarrow>
          if entries = [] \<and> round_id \<notin> set rounds \<and> (case later of Some l \<Rightarrow> l \<ge> t | None \<Rightarrow> False)
          then drop_superseded rounds rest later kept
          else drop_superseded rounds rest (Some (case later of None \<Rightarrow> t | Some l \<Rightarrow> max l t)) (msg # kept)
      | InstallSnapshotChunk t _ _ _ _ _ _ _ _ _ \<Rightarrow>
          drop_superseded rounds rest (Some (case later of None \<Rightarrow> t | Some l \<Rightarrow> max l t)) (msg # kept)
      | _ \<Rightarrow> drop_superseded rounds rest later (msg # kept))"

definition coalesce_outbound_peer_batch :: "RaftMessage list \<Rightarrow> ConsensusTerm \<Rightarrow> nat list \<Rightarrow> RaftMessage list" where
  "coalesce_outbound_peer_batch raw_batch local_current_term active_read_rounds =
     remdups_adj (drop_superseded active_read_rounds
       (rev (filter (\<lambda>m. outbound_message_term m \<ge> local_current_term) raw_batch)) None [])"

definition snapshot_coalesce_state :: "SharedEngine \<Rightarrow> ConsensusTerm \<times> nat list" where
  "snapshot_coalesce_state eng =
     (current_term (ds_core (eng_sync eng)),
      List.map_filter (\<lambda>(_, w). prw_round_id w) (ds_pending_reads (eng_sync eng)))"

text \<open>The worker of a peer checks the term again before each send, and steps the engine with the reply.\<close>

definition send_gate :: "SharedEngine \<Rightarrow> RaftMessage \<Rightarrow> bool" where
  "send_gate eng msg = (\<not> eng_shutting_down eng \<and> \<not> outbound_message_term msg < current_term (ds_core (eng_sync eng)))"

definition handle_reply ::
  "sha256_fn \<Rightarrow> ConsensusStoreError option \<Rightarrow> CellIdentity \<Rightarrow> byte list \<Rightarrow> SharedEngine \<Rightarrow>
   SharedEngine \<times> Delivery list \<times> (CellIdentity \<times> RaftMessage) list" where
  "handle_reply sha fault target payload eng =
     (if payload = [] then (eng, [], [])
      else case decode_raft_message sha payload of
        Inl _ \<Rightarrow> (eng, [], [])
      | Inr reply_msg \<Rightarrow> snd (step_and_persist sha fault (ReceiveMessage target reply_msg) None None None eng))"

section \<open>Requests\<close>

datatype RpcWireStatus = RpcOk | PreExecutionUnavailable

text \<open>The reply to an incoming request from an authenticated peer: its status and payload. \<open>None\<close> is a panic
  of the encoder or of the step.\<close>

definition handle_rpc ::
  "sha256_fn \<Rightarrow> ConsensusStoreError option \<Rightarrow> CellIdentity \<Rightarrow> byte list \<Rightarrow> SharedEngine \<Rightarrow>
   (RpcWireStatus \<times> byte list) option \<times> SharedEngine \<times> Delivery list \<times> (CellIdentity \<times> RaftMessage) list" where
  "handle_rpc sha fault authenticated_from payload eng =
     (if eng_shutting_down eng then (Some (PreExecutionUnavailable, []), eng, [], [])
      else case decode_raft_message sha payload of
        Inl _ \<Rightarrow> (Some (PreExecutionUnavailable, []), eng, [], [])
      | Inr message \<Rightarrow>
          (case step_and_persist sha fault (ReceiveMessage authenticated_from message) (Some authenticated_from) None None eng of
             (Inr (Some reply_msg), eng1, out, sends) \<Rightarrow>
               (map_option (\<lambda>bytes. (RpcOk, bytes)) (encode_raft_message sha reply_msg), eng1, out, sends)
           | (Inr None, eng1, out, sends) \<Rightarrow> (Some (RpcOk, []), eng1, out, sends)
           | (Inl (Failed _), eng1, out, sends) \<Rightarrow> (Some (PreExecutionUnavailable, []), eng1, out, sends)
           | (Inl _, eng1, out, sends) \<Rightarrow> (None, eng1, out, sends)))"

definition propose_fenced ::
  "sha256_fn \<Rightarrow> ConsensusStoreError option \<Rightarrow> ControlPlaneProposal \<Rightarrow> ConsensusTerm option \<Rightarrow> nat \<Rightarrow> SharedEngine \<Rightarrow>
   RaftMessage option node_result \<times> SharedEngine \<times> Delivery list \<times> (CellIdentity \<times> RaftMessage) list" where
  "propose_fenced sha fault p expected_leader_term tx eng =
     step_and_persist sha fault (Propose p expected_leader_term) None (Some tx) None eng"

definition driver_propose_wire ::
  "sha256_fn \<Rightarrow> ConsensusStoreError option \<Rightarrow> byte list \<Rightarrow> nat \<Rightarrow> SharedEngine \<Rightarrow>
   RaftMessage option node_result \<times> SharedEngine \<times> Delivery list \<times> (CellIdentity \<times> RaftMessage) list" where
  "driver_propose_wire sha fault bytes tx eng =
     (case decode_wire sha bytes of
        Inl e \<Rightarrow> (Inl (Failed (ScopeViolation e)), eng, [], [])
      | Inr p \<Rightarrow> propose_fenced sha fault p None tx eng)"

definition linearizable_read ::
  "sha256_fn \<Rightarrow> ConsensusStoreError option \<Rightarrow> ConsensusTerm option \<Rightarrow> nat \<Rightarrow> SharedEngine \<Rightarrow>
   RaftMessage option node_result \<times> SharedEngine \<times> Delivery list \<times> (CellIdentity \<times> RaftMessage) list" where
  "linearizable_read sha fault expected_leader_term tx eng =
     (let read_id = eng_next_read_id eng
      in step_and_persist sha fault (RequestLinearizableRead read_id expected_leader_term) None None (Some (read_id, tx))
           (eng\<lparr>eng_next_read_id := (read_id + 1) mod 2 ^ 64\<rparr>))"

text \<open>A read whose wait ends without an answer gives up its place.\<close>

definition read_abandoned :: "nat \<Rightarrow> SharedEngine \<Rightarrow> SharedEngine" where
  "read_abandoned read_id eng = eng\<lparr>eng_sync := (eng_sync eng)
     \<lparr>ds_pending_reads := bt_remove read_id (ds_pending_reads (eng_sync eng))\<rparr>\<rparr>"

definition driver_create_snapshot_and_compact ::
  "sha256_fn \<Rightarrow> SharedEngine \<Rightarrow> SnapshotMetadata node_result \<times> SharedEngine" where
  "driver_create_snapshot_and_compact sha eng =
     (let ds = eng_sync eng;
          included = unat (last_applied_index (ds_state_machine ds));
          trm = unat (last_applied_term (ds_state_machine ds))
      in case encode_snapshot sha (ds_state_machine ds) of
           None \<Rightarrow> (Inl SnapshotPanicked, eng)
         | Some bytes \<Rightarrow>
             (case create_snapshot sha included trm bytes (ds_store ds) of
                (Inl f, db) \<Rightarrow> (Inl (node_failure f), eng\<lparr>eng_sync := ds\<lparr>ds_store := db\<rparr>\<rparr>)
              | (Inr meta, db) \<Rightarrow>
                  (case compact_log_up_to included db of
                     Inl e \<Rightarrow> (Inl (Failed (StoreError e)), eng\<lparr>eng_sync := ds\<lparr>ds_store := db\<rparr>\<rparr>)
                   | Inr db1 \<Rightarrow>
                       (Inr meta, eng\<lparr>eng_sync := ds\<lparr>ds_store := db1,
                          ds_core := fst (record_local_snapshot meta bytes included (ds_core ds))\<rparr>\<rparr>))))"

definition driver_shutdown :: "SharedEngine \<Rightarrow> SharedEngine \<times> Delivery list" where
  "driver_shutdown eng =
     (let ds = eng_sync eng
      in (eng\<lparr>eng_shutting_down := True, eng_sync := ds\<lparr>ds_pending_proposals := [], ds_pending_reads := []\<rparr>\<rparr>,
          map (\<lambda>(_, w). ProposalReply (pw_tx w) (Inl NodeShutDown)) (ds_pending_proposals ds) @
          map (\<lambda>(_, w). ReadReply (prw_tx w) (Inl NodeShutDown)) (ds_pending_reads ds)))"

text \<open>The engine that \<open>bind_and_start\<close> builds before it binds its sockets.\<close>

definition engine_open ::
  "sha256_fn \<Rightarrow> byte list option \<Rightarrow> CellIdentity \<Rightarrow> ValidatedVoterRoster \<Rightarrow> ConsensusTimingConfig option \<Rightarrow>
   SqliteConsensusStore \<Rightarrow> SharedEngine node_result \<times> SqliteConsensusStore" where
  "engine_open sha wal local_cell r timing_opt db =
     (if length r < 3 then (Inl (Failed (Config UnsupportedTwoNodeQuorum)), db)
      else case timing_validate (case timing_opt of Some t \<Rightarrow> t | None \<Rightarrow> staggered_timing_for_roster local_cell r) of
        Inl e \<Rightarrow> (Inl (Failed (Config e)), db)
      | Inr tm \<Rightarrow>
          (case open_or_recover sha wal db of
             (Inl f, db1) \<Rightarrow> (Inl (node_failure f), db1)
           | (Inr recovered, db1) \<Rightarrow>
               (case rehydrate local_cell r tm (rec_core_state recovered) of
                  Inl e \<Rightarrow> (Inl (Failed (Config e)), db1)
                | Inr core \<Rightarrow>
                    (Inr \<lparr>eng_sync = \<lparr>ds_store = db1, ds_core = core, ds_state_machine = rec_state_machine recovered,
                         ds_pending_proposals = [], ds_pending_reads = [], ds_sticky_fatal_error = None\<rparr>,
                       eng_peers = filter (\<lambda>c. c \<noteq> local_cell) (map cell_identity r),
                       eng_next_read_id = 1, eng_shutting_down = False\<rparr>, db1))))"

end
