(* ===== verification/DriverProps.thy ===== *)
theory DriverProps
  imports Driver SingleNodeInv "HOL-Library.Sublist"
begin

text \<open>
  Properties of the driver that do not need the cluster: the staggered timeouts, the folding of an
  outbound batch, and the bound on the entries of one append message.
\<close>

section \<open>Timing\<close>

lemma position_Some: "position P xs = Some k \<Longrightarrow> k < length xs \<and> P (xs ! k)"
  by (induction xs arbitrary: k) (auto split: if_splits)

lemma position_exists: "x \<in> set xs \<Longrightarrow> P x \<Longrightarrow> \<exists>k. position P xs = Some k"
  by (induction xs) auto

lemma staggered_rank:
  assumes "position (\<lambda>m. cell_identity m = a) r = Some k" "length r \<le> 715827881"
  shows "election_timeout_ticks (staggered_timing_for_roster a r) = 12 + 6 * k"
proof -
  have "k \<le> 715827880" using position_Some [OF assms(1)] assms(2) by simp
  then show ?thesis
    using assms(1) by (simp add: staggered_timing_for_roster_def sat_add32_def sat_mul32_def u32_max_def Let_def)
qed

text \<open>C32: The staggered timing is always accepted by the validation of timing bounds, and in a roster with
  distinct cells, of any size that the 32-bit tick counter can stagger, the election timeouts of two
  members differ by at least six ticks, the length of a leader lease.\<close>

theorem staggered_timing_distinct:
  assumes "distinct (map cell_identity r)" "length r \<le> 715827881"
    "a \<in> cell_identity ` set r" "b \<in> cell_identity ` set r" "a \<noteq> b"
  shows "timing_validate (staggered_timing_for_roster a r) = Inr (staggered_timing_for_roster a r) \<and>
    election_timeout_ticks (staggered_timing_for_roster a r) \<le> u32_max \<and>
    (election_timeout_ticks (staggered_timing_for_roster a r) + 6 \<le> election_timeout_ticks (staggered_timing_for_roster b r) \<or>
     election_timeout_ticks (staggered_timing_for_roster b r) + 6 \<le> election_timeout_ticks (staggered_timing_for_roster a r))"
proof -
  obtain ka kb where k: "position (\<lambda>m. cell_identity m = a) r = Some ka" "position (\<lambda>m. cell_identity m = b) r = Some kb"
    using assms(3,4) position_exists by (metis (mono_tags, lifting) imageE)
  have "ka \<noteq> kb" using position_Some [OF k(1)] position_Some [OF k(2)] assms(5) by auto
  then have "12 + 6 * ka + 6 \<le> 12 + 6 * kb \<or> 12 + 6 * kb + 6 \<le> 12 + 6 * ka" by linarith
  moreover have "timing_validate (staggered_timing_for_roster a r) = Inr (staggered_timing_for_roster a r)"
    by (simp add: timing_validate_def staggered_timing_for_roster_def sat_add32_def sat_mul32_def u32_max_def Let_def)
  moreover have "election_timeout_ticks (staggered_timing_for_roster a r) \<le> u32_max"
    by (simp add: staggered_timing_for_roster_def sat_add32_def Let_def)
  ultimately show ?thesis using staggered_rank [OF k(1) assms(2)] staggered_rank [OF k(2) assms(2)] by simp
qed

theorem staggered_timing_distinct_witness:
  "election_timeout_ticks (staggered_timing_for_roster 1 demo_roster) + 6 \<le>
     election_timeout_ticks (staggered_timing_for_roster 2 demo_roster) \<or>
   election_timeout_ticks (staggered_timing_for_roster 2 demo_roster) + 6 \<le>
     election_timeout_ticks (staggered_timing_for_roster 1 demo_roster)"
  using staggered_timing_distinct [of demo_roster 1 2] by (simp add: demo_roster_def)

section \<open>Outbound batches\<close>

fun repl_term :: "RaftMessage \<Rightarrow> ConsensusTerm option" where
  "repl_term (AppendEntries t _ _ _ _ _ _) = Some t"
| "repl_term (InstallSnapshotChunk t _ _ _ _ _ _ _ _ _) = Some t"
| "repl_term _ = None"

fun droppable :: "nat list \<Rightarrow> RaftMessage \<Rightarrow> bool" where
  "droppable rounds (AppendEntries _ _ _ _ entries _ round_id) = (entries = [] \<and> round_id \<notin> set rounds)"
| "droppable rounds _ = False"

definition later_max :: "ConsensusTerm option \<Rightarrow> RaftMessage \<Rightarrow> ConsensusTerm option" where
  "later_max later msg = (case repl_term msg of None \<Rightarrow> later | Some t \<Rightarrow> Some (case later of None \<Rightarrow> t | Some l \<Rightarrow> max l t))"

definition superseded :: "nat list \<Rightarrow> ConsensusTerm option \<Rightarrow> RaftMessage \<Rightarrow> bool" where
  "superseded rounds later msg = (droppable rounds msg \<and> (\<exists>l. later = Some l \<and> outbound_message_term msg \<le> l))"

lemma drop_superseded_Cons:
  "drop_superseded rounds (msg # rest) later kept =
     (if superseded rounds later msg then drop_superseded rounds rest later kept
      else drop_superseded rounds rest (later_max later msg) (msg # kept))"
  by (cases msg) (auto simp: superseded_def later_max_def split: option.splits)

declare drop_superseded.simps(2) [simp del]

lemma drop_superseded_acc: "drop_superseded rounds ms later kept = drop_superseded rounds ms later [] @ kept"
proof (induction ms arbitrary: later kept)
  case (Cons m ms)
  show ?case
    using Cons.IH [of "later_max later m" "m # kept"] Cons.IH [of "later_max later m" "[m]"] Cons.IH [of later kept]
    by (simp add: drop_superseded_Cons)
qed simp

lemma drop_superseded_subseq: "subseq (drop_superseded rounds ms later []) (rev ms)"
proof (induction ms arbitrary: later)
  case (Cons m ms)
  have "subseq (drop_superseded rounds ms l [] @ [m]) (rev ms @ [m])" for l
    by (rule list_emb_append_mono [OF Cons.IH]) simp
  moreover have "subseq (drop_superseded rounds ms later []) (rev ms @ [m])"
    using Cons.IH [of later] by (rule list_emb_prefix)
  ultimately show ?case
    using drop_superseded_acc [of rounds ms "later_max later m" "[m]"] by (simp add: drop_superseded_Cons)
qed simp

lemma subseq_in: "subseq xs ys \<Longrightarrow> x \<in> set xs \<Longrightarrow> x \<in> set ys"
  by (induction rule: list_emb.induct) auto

lemma remdups_adj_subseq: "subseq (remdups_adj xs) xs"
  by (induction xs rule: remdups_adj.induct) (auto intro: subseq_Cons')

lemma filter_eq_appendD:
  "filter P xs = as @ b # bs \<Longrightarrow> \<exists>us vs. xs = us @ b # vs \<and> filter P us = as \<and> filter P vs = bs"
proof (induction xs arbitrary: as)
  case (Cons x xs)
  show ?case
  proof (cases "P x \<and> as = []")
    case True
    then show ?thesis using Cons.prems by (intro exI [of _ "[]"] exI [of _ xs]) simp
  next
    case False
    then obtain as' where as': "filter P xs = as' @ b # bs" "as = (if P x then x # as' else as')"
      using Cons.prems by (cases as) (auto split: if_splits)
    obtain us vs where "xs = us @ b # vs \<and> filter P us = as' \<and> filter P vs = bs" using Cons.IH [OF as'(1)] by blast
    then show ?thesis using as'(2) by (intro exI [of _ "x # us"] exI [of _ vs]) simp
  qed
qed simp

text \<open>A message that is dropped is a heartbeat with a later replication message of at least its term.\<close>

lemma dropped_superseded:
  assumes "m \<in> set ms" "m \<notin> set (drop_superseded rounds ms later [])"
  shows "droppable rounds m \<and> ((\<exists>l. later = Some l \<and> outbound_message_term m \<le> l) \<or>
    (\<exists>xs ys m' t. ms = xs @ m # ys \<and> m' \<in> set xs \<and> repl_term m' = Some t \<and> outbound_message_term m \<le> t))"
  using assms
proof (induction ms arbitrary: later)
  case (Cons a ms)
  show ?case
  proof (cases "superseded rounds later a")
    case True
    have out: "drop_superseded rounds (a # ms) later [] = drop_superseded rounds ms later []"
      using True by (simp add: drop_superseded_Cons)
    show ?thesis
    proof (cases "m = a")
      case True
      then show ?thesis using \<open>superseded rounds later a\<close> by (simp add: superseded_def)
    next
      case False
      then have "m \<in> set ms" "m \<notin> set (drop_superseded rounds ms later [])" using Cons.prems out by simp_all
      from Cons.IH [OF this] show ?thesis by (metis append_Cons list.set_intros(2))
    qed
  next
    case False
    then have out: "drop_superseded rounds (a # ms) later [] = drop_superseded rounds ms (later_max later a) [] @ [a]"
      using drop_superseded_acc [of rounds ms "later_max later a" "[a]"] by (simp add: drop_superseded_Cons)
    then have m: "m \<in> set ms" "m \<notin> set (drop_superseded rounds ms (later_max later a) [])" "m \<noteq> a"
      using Cons.prems by auto
    have drop: "droppable rounds m" using Cons.IH [OF m(1,2)] by blast
    consider (later) l where "later_max later a = Some l" "outbound_message_term m \<le> l"
      | (inside) xs ys m' t where "ms = xs @ m # ys" "m' \<in> set xs" "repl_term m' = Some t" "outbound_message_term m \<le> t"
      using Cons.IH [OF m(1,2)] by blast
    then show ?thesis
    proof cases
      case later
      obtain xs ys where ms: "a # ms = (a # xs) @ m # ys" using split_list [OF m(1)] by auto
      show ?thesis
        using later drop ms by (cases "repl_term a") (fastforce simp: later_max_def max_def split: option.splits if_splits)+
    next
      case inside
      then have "a # ms = (a # xs) @ m # ys" "m' \<in> set (a # xs)" by simp_all
      then show ?thesis using inside(3,4) drop by blast
    qed
  qed
qed simp

text \<open>C33: Folding an outbound batch loses nothing that matters. The result is a subsequence of the batch
  without adjacent repetitions; a message of the local term or above that is missing from it is an
  empty heartbeat that backs no pending read, and a replication message of at least its term comes
  after it in the batch.\<close>

theorem coalesce_keeps:
  assumes "out = coalesce_outbound_peer_batch batch t rounds"
  shows "subseq out batch \<and> distinct_adj out \<and> (\<forall>m\<in>set out. t \<le> outbound_message_term m) \<and>
    (\<forall>m\<in>set batch. t \<le> outbound_message_term m \<longrightarrow> m \<notin> set out \<longrightarrow> droppable rounds m \<and>
       (\<exists>xs ys m' t'. batch = xs @ m # ys \<and> m' \<in> set ys \<and> repl_term m' = Some t' \<and> outbound_message_term m \<le> t'))"
proof -
  let ?cur = "filter (\<lambda>m. t \<le> outbound_message_term m) batch"
  let ?kept = "drop_superseded rounds (rev ?cur) None []"
  have out: "out = remdups_adj ?kept" using assms by (simp add: coalesce_outbound_peer_batch_def)
  have sub: "subseq ?kept ?cur" using drop_superseded_subseq [of rounds "rev ?cur" None] by simp
  have sub': "subseq out batch"
    unfolding out by (rule subseq_order.order_trans [OF subseq_order.order_trans [OF remdups_adj_subseq sub] subseq_filter_left])
  have "m \<in> set ?cur" if "m \<in> set out" for m
    using subseq_in [OF sub, of m] that unfolding out by simp
  then have "t \<le> outbound_message_term m" if "m \<in> set out" for m using that by simp
  moreover have "droppable rounds m \<and> (\<exists>xs ys m' t'. batch = xs @ m # ys \<and> m' \<in> set ys \<and> repl_term m' = Some t' \<and>
      outbound_message_term m \<le> t')"
    if m: "m \<in> set batch" "t \<le> outbound_message_term m" "m \<notin> set out" for m
  proof -
    define ms where "ms = rev ?cur"
    have "m \<in> set ms" "m \<notin> set (drop_superseded rounds ms None [])" using m by (simp_all add: out ms_def)
    from dropped_superseded [OF this] obtain xs ys m' t' where d: "droppable rounds m" "ms = xs @ m # ys"
        "m' \<in> set xs" "repl_term m' = Some t'" "outbound_message_term m \<le> t'" by auto
    have "rev (rev ?cur) = rev (xs @ m # ys)" by (simp only: d(2) [unfolded ms_def])
    then have "?cur = rev ys @ m # rev xs" by simp
    from filter_eq_appendD [OF this]
    obtain us vs where b: "batch = us @ m # vs" "filter (\<lambda>m. t \<le> outbound_message_term m) vs = rev xs"
      by (elim exE conjE)
    have "m' \<in> set (rev xs)" using d(3) by simp
    then have "m' \<in> set vs" unfolding b(2) [symmetric] by simp
    then show ?thesis using d(1,4,5) b(1) by blast
  qed
  moreover have "distinct_adj out" unfolding out by simp
  ultimately show ?thesis using sub' by blast
qed

theorem coalesce_keeps_witness:
  "\<exists>xs ys m'. [AppendEntries 1 1 0 0 [] 0 1, AppendEntries 1 1 0 0 [] 0 2] = xs @ AppendEntries 1 1 0 0 [] 0 1 # ys \<and>
     m' \<in> set ys \<and> repl_term m' = Some 1"
proof -
  let ?b = "[AppendEntries 1 1 0 0 [] 0 1, AppendEntries 1 1 0 0 [] 0 2]"
  have "coalesce_outbound_peer_batch ?b 1 [] = [AppendEntries 1 1 0 0 [] 0 2]"
    by (simp add: coalesce_outbound_peer_batch_def drop_superseded_Cons superseded_def later_max_def)
  then have gone: "AppendEntries 1 1 0 0 [] 0 1 \<notin> set (coalesce_outbound_peer_batch ?b 1 [])" by simp
  note th = coalesce_keeps [OF refl, of ?b 1 "[]", THEN conjunct2, THEN conjunct2, THEN conjunct2, THEN bspec,
      of "AppendEntries 1 1 0 0 [] 0 1", THEN mp, THEN mp, OF _ _ gone, THEN conjunct2]
  then obtain xs ys m' t' where h: "?b = xs @ AppendEntries 1 1 0 0 [] 0 1 # ys" "m' \<in> set ys" "repl_term m' = Some t'" by auto
  have "m' \<in> set ?b" using h(1,2) by simp
  then have "repl_term m' = Some 1" by auto
  with h(1,2) show ?thesis by blast
qed

section \<open>Long append messages\<close>

lemma long_append_rejected:
  assumes "wire_message_ok sha (AppendEntries t l pli plt [] lc r)" "4096 < length es"
    "encode_raft_message sha (AppendEntries t l pli plt es lc r) = Some bytes"
  shows "decode_raft_message sha bytes = Inl (WireInvalidField ''AppendEntries count > 4096'')"
proof -
  have "length es < 2 ^ 32" using assms(3) by (auto simp: encode_raft_message_def split: if_splits)
  then have "rbind wire_u8 (decode_raft_body sha) (cursor_at [] (encode_raft_body (AppendEntries t l pli plt es lc r))) =
      Inl (WireInvalidField ''AppendEntries count > 4096'')"
    using assms(1,2) by (simp add: wire_bind decode_raft_body_def)
  then show ?thesis by (simp add: decode_frame [OF assms(3)])
qed

lemma collect_range_length:
  assumes "log_inv c" "snapshot_index c < n" "n \<le> last_log_index c"
  shows "length (collect_range c n (last_log_index c)) = last_log_index c + 1 - n"
proof -
  let ?b = "snapshot_index c + 1"
  have c: "contiguous ?b (log_tail c)" by (rule log_inv_contiguous [OF assms(1)])
  have last: "last_log_index c = snapshot_index c + length (log_tail c)" using log_inv_last_log_index [OF assms(1)] .
  have "filter (\<lambda>e. n \<le> re_index e \<and> re_index e \<le> last_log_index c) (log_tail c) = filter (\<lambda>e. ?b + (n - ?b) \<le> re_index e) (log_tail c)"
    using contiguous_bounds [OF c] last assms(2) by (intro filter_cong refl) fastforce
  also have "\<dots> = drop (n - ?b) (log_tail c)"
    by (rule filter_greater_contiguous) (use c in \<open>simp add: contiguous_def\<close>)
  finally show ?thesis using assms(2,3) last by (simp add: collect_range_def)
qed

lemma storable_prev_term:
  assumes "core_storable sha c" "term_at c i = Some t"
  shows "t \<le> u64_max"
proof -
  have du: "du_ok sha (core_durable c)" and inv: "log_inv c" using assms(1) by (simp_all add: core_storable_def)
  have tail: "re_term e \<le> i64_max" if "e \<in> set (log_tail c)" for e
    using du that by (auto simp: du_ok_def core_durable_def entry_fits_def)
  have snap: "included_term m \<le> i64_max" if h: "snapshot_meta c = Some m" for m
  proof -
    obtain b where "snapshot_bytes c = Some b" using inv h by (auto simp: log_inv_def)
    then show ?thesis using du h by (auto simp: du_ok_def core_durable_def snapshot_valid_def)
  qed
  have "t \<le> i64_max"
    using assms(2) tail snap
    by (auto simp: term_at_def term_at_tail_def log_get_def Let_def split: if_splits option.splits)
  then show ?thesis using i64_max_less by simp
qed

text \<open>C34: A follower that lags by more than 4096 entries is out of reach of append messages. The leader puts
  everything from the follower's next index to the end of its log into one message, and the decoder
  refuses a message with more than 4096 entries: whatever replica receives the frame answers that it
  is unavailable, with an empty payload, and changes nothing.\<close>

theorem lagging_follower_refuses:
  assumes "core_storable sha c" "bt_get (next_index c) peer = Some n" "snapshot_index c < n"
    "n + 4096 \<le> last_log_index c" "round_id \<le> u64_max"
  shows "\<exists>m. build_replication_for_peer sha c peer round_id = SendMessage peer m \<and>
    (\<forall>bytes eng from_cell. encode_raft_message sha m = Some bytes \<longrightarrow>
       handle_rpc sha fault from_cell bytes eng = (Some (PreExecutionUnavailable, []), eng, [], []))"
proof -
  have inv: "log_inv c" "local_id c \<noteq> 0" and du: "du_ok sha (core_durable c)"
    using assms(1) by (simp_all add: core_storable_def)
  have bounds: "current_term c \<le> u64_max" "last_log_index c \<le> u64_max" "commit_index c \<le> u64_max" "n - 1 \<le> u64_max"
    using du log_inv_last_log_index [OF inv(1)] log_inv_commit_le [OF inv(1)] inv(1) assms(4) i64_max_less
    by (auto simp: du_ok_def core_durable_def log_inv_def)
  define es where "es = collect_range c n (last_log_index c)"
  define pt where "pt = (case term_at c (n - 1) of Some t \<Rightarrow> t | None \<Rightarrow> 0)"
  have es: "4096 < length es" using collect_range_length [OF inv(1) assms(3)] assms(4) by (simp add: es_def)
  have pt: "pt \<le> u64_max" using storable_prev_term [OF assms(1)] by (auto simp: pt_def split: option.split)
  have "max (bt_get_or (sat_add64 (last_log_index c) 1) (next_index c) peer) 1 = n"
    using assms(2,3) by (simp add: bt_get_or_def)
  moreover have "\<not> n \<le> included_index meta" if "snapshot_meta c = Some meta" for meta
    using that assms(3) by (simp add: snapshot_index_def)
  ultimately have m: "build_replication_for_peer sha c peer round_id =
      SendMessage peer (AppendEntries (current_term c) (local_id c) (n - 1) pt es (commit_index c) round_id)"
    by (simp add: build_replication_for_peer_def Let_def es_def pt_def split: option.splits)
  have ok: "wire_message_ok sha (AppendEntries (current_term c) (local_id c) (n - 1) pt [] (commit_index c) round_id)"
    using bounds inv(2) pt assms(5) by simp
  show ?thesis
    using m long_append_rejected [OF ok es] by (simp add: handle_rpc_def)
qed

definition long_history :: "ControlPlaneProposal list" where
  "long_history = replicate 4097 RaftExec.demo_proposal"

definition long_leader :: "sha256_fn \<Rightarrow> ConsensusCore" where
  "long_leader sha = demo_leader\<lparr>log_tail := history_log sha long_history\<rparr>"

lemma long_leader_facts:
  "core_storable sha (long_leader sha)" "bt_get (next_index (long_leader sha)) 2 = Some 1"
  "snapshot_index (long_leader sha) = 0" "last_log_index (long_leader sha) = 4097" "log_tail (long_leader sha) = history_log sha long_history"
proof -
  have len: "length long_history = 4097" by (simp add: long_history_def)
  have ok: "history_ok long_history" by (auto simp: history_ok_def long_history_def RaftExec.demo_proposal_def)
  show tail: "log_tail (long_leader sha) = history_log sha long_history" by (simp add: long_leader_def)
  have f: "snapshot_meta (long_leader sha) = None" "snapshot_bytes (long_leader sha) = None" "commit_index (long_leader sha) = 0"
      "current_term (long_leader sha) = 1" "voted_for (long_leader sha) = Some 1" "roster (long_leader sha) = demo_roster"
      "local_id (long_leader sha) = 1" "next_index (long_leader sha) = [(1, 1), (2, 1), (3, 1)]"
    by (simp_all add: long_leader_def demo_leader_def demo_follower_def)
  show idx: "snapshot_index (long_leader sha) = 0" by (simp add: snapshot_index_def f)
  have inv: "log_inv (long_leader sha)" by (simp add: log_inv_def idx f tail len u64_max_def)
  show "last_log_index (long_leader sha) = 4097" using log_inv_last_log_index [OF inv] by (simp add: idx tail len)
  show "bt_get (next_index (long_leader sha)) 2 = Some 1" by (simp add: f bt_get_def)
  have "du_ok sha (core_durable (long_leader sha))"
    using history_entry_fits [OF ok] by (simp add: du_ok_def core_durable_def du_snap_index_def f tail len i64_max_def)
  then show "core_storable sha (long_leader sha)"
    using inv by (simp add: core_storable_def f roster_contains_def demo_roster_def)
qed

theorem lagging_follower_refuses_witness:
  "\<exists>m bytes. build_replication_for_peer (\<lambda>_. 0) (long_leader (\<lambda>_. 0)) 2 1 = SendMessage 2 m \<and>
     encode_raft_message (\<lambda>_. 0) m = Some bytes \<and>
     (\<forall>eng. handle_rpc (\<lambda>_. 0) None 1 bytes eng = (Some (PreExecutionUnavailable, []), eng, [], []))"
proof -
  let ?c = "long_leader (\<lambda>_. 0)"
  note l = long_leader_facts [of "\<lambda>_. 0"]
  have "snapshot_index ?c < 1" "1 + 4096 \<le> last_log_index ?c" "(1 :: nat) \<le> u64_max" by (simp_all add: l u64_max_def)
  from lagging_follower_refuses [OF l(1,2) this, of None] obtain m where m: "build_replication_for_peer (\<lambda>_. 0) ?c 2 1 = SendMessage 2 m"
      "\<And>bytes eng. encode_raft_message (\<lambda>_. 0) m = Some bytes \<Longrightarrow>
        handle_rpc (\<lambda>_. 0) None 1 bytes eng = (Some (PreExecutionUnavailable, []), eng, [], [])" by blast
  have "wire_lengths_fit m"
  proof -
    obtain t lead pli plt lc r where "m = AppendEntries t lead pli plt (collect_range ?c 1 (last_log_index ?c)) lc r"
      using m(1) l(2,3) by (auto simp: build_replication_for_peer_def Let_def bt_get_or_def snapshot_index_def split: option.splits if_splits)
    moreover have "length (collect_range ?c 1 (last_log_index ?c)) = 4097"
      using collect_range_length [of ?c 1] l(1,3,4) by (simp add: core_storable_def)
    ultimately show ?thesis using body_fits by (simp add: list_all_iff)
  qed
  then obtain bytes where "encode_raft_message (\<lambda>_. 0) m = Some bytes" by (simp add: encode_raft_message_def Let_def)
  then show ?thesis using m by blast
qed

end
