(* ===== verification/RaftVotes.thy ===== *)
theory RaftVotes
  imports RaftFrames RaftCommit StoreEvolution
begin

text \<open>
  Ballots of a step. A granted vote leaves a step only together with the hard state that records it; the
  domains a candidate counts come from its own recorded vote or from a granted vote of its own term; a
  leader holds a quorum of them. The store writes exactly the hard state asked for last.
\<close>

section \<open>Hard state of the effects\<close>

fun hard_after :: "ConsensusEffect list \<Rightarrow> ConsensusTerm \<times> CellIdentity option \<Rightarrow> ConsensusTerm \<times> CellIdentity option" where
  "hard_after [] tv = tv"
| "hard_after (PersistHardState t v # effs) tv = hard_after effs (t, v)"
| "hard_after (_ # effs) tv = hard_after effs tv"

lemma hard_after_append [simp]: "hard_after (xs @ ys) tv = hard_after ys (hard_after xs tv)"
proof (induction xs arbitrary: tv)
  case (Cons x xs)
  then show ?case by (cases x) auto
qed simp

lemma hard_after_map_send [simp]: "hard_after (map (\<lambda>p. SendMessage (f p) (g p)) ps) tv = tv"
  by (induction ps) auto

text \<open>The effects ask for a vote to be recorded, and for no snapshot.\<close>

definition records_vote :: "ConsensusEffect list \<Rightarrow> ConsensusTerm \<Rightarrow> CellIdentity \<Rightarrow> bool" where
  "records_vote effs t cand = (PersistHardState t (Some cand) \<in> set effs \<and>
     (\<forall>tv. hard_after effs tv = (t, Some cand)) \<and> (\<forall>m b. InstallSnapshot m b \<notin> set effs))"

lemma apply_effects_hard:
  assumes "apply_effects sha staged effs cur = Inr cur'" "\<And>m b. InstallSnapshot m b \<notin> set effs"
  shows "(ec_term cur', ec_voted_for cur') = hard_after effs (ec_term cur, ec_voted_for cur) \<and>
    consensus_meta (ec_db cur') = consensus_meta (ec_db cur) \<and>
    (ec_dirty cur \<or> (\<exists>t v. PersistHardState t v \<in> set effs) \<longrightarrow> ec_dirty cur')"
  using assms
proof (induction effs arbitrary: cur)
  case (Cons eff effs)
  obtain mid where mid: "apply_effect sha staged eff cur = Inr mid" "apply_effects sha staged effs mid = Inr cur'"
    using Cons.prems(1) by (auto simp: result_bind_eq_Inr)
  have appended: "consensus_meta db' = consensus_meta db" if "append_entries_tx sha es db = Inr db'" for es db db'
    using that by (induction es arbitrary: db) (auto simp: insert_log_row_def result_bind_eq_Inr split: if_splits)
  have deleted: "consensus_meta db' = consensus_meta db" if "delete_log_where del db = Inr db'" for del db db'
    using that by (auto simp: delete_log_where_def split: if_splits)
  have "hard_after (eff # effs) (ec_term cur, ec_voted_for cur) = hard_after effs (ec_term mid, ec_voted_for mid) \<and>
      consensus_meta (ec_db mid) = consensus_meta (ec_db cur) \<and>
      (ec_dirty cur \<or> (\<exists>t v. eff = PersistHardState t v) \<longrightarrow> ec_dirty mid)"
    using mid(1) Cons.prems(2) appended deleted by (cases eff) (auto simp: result_bind_eq_Inr split: if_splits)
  with Cons.IH [OF mid(2)] Cons.prems(2) show ?case by auto
qed simp

definition disk_vote :: "SqliteConsensusStore \<Rightarrow> ConsensusTerm \<Rightarrow> CellIdentity \<Rightarrow> bool" where
  "disk_vote db t v = (t \<le> i64_max \<and> (\<exists>row. consensus_meta db = Some row \<and>
     hs_current_term row = int t \<and> hs_voted_for row = Some (to_be v)))"

lemma effects_tx_vote:
  assumes "effects_tx sha staged effs db = Inr db'" "records_vote effs t cand"
  shows "disk_vote db' t cand"
proof -
  obtain t0 v0 k0 cur where cur: "apply_effects sha staged effs
        \<lparr>ec_term = t0, ec_voted_for = v0, ec_commit = k0, ec_dirty = False, ec_db = db\<rparr> = Inr cur"
      and flush: "flush_hard_state sha cur = Inr db'" and row: "consensus_meta db \<noteq> None"
    using assms(1) by (auto simp: effects_tx_def result_bind_eq_Inr read_and_verify_hard_state_conn_def split: option.splits)
  have "ec_term cur = t" "ec_voted_for cur = Some cand" "ec_dirty cur" "consensus_meta (ec_db cur) \<noteq> None"
    using apply_effects_hard [OF cur] assms(2) row by (auto simp: records_vote_def)
  then show ?thesis
    using flush by (auto simp: flush_hard_state_def write_hard_state_tx_def result_bind_eq_Inr Let_def disk_vote_def)
qed

lemma stage_no_install:
  "(\<And>m b. InstallSnapshot m b \<notin> set effs) \<Longrightarrow> stage_snapshots sha effs staged db = (Inr staged, db)"
proof (induction effs)
  case (Cons e es)
  then show ?case by (cases e) auto
qed simp

text \<open>Without a snapshot the transaction fails only by refusal.\<close>

definition only_refuses :: "'a store_run \<Rightarrow> bool" where
  "only_refuses r = (\<forall>f. r = Inl f \<longrightarrow> (\<exists>e. f = Refused e))"

lemma only_refuses_intros [simp]:
  "only_refuses (Inr x)" "only_refuses (Inl (Refused e))" "only_refuses (map_err Refused q)"
  by (auto simp: only_refuses_def map_err_def split: sum.splits)

lemma only_refuses_bind: "only_refuses r \<Longrightarrow> (\<And>x. only_refuses (f x)) \<Longrightarrow> only_refuses (result_bind r f)"
  by (cases r) (auto simp: only_refuses_def)

lemma apply_effects_refuses:
  "(\<And>m b. InstallSnapshot m b \<notin> set effs) \<Longrightarrow> only_refuses (apply_effects sha staged effs cur)"
proof (induction effs arbitrary: cur)
  case (Cons e es)
  have "only_refuses (apply_effect sha staged e cur)"
    using Cons.prems by (cases e) (auto intro!: only_refuses_bind)
  then show ?case using Cons by (simp add: only_refuses_bind)
qed simp

lemma effects_tx_refuses:
  "(\<And>m b. InstallSnapshot m b \<notin> set effs) \<Longrightarrow> only_refuses (effects_tx sha staged effs db)"
  unfolding effects_tx_def by (intro only_refuses_bind) (auto intro!: only_refuses_bind apply_effects_refuses)

text \<open>Unless the transaction is refused, the vote is on disk.\<close>

lemma apply_durable_effects_vote:
  assumes "apply_durable_effects sha effs db sm = (res, db', sm')" "records_vote effs t cand" "\<And>e. res \<noteq> Inl (Refused e)"
  shows "disk_vote db' t cand"
proof -
  have no: "\<And>m b. InstallSnapshot m b \<notin> set effs" using assms(2) by (simp add: records_vote_def)
  have "list_ex is_storage_effect effs" using assms(2) unfolding records_vote_def list_ex_iff by (metis is_storage_effect.simps(1))
  with assms(1,3) obtain db2 where "effects_tx sha None effs db = Inr db2" "db' = db2"
    using effects_tx_refuses [OF no, of sha None db]
    by (cases "effects_tx sha None effs db")
      (auto simp: apply_durable_effects_def stage_no_install [OF no] only_refuses_def split: prod.splits)
  then show ?thesis using effects_tx_vote assms(2) by blast
qed

section \<open>Votes and ballots of a step\<close>

text \<open>A granted vote leaves a step only with the hard state that records it.\<close>

lemma no_vote_response [simp]:
  "replication_message sha c peer k \<noteq> RequestVoteResponse t v g"
  "SendMessage p (RequestVoteResponse t v g) \<notin> set (broadcast_replication_or_heartbeat sha c k)"
  "SendMessage p m \<notin> set (leader_advance c)" "SendMessage p m \<notin> set (follower_advance c lc)"
  "SendMessage p m \<notin> set (swept_reads c)" "SendMessage p m \<notin> set (caught_up_effects t' c)"
  "SendMessage p m \<notin> set (step_down_effects t' c)"
  "append_response c l s mi ct ci r \<noteq> SendMessage p (RequestVoteResponse t v g)"
  "snapshot_response c l ii no inst \<noteq> SendMessage p (RequestVoteResponse t v g)"
proof -
  show msg: "replication_message sha c peer k \<noteq> RequestVoteResponse t v g" for peer
    by (rule replication_message_cases [of sha c peer k]) simp_all
  show "SendMessage p (RequestVoteResponse t v g) \<notin> set (broadcast_replication_or_heartbeat sha c k)"
    using msg [symmetric] by (auto simp: set_broadcast)
  show "SendMessage p m \<notin> set (caught_up_effects t' c)" "SendMessage p m \<notin> set (step_down_effects t' c)"
    using set_step_down_effects [of t' c] by (auto simp: caught_up_effects_def)
qed (auto simp: leader_advance_def try_advance_leader_commit_def follower_advance_def follower_commit_def
    swept_reads_def sweep_confirmed_quorum_rounds_def append_response_def snapshot_response_def Let_def)

lemmas no_vote_response_sym [simp] = no_vote_response(1,8,9) [symmetric]

definition vote_backed :: "ConsensusCore \<Rightarrow> ConsensusEffect list \<Rightarrow> bool" where
  "vote_backed c effs = (\<forall>cand t v. SendMessage cand (RequestVoteResponse t v True) \<in> set effs \<longrightarrow>
     v = local_id c \<and> records_vote effs t cand)"

lemma vote_backedI: "(\<And>cand t v. SendMessage cand (RequestVoteResponse t v True) \<notin> set effs) \<Longrightarrow> vote_backed c effs"
  by (simp add: vote_backed_def)

lemma on_request_vote_backed: "vote_backed c (snd (on_request_vote c t cand li lt))"
proof -
  have "hard_after (caught_up_effects t c) tv = hard_after (caught_up_effects t c) tv" for tv ..
  moreover have "InstallSnapshot m b \<notin> set (caught_up_effects t c)" for m b
    using set_step_down_effects [of t c] by (auto simp: caught_up_effects_def)
  ultimately show ?thesis
    by (auto simp: on_request_vote_def catch_up_eq vote_backed_def records_vote_def Let_def)
qed

lemma core_step_vote_backed: "vote_backed c (snd (core_step sha c i))"
proof (rule core_step_rule [where P = "\<lambda>i r. vote_backed c (snd r)"])
  fix t cand li lt
  show "vote_backed c (snd (on_request_vote c t cand li lt))" by (rule on_request_vote_backed)
next
  fix t l pi pt es lc r
  have "vote_backed c (snd (reconcile_and_commit_entries sha (leader_contact t l c) l es lc r (caught_up_effects t c)))" for es
    by (cases rule: reconcile_and_commit_cases [of "caught_up_effects t c" sha "leader_contact t l c" es l lc r])
      (auto intro!: vote_backedI dest: subsetD)
  then show "vote_backed c (snd (on_append_entries sha c t l pi pt es lc r))"
    by (cases rule: on_append_entries_cases [of t c sha l pi pt es lc r]) (auto intro!: vote_backedI)
next
  fix t l ii it root tsha total_b off chunk d
  show "vote_backed c (snd (on_install_snapshot_chunk sha c t l ii it root tsha total_b off chunk d))"
    by (cases rule: on_install_snapshot_chunk_cases [of t c sha l ii it root tsha total_b off chunk d])
      (auto intro!: vote_backedI simp: install_completed_def Let_def)
qed (auto intro!: vote_backedI simp: on_tick_def on_propose_def on_request_linearizable_read_def
    on_request_pre_vote_def on_request_pre_vote_response_def
    on_request_vote_response_def become_leader_def start_pre_vote_def start_real_election_def
    on_append_entries_response_def on_append_accepted_def on_append_conflict_def
    on_install_snapshot_response_def on_snapshot_installed_def
    core_eqs Let_def split: sum.splits option.splits bool.splits if_splits)

text \<open>A candidate or leader after a step was one before, in the same term, and counts at most the domain of
  a voter whose granted vote it just received; or it has just voted for itself.\<close>

definition ballot_step :: "ConsensusCore \<Rightarrow> ConsensusInput \<Rightarrow> core_result \<Rightarrow> bool" where
  "ballot_step c i r = (case r of (d, effs) \<Rightarrow>
     (role d \<in> {Candidate, Leader} \<longrightarrow>
       role c \<in> {Candidate, Leader} \<and> current_term d = current_term c \<and>
       (votes_granted_domains d = votes_granted_domains c \<or>
        (\<exists>v dom. i = ReceiveMessage v (RequestVoteResponse (current_term c) v True) \<and> domain_of (roster c) v = Some dom \<and>
           votes_granted_domains d = insert dom (votes_granted_domains c))) \<or>
       votes_granted_domains d = {local_domain c} \<and> records_vote effs (current_term d) (local_id c)) \<and>
     (role d = Leader \<longrightarrow>
       role c = Leader \<and> votes_granted_domains d = votes_granted_domains c \<or>
       quorum_size (roster c) \<le> card (votes_granted_domains d)))"

lemma ballot_step_follower: "role d \<notin> {Candidate, Leader} \<Longrightarrow> ballot_step c i (d, effs)"
  by (auto simp: ballot_step_def)

lemma ballot_step_same:
  "role d = role c \<Longrightarrow> current_term d = current_term c \<Longrightarrow> votes_granted_domains d = votes_granted_domains c \<Longrightarrow>
   ballot_step c i (d, effs)"
  by (auto simp: ballot_step_def)

lemma ballot_election:
  assumes "roster e = roster c" "local_id e = local_id c" "local_domain e = local_domain c"
  shows "ballot_step c i (start_real_election e)"
  using assms by (auto simp: ballot_step_def start_real_election_def records_vote_def Let_def)

lemma ballot_vote_response:
  assumes "v \<noteq> local_id c"
  shows "ballot_step c (ReceiveMessage v (RequestVoteResponse t v g)) (on_request_vote_response sha c t v g)"
proof (cases "t = current_term c \<and> role c = Candidate")
  case True
  then show ?thesis
    by (auto simp: on_request_vote_response_def become_leader_def core_eqs ballot_step_def Let_def
        split: option.split bool.split)
next
  case False
  then show ?thesis
    by (auto simp: on_request_vote_response_def core_eqs intro: ballot_step_follower ballot_step_same)
qed

lemma core_step_ballot: "ballot_step c i (core_step sha c i)"
proof (rule core_step_rule [where P = "ballot_step c"])
  show "ballot_step c Tick (on_tick sha c)"
    by (auto simp: on_tick_def core_eqs start_pre_vote_def Let_def intro: ballot_step_follower ballot_step_same)
  show "ballot_step c (Propose p e) (on_propose sha c p e)" for p e
    by (auto simp: on_propose_def core_eqs Let_def intro: ballot_step_same split: sum.split)
  show "ballot_step c (RequestLinearizableRead r e) (on_request_linearizable_read sha c r e)" for r e
    by (auto simp: on_request_linearizable_read_def core_eqs Let_def intro: ballot_step_same split: sum.split)
  show "ballot_step c (ReceiveMessage fr m) (c, [])" for fr m
    by (auto intro: ballot_step_same)
  show "ballot_step c (ReceiveMessage cand (RequestPreVote pt cand li lt)) (on_request_pre_vote c pt cand li lt)" for pt cand li lt
    by (auto simp: on_request_pre_vote_def Let_def intro: ballot_step_same)
  show "ballot_step c (ReceiveMessage v (RequestPreVoteResponse t pt v g)) (on_request_pre_vote_response c t pt v g)" for t pt v g
    by (auto simp: on_request_pre_vote_response_def core_eqs Let_def intro: ballot_step_same ballot_step_follower ballot_election
        split: option.split bool.split)
  show "ballot_step c (ReceiveMessage cand (RequestVote t cand li lt)) (on_request_vote c t cand li lt)" for t cand li lt
    by (cases "t > current_term c")
      (auto simp: on_request_vote_def core_eqs Let_def intro: ballot_step_same ballot_step_follower)
  show "v \<noteq> local_id c \<Longrightarrow>
      ballot_step c (ReceiveMessage v (RequestVoteResponse t v g)) (on_request_vote_response sha c t v g)" for t v g
    by (rule ballot_vote_response)
  have "ballot_step c i (reconcile_and_commit_entries sha (leader_contact t l c) l es lc r f)" for i t l es lc r f
    by (cases rule: reconcile_and_commit_cases [of f sha "leader_contact t l c" es l lc r]) (auto intro: ballot_step_follower)
  then show "ballot_step c (ReceiveMessage l (AppendEntries t l pi pt es lc r)) (on_append_entries sha c t l pi pt es lc r)" for t l pi pt es lc r
    by (cases rule: on_append_entries_cases [of t c sha l pi pt es lc r]) (auto intro: ballot_step_follower ballot_step_same)
  show "ballot_step c (ReceiveMessage f (AppendEntriesResponse t f s mi ct ci r))
      (on_append_entries_response sha c t f s mi ct ci r)" for t f s mi ct ci r
    by (auto simp: on_append_entries_response_def on_append_accepted_def on_append_conflict_def core_eqs Let_def
        intro: ballot_step_same ballot_step_follower)
  show "ballot_step c (ReceiveMessage l (InstallSnapshotChunk t l ii it root tsha total_b off chunk d))
      (on_install_snapshot_chunk sha c t l ii it root tsha total_b off chunk d)" for t l ii it root tsha total_b off chunk d
    by (cases rule: on_install_snapshot_chunk_cases [of t c sha l ii it root tsha total_b off chunk d])
      (auto simp: install_completed_def Let_def intro: ballot_step_follower ballot_step_same)
  show "ballot_step c (ReceiveMessage f (InstallSnapshotResponse t f ii no inst))
      (on_install_snapshot_response sha c t f ii no inst)" for t f ii no inst
    by (auto simp: on_install_snapshot_response_def on_snapshot_installed_def core_eqs Let_def
        intro: ballot_step_same ballot_step_follower split: option.split)
qed

text \<open>A proposal that is rejected at once leaves the core as it is.\<close>

lemma core_step_rejected:
  assumes "ProposalRejected None reason \<in> set (snd (core_step sha c i))"
  shows "fst (core_step sha c i) = c"
proof -
  have quiet: "ProposalRejected None reason \<notin> set (broadcast_replication_or_heartbeat sha d k)"
      "ProposalRejected None reason \<notin> set (leader_advance d)" "ProposalRejected None reason \<notin> set (follower_advance d lc)"
      "ProposalRejected None reason \<notin> set (swept_reads d)" "ProposalRejected None reason \<notin> set (caught_up_effects t d)"
      "ProposalRejected None reason \<notin> set (step_down_effects t d)" for d k lc t
    using set_step_down_effects [of t d]
    by (auto simp: leader_advance_def try_advance_leader_commit_def follower_advance_def follower_commit_def set_broadcast
        swept_reads_def sweep_confirmed_quorum_rounds_def caught_up_effects_def Let_def)
  let ?ok = "\<lambda>r :: core_result. ProposalRejected None reason \<notin> set (snd r) \<or> fst r = c"
  have "?ok (core_step sha c i)"
  proof (rule core_step_rule [where P = "\<lambda>i. ?ok"])
    fix t l pi pt es lc r
    have "ProposalRejected None reason \<notin> set (snd (reconcile_and_commit_entries sha (leader_contact t l c) l es lc r (caught_up_effects t c)))" for es
      by (cases rule: reconcile_and_commit_cases [of "caught_up_effects t c" sha "leader_contact t l c" es l lc r])
        (auto simp: quiet append_response_def dest: subsetD)
    then show "?ok (on_append_entries sha c t l pi pt es lc r)"
      by (cases rule: on_append_entries_cases [of t c sha l pi pt es lc r]) (simp_all add: quiet append_response_def)
  next
    fix t l ii it root tsha total_b off chunk d
    show "?ok (on_install_snapshot_chunk sha c t l ii it root tsha total_b off chunk d)"
      by (cases rule: on_install_snapshot_chunk_cases [of t c sha l ii it root tsha total_b off chunk d])
        (simp_all add: install_completed_def quiet snapshot_response_def Let_def)
  next
    fix p e
    show "?ok (on_propose sha c p e)"
      by (cases "check_leader_gate c e") (simp_all add: on_propose_def core_eqs Let_def quiet)
  next
    fix r e
    show "?ok (on_request_linearizable_read sha c r e)"
      by (cases "check_leader_gate c e") (simp_all add: on_request_linearizable_read_def core_eqs Let_def quiet)
  next
    fix t pt v g
    show "?ok (on_request_pre_vote_response c t pt v g)"
      by (rule disjI1) (auto simp: on_request_pre_vote_response_def start_real_election_def core_eqs Let_def quiet)
  next
    fix t f s mi ct ci r
    show "?ok (on_append_entries_response sha c t f s mi ct ci r)"
      by (rule disjI1) (auto simp: on_append_entries_response_def on_append_accepted_def on_append_conflict_def core_eqs Let_def quiet
          split: if_splits)
  next
    fix t f ii no inst
    show "?ok (on_install_snapshot_response sha c t f ii no inst)"
      by (rule disjI1) (auto simp: on_install_snapshot_response_def on_snapshot_installed_def core_eqs Let_def quiet
          split: option.splits if_splits)
  next
    show "?ok (on_tick sha c)" by (simp add: on_tick_def start_pre_vote_def core_eqs Let_def quiet image_iff)
  next
    fix pt cand li lt
    show "?ok (on_request_pre_vote c pt cand li lt)" by (simp add: on_request_pre_vote_def Let_def)
  next
    fix t cand li lt
    show "?ok (on_request_vote c t cand li lt)" by (simp add: on_request_vote_def catch_up_eq Let_def quiet)
  next
    fix t v g
    show "?ok (on_request_vote_response sha c t v g)"
      by (simp add: on_request_vote_response_def become_leader_def core_eqs Let_def quiet split: option.split bool.split)
  qed simp
  then show ?thesis using assms by blast
qed

section \<open>Rosters\<close>

lemma roster_scan_iff:
  assumes "1 < n" "bt_sorted doms"
  shows "roster_scan n seen doms vs = Inr () \<longleftrightarrow>
    distinct (map cell_identity vs) \<and> distinct (map control_domain_id vs) \<and>
    (\<forall>v\<in>set vs. cell_identity v \<notin> seen \<and> bt_get doms (control_domain_id v) = None)"
  using assms(2)
proof (induction vs arbitrary: seen doms)
  case (Cons v vs)
  show ?case
  proof (cases "bt_get doms (control_domain_id v)")
    case None
    let ?doms = "bt_insert (control_domain_id v) (cell_identity v) doms"
    have "roster_scan n seen doms (v # vs) = Inr () \<longleftrightarrow>
        cell_identity v \<notin> seen \<and> roster_scan n (insert (cell_identity v) seen) ?doms vs = Inr ()"
      using None by simp
    also have "\<dots> \<longleftrightarrow> cell_identity v \<notin> seen \<and> distinct (map cell_identity vs) \<and> distinct (map control_domain_id vs) \<and>
        (\<forall>u\<in>set vs. cell_identity u \<noteq> cell_identity v \<and> cell_identity u \<notin> seen \<and>
          control_domain_id u \<noteq> control_domain_id v \<and> bt_get doms (control_domain_id u) = None)"
      using Cons.prems by (subst Cons.IH) (auto simp: bt_get_insert)
    finally show ?thesis using None by (auto simp: image_iff)
  qed (use assms(1) in auto)
qed simp

lemma roster_new_ok:
  assumes "roster_new vs = Inr r" "3 \<le> length r"
  shows "distinct (map cell_identity r)" "distinct (map control_domain_id r)"
proof -
  have r: "r = sort_key cell_identity vs" "roster_scan (length vs) {} [] vs = Inr ()"
    using assms(1) by (auto simp: roster_new_def result_bind_eq_Inr split: if_splits)
  have "1 < length vs" using assms(2) r(1) by simp
  from roster_scan_iff [OF this, of "[]" "{}" vs] r(2)
  have "distinct (map cell_identity vs)" "distinct (map control_domain_id vs)" by simp_all
  then show "distinct (map cell_identity r)" "distinct (map control_domain_id r)"
    by (simp_all add: r(1) distinct_map)
qed

text \<open>C36: A roster is accepted precisely when it is not empty, does not have two members, and both the cells
  and the control domains are pairwise different; the validated roster is the list sorted by cell.\<close>

theorem roster_new_exact:
  "roster_new vs = Inr r \<longleftrightarrow> vs \<noteq> [] \<and> length vs \<noteq> 2 \<and> distinct (map cell_identity vs) \<and>
     distinct (map control_domain_id vs) \<and> r = sort_key cell_identity vs"
proof (cases "1 < length vs")
  case True
  then show ?thesis
    using roster_scan_iff [of "length vs" "[]" "{}" vs]
    by (cases "roster_scan (length vs) {} [] vs") (auto simp: roster_new_def)
next
  case False
  then consider "vs = []" | v where "vs = [v]" by (cases vs) (auto simp: Suc_lessI)
  then show ?thesis by cases (auto simp: roster_new_def)
qed

end
