(* ===== verification/Cluster.thy ===== *)
theory Cluster
  imports Driver RaftVotes
begin

text \<open>
  A cluster of multi-host nodes of \<open>net_driver.rs\<close> that share a roster. Each replica is a running engine
  with the messages queued for its peers, or a directory on disk. A step runs one operation of one engine,
  sends a folded batch to a peer, delivers a request frame or the reply to one, or stops or starts a node.
  Frames are bytes with the authenticated sender and the receiver; a frame once sent may be delivered any
  number of times, in any order, or never. A step may meet a transaction that SQLite rolls back, and a node
  may stop between any two steps and lose everything but its store.
\<close>

datatype NodeState =
    Down SqliteConsensusStore
  | Up SharedEngine "(CellIdentity \<times> RaftMessage) list"

type_synonym frame = "CellIdentity \<times> CellIdentity \<times> byte list"

record Cluster =
  cl_nodes :: "CellIdentity \<Rightarrow> NodeState"
  cl_requests :: "frame set"
  cl_replies :: "frame set"

fun node_store :: "NodeState \<Rightarrow> SqliteConsensusStore" where
  "node_store (Down db) = db"
| "node_store (Up eng q) = ds_store (eng_sync eng)"

definition set_node :: "CellIdentity \<Rightarrow> NodeState \<Rightarrow> Cluster \<Rightarrow> Cluster" where
  "set_node n x s = s\<lparr>cl_nodes := (cl_nodes s)(n := x)\<rparr>"

definition cluster_init :: "Cluster \<Rightarrow> bool" where
  "cluster_init s = (cl_nodes s = (\<lambda>_. Down empty_store) \<and> cl_requests s = {} \<and> cl_replies s = {})"

text \<open>The batch a worker takes from the queue of a peer, as far as it passes the gate and can be encoded.\<close>

definition transmitted :: "sha256_fn \<Rightarrow> CellIdentity \<Rightarrow> SharedEngine \<Rightarrow> (CellIdentity \<times> RaftMessage) list \<Rightarrow> byte list set" where
  "transmitted sha peer eng q =
     (let (local_term, rounds) = snapshot_coalesce_state eng;
          batch = coalesce_outbound_peer_batch (map snd (filter (\<lambda>(p, _). p = peer) q)) local_term rounds
      in {bytes. \<exists>m\<in>set batch. send_gate eng m \<and> encode_raft_message sha m = Some bytes})"

text \<open>A local operation of a running engine: its new state and the messages it queues.\<close>

inductive engine_op :: "sha256_fn \<Rightarrow> SharedEngine \<Rightarrow> SharedEngine \<Rightarrow> (CellIdentity \<times> RaftMessage) list \<Rightarrow> bool"
  for sha :: sha256_fn where
  tick: "step_and_persist sha fault Tick None None None eng = (res, eng', out, sends) \<Longrightarrow> engine_op sha eng eng' sends"
| propose: "propose_fenced sha fault p expected tx eng = (res, eng', out, sends) \<Longrightarrow> engine_op sha eng eng' sends"
| read: "linearizable_read sha fault expected tx eng = (res, eng', out, sends) \<Longrightarrow> engine_op sha eng eng' sends"
| abandon: "engine_op sha eng (read_abandoned read_id eng) []"
| snapshot: "driver_create_snapshot_and_compact sha eng = (res, eng') \<Longrightarrow> engine_op sha eng eng' []"
| shutdown: "driver_shutdown eng = (eng', out) \<Longrightarrow> engine_op sha eng eng' []"

inductive cluster_step ::
  "sha256_fn \<Rightarrow> ValidatedVoterRoster \<Rightarrow> (CellIdentity \<Rightarrow> ConsensusTimingConfig option) \<Rightarrow> Cluster \<Rightarrow> Cluster \<Rightarrow> bool"
  for sha :: sha256_fn and r :: ValidatedVoterRoster and tm :: "CellIdentity \<Rightarrow> ConsensusTimingConfig option" where
  start: "cl_nodes s n = Down db \<Longrightarrow> engine_open sha wal n r (tm n) db = (Inr eng, db') \<Longrightarrow>
    cluster_step sha r tm s (set_node n (Up eng []) s)"
| start_failed: "cl_nodes s n = Down db \<Longrightarrow> engine_open sha wal n r (tm n) db = (Inl f, db') \<Longrightarrow>
    cluster_step sha r tm s (set_node n (Down db') s)"
| crash: "cluster_step sha r tm s (set_node n (Down (node_store (cl_nodes s n))) s)"
| operate: "cl_nodes s n = Up eng q \<Longrightarrow> engine_op sha eng eng' sends \<Longrightarrow>
    cluster_step sha r tm s (set_node n (Up eng' (q @ sends)) s)"
| transmit: "cl_nodes s n = Up eng q \<Longrightarrow>
    cluster_step sha r tm s ((set_node n (Up eng (filter (\<lambda>(p, _). p \<noteq> peer) q)) s)
      \<lparr>cl_requests := cl_requests s \<union> {(n, peer, b) |b. b \<in> transmitted sha peer eng q}\<rparr>)"
| request: "(from_cell, n, bytes) \<in> cl_requests s \<Longrightarrow> cl_nodes s n = Up eng q \<Longrightarrow>
    handle_rpc sha fault from_cell bytes eng = (reply, eng', out, sends) \<Longrightarrow>
    cluster_step sha r tm s ((set_node n (Up eng' (q @ sends)) s)
      \<lparr>cl_replies := cl_replies s \<union> {(n, from_cell, payload) |payload. reply = Some (RpcOk, payload)}\<rparr>)"
| reply: "(peer, n, payload) \<in> cl_replies s \<Longrightarrow> cl_nodes s n = Up eng q \<Longrightarrow>
    handle_reply sha fault peer payload eng = (eng', out, sends) \<Longrightarrow>
    cluster_step sha r tm s (set_node n (Up eng' (q @ sends)) s)"

end
