(* ===== verification/ElectionSafety.thy ===== *)
theory ElectionSafety
  imports Cluster DriverProps
begin

text \<open>
  At most one leader per term in a cluster. The votes that ever reached a store form a set with at most one
  candidate per voter and term; every granted vote in flight and every ballot of a running candidate is
  backed by it; two majorities of independent domains share a voter.
\<close>

section \<open>The engine's step\<close>

lemma waiters_keep [simp]:
  "ds_core (fst (register_proposal w effs ds)) = ds_core ds" "ds_store (fst (register_proposal w effs ds)) = ds_store ds"
  "ds_state_machine (fst (register_proposal w effs ds)) = ds_state_machine ds"
  "ds_sticky_fatal_error (fst (register_proposal w effs ds)) = ds_sticky_fatal_error ds"
  "ds_core (register_read x effs ds) = ds_core ds" "ds_store (register_read x effs ds) = ds_store ds"
  "ds_state_machine (register_read x effs ds) = ds_state_machine ds"
  "ds_sticky_fatal_error (register_read x effs ds) = ds_sticky_fatal_error ds"
  by (simp_all add: register_proposal_def register_read_def split: option.split prod.split)

lemma settle_effect_keep [simp]:
  "ds_core (fst (settle_effect e ds)) = ds_core ds" "ds_store (fst (settle_effect e ds)) = ds_store ds"
  "ds_sticky_fatal_error (fst (settle_effect e ds)) = ds_sticky_fatal_error ds"
  by (cases "(e, ds)" rule: settle_effect.cases; simp split: option.split)+

lemma settle_effects_keep [simp]:
  "ds_core (fst (settle_effects es ds)) = ds_core ds" "ds_store (fst (settle_effects es ds)) = ds_store ds"
  "ds_sticky_fatal_error (fst (settle_effects es ds)) = ds_sticky_fatal_error ds"
  by (induction es arbitrary: ds; simp add: Let_def case_prod_beta)+

lemma deliver_receipts_keep [simp]:
  "ds_core (fst (deliver_receipts rs ds)) = ds_core ds" "ds_store (fst (deliver_receipts rs ds)) = ds_store ds"
  "ds_sticky_fatal_error (fst (deliver_receipts rs ds)) = ds_sticky_fatal_error ds"
  by (induction rs ds rule: deliver_receipts.induct; simp add: Let_def case_prod_beta split: option.split)+

text \<open>A halted engine stays as it is. Any other step runs the core; if it does not halt the engine, either the
  proposal was rejected or the transaction was not refused. Messages leave only after the transaction.\<close>

lemma step_and_persist_cases:
  assumes "step_and_persist sha fault i peer pw rw eng = (res, eng', out, sends)"
  obtains (halted) "ds_sticky_fatal_error (eng_sync eng) \<noteq> None" "eng' = eng" "sends = []" "\<And>x. res \<noteq> Inr x"
  | (rejected) reason where "ds_sticky_fatal_error (eng_sync eng) = None" "ds_sticky_fatal_error (eng_sync eng') = None"
      "ProposalRejected None reason \<in> set (snd (core_step sha (ds_core (eng_sync eng)) i))"
      "ds_core (eng_sync eng') = fst (core_step sha (ds_core (eng_sync eng)) i)"
      "ds_store (eng_sync eng') = ds_store (eng_sync eng)" "sends = []" "res = Inr None"
  | (refused) sm e where "ds_sticky_fatal_error (eng_sync eng) = None" "ds_sticky_fatal_error (eng_sync eng') \<noteq> None"
      "ds_core (eng_sync eng') = fst (core_step sha (ds_core (eng_sync eng)) i)"
      "store_effects sha fault (snd (core_step sha (ds_core (eng_sync eng)) i)) (ds_store (eng_sync eng))
         (ds_state_machine (eng_sync eng)) = (Inl (Refused e), ds_store (eng_sync eng'), sm)"
      "sends = []" "\<And>x. res \<noteq> Inr x"
  | (stored) r sm where "ds_sticky_fatal_error (eng_sync eng) = None" "ds_sticky_fatal_error (eng_sync eng') = None"
      "ds_core (eng_sync eng') = fst (core_step sha (ds_core (eng_sync eng)) i)"
      "store_effects sha fault (snd (core_step sha (ds_core (eng_sync eng)) i)) (ds_store (eng_sync eng))
         (ds_state_machine (eng_sync eng)) = (r, ds_store (eng_sync eng'), sm)" "\<And>e. r \<noteq> Inl (Refused e)"
      "sends \<noteq> [] \<or> (\<exists>m. res = Inr (Some m)) \<Longrightarrow>
         set sends \<subseteq> set (snd (split_messages peer (snd (core_step sha (ds_core (eng_sync eng)) i)))) \<and>
         res = Inr (fst (split_messages peer (snd (core_step sha (ds_core (eng_sync eng)) i))))"
proof (cases "ds_sticky_fatal_error (eng_sync eng)")
  case (Some f)
  have "res = Inl (Failed (DriverFatal f))" "eng' = eng" "sends = []"
    using assms Some by (simp_all add: step_and_persist_def)
  then show ?thesis using halted Some by simp
next
  case None
  obtain c effs where step: "core_step sha (ds_core (eng_sync eng)) i = (c, effs)" by (meson surj_pair)
  show ?thesis
  proof (cases "immediate_rejection effs")
    case (Some reason)
    have "reason \<in> set (concat (map (\<lambda>eff. case eff of ProposalRejected None reason \<Rightarrow> [reason] | _ \<Rightarrow> []) effs))"
      using find_eq_Some_mem [OF Some [unfolded immediate_rejection_def]] by (rule conjunct1)
    then have "ProposalRejected None reason \<in> set effs" by (auto split: ConsensusEffect.splits option.splits)
    moreover have "eng' = eng\<lparr>eng_sync := (eng_sync eng)\<lparr>ds_core := c\<rparr>\<rparr>" "res = Inr None" "sends = []"
      using assms None Some step by (simp_all add: step_and_persist_def)
    ultimately show ?thesis using rejected [of reason] None step by simp
  next
    case go: None
    obtain ds2 displaced where ds2: "register_proposal pw effs ((eng_sync eng)\<lparr>ds_core := c\<rparr>) = (ds2, displaced)" by (meson surj_pair)
    define ds3 where "ds3 = register_read rw effs ds2"
    have ds3: "ds_core ds3 = c" "ds_store ds3 = ds_store (eng_sync eng)" "ds_sticky_fatal_error ds3 = None"
        "ds_state_machine ds3 = ds_state_machine (eng_sync eng)"
      using waiters_keep(1-4) [of pw effs "(eng_sync eng)\<lparr>ds_core := c\<rparr>"] None unfolding ds3_def ds2 by simp_all
    obtain r db sm where st: "store_effects sha fault effs (ds_store ds3) (ds_state_machine ds3) = (r, db, sm)"
      using prod_cases3 by blast
    note run = assms [unfolded step_and_persist_def Let_def None option.case step prod.case go ds2, folded ds3_def, unfolded st prod.case]
    define ds4 where "ds4 = ds3\<lparr>ds_store := db, ds_state_machine := sm\<rparr>"
    have ds4: "ds_core ds4 = c" "ds_store ds4 = db" "ds_sticky_fatal_error ds4 = None" by (simp_all add: ds4_def ds3)
    note run = run [folded ds4_def]
    show ?thesis
    proof (cases r)
      case (Inl f)
      show ?thesis
      proof (cases "\<exists>e. f = Refused e")
        case True
        then obtain e where e: "f = Refused e" ..
        have "eng' = eng\<lparr>eng_sync := ds4\<lparr>ds_sticky_fatal_error := Some (store_error_text e)\<rparr>\<rparr>" "sends = []"
            "res = Inl (Failed (StoreError e))"
          using run by (simp_all add: Inl e)
        then show ?thesis using refused [of e sm] None step st ds3 ds4 by (simp add: Inl e)
      next
        case False
        then have "eng' = eng\<lparr>eng_sync := ds4\<rparr>" "sends = []" "res = Inl (Panicked f)"
          using run by (cases f; simp add: Inl)+
        then show ?thesis using stored [of r sm] None step st ds3 ds4 False by (simp add: Inl)
      qed
    next
      case (Inr receipts)
      define ds6 where "ds6 = fst (deliver_receipts receipts (fst (settle_effects effs ds4)))"
      have ds6: "ds_core ds6 = c" "ds_store ds6 = db" "ds_sticky_fatal_error ds6 = None" by (simp_all add: ds6_def ds4)
      have "eng' = eng\<lparr>eng_sync := ds6\<rparr>" "res = Inr (fst (split_messages peer effs))"
          "set sends \<subseteq> set (snd (split_messages peer effs))"
        using run by (auto simp: Inr case_prod_beta ds6_def split: if_splits)
      then show ?thesis using stored [of r sm] None step st ds3 ds6 by (simp add: Inr)
    qed
  qed
qed

section \<open>Votes on disk\<close>

type_synonym vote_log = "(CellIdentity \<times> ConsensusTerm \<times> CellIdentity) set"

definition single_votes :: "vote_log \<Rightarrow> bool" where
  "single_votes V = (\<forall>n t v v'. (n, t, v) \<in> V \<longrightarrow> (n, t, v') \<in> V \<longrightarrow> v = v')"

definition disk_backed :: "vote_log \<Rightarrow> CellIdentity \<Rightarrow> SqliteConsensusStore \<Rightarrow> bool" where
  "disk_backed V n db = (db_inv db \<and> (\<forall>t v. disk_vote db t v \<longrightarrow> (n, t, v) \<in> V) \<and>
     (\<forall>t v. (n, t, v) \<in> V \<longrightarrow> (\<exists>row. consensus_meta db = Some row \<and> int t \<le> hs_current_term row \<and>
        (hs_current_term row = int t \<longrightarrow> hs_voted_for row = Some (to_be v)))))"

definition with_disk :: "vote_log \<Rightarrow> CellIdentity \<Rightarrow> SqliteConsensusStore \<Rightarrow> vote_log" where
  "with_disk V n db = V \<union> {(n, t, v) |t v. disk_vote db t v}"

lemma with_disk_mono [simp, intro]: "V \<subseteq> with_disk V n db"
  by (simp add: with_disk_def)

lemma disk_backed_other: "m \<noteq> n \<Longrightarrow> disk_backed V m x \<Longrightarrow> disk_backed (with_disk V n db) m x"
  by (auto simp: disk_backed_def with_disk_def)

lemma disk_backed_step:
  assumes "single_votes V" "disk_backed V n db" "db_steps db db'"
  shows "single_votes (with_disk V n db')" "disk_backed (with_disk V n db') n db'"
proof -
  have ev: "db_inv db'" "db_evolves db db'" using assms by (auto simp: disk_backed_def db_steps_def)
  have old: "\<exists>row. consensus_meta db' = Some row \<and> int t \<le> hs_current_term row \<and>
      (hs_current_term row = int t \<longrightarrow> hs_voted_for row = Some (to_be v))" if mem: "(n, t, v) \<in> V" for t v
  proof -
    obtain row where row: "consensus_meta db = Some row" "int t \<le> hs_current_term row"
        "hs_current_term row = int t \<longrightarrow> hs_voted_for row = Some (to_be v)"
      using assms(2) mem unfolding disk_backed_def by blast
    obtain new where new: "consensus_meta db' = Some new" "meta_follows row new"
      using ev(2) row(1) unfolding db_evolves_def by blast
    show ?thesis using row new by (intro exI [of _ new]) (auto simp: meta_follows_def)
  qed
  have vote: "v = v'" if "disk_vote db' t v" "(n, t, v') \<in> V \<or> disk_vote db' t v'" for t v v'
    using that old [of t v'] by (auto simp: disk_vote_def)
  show "single_votes (with_disk V n db')"
    using assms(1) vote unfolding single_votes_def with_disk_def by blast
  show "disk_backed (with_disk V n db') n db'"
    using ev(1) old vote by (auto simp: disk_backed_def with_disk_def disk_vote_def)
qed

section \<open>Ballots and messages backed by votes\<close>

definition ballot_backed :: "vote_log \<Rightarrow> ValidatedVoterRoster \<Rightarrow> ConsensusCore \<Rightarrow> bool" where
  "ballot_backed V r c =
     ((role c \<in> {Candidate, Leader} \<longrightarrow>
        (\<forall>d\<in>votes_granted_domains c. \<exists>v. domain_of r v = Some d \<and> (v, current_term c, local_id c) \<in> V)) \<and>
      (role c = Leader \<longrightarrow> quorum_size r \<le> card (votes_granted_domains c)))"

definition engine_backed :: "vote_log \<Rightarrow> ValidatedVoterRoster \<Rightarrow> CellIdentity \<Rightarrow> SharedEngine \<Rightarrow> bool" where
  "engine_backed V r n eng = (let c = ds_core (eng_sync eng) in
     local_id c = n \<and> roster c = r \<and> domain_of r n = Some (local_domain c) \<and> 3 \<le> length r \<and>
     (ds_sticky_fatal_error (eng_sync eng) = None \<longrightarrow> ballot_backed V r c))"

definition message_backed :: "vote_log \<Rightarrow> CellIdentity \<Rightarrow> RaftMessage \<Rightarrow> bool" where
  "message_backed V target m = (\<forall>t v. m = RequestVoteResponse t v True \<longrightarrow> t \<le> i64_max \<and> (v, t, target) \<in> V)"

lemma ballot_backed_mono: "V \<subseteq> W \<Longrightarrow> ballot_backed V r c \<Longrightarrow> ballot_backed W r c"
  unfolding ballot_backed_def by blast

lemma engine_backed_mono: "V \<subseteq> W \<Longrightarrow> engine_backed V r n eng \<Longrightarrow> engine_backed W r n eng"
  by (auto simp: engine_backed_def Let_def intro: ballot_backed_mono)

lemma message_backed_mono: "V \<subseteq> W \<Longrightarrow> message_backed V p m \<Longrightarrow> message_backed W p m"
  by (auto simp: message_backed_def)

lemma split_messages_from:
  "(p, m) \<in> set (snd (split_messages peer effs)) \<Longrightarrow> SendMessage p m \<in> set effs"
  "fst (split_messages peer effs) = Some m \<Longrightarrow> \<exists>p. peer = Some p \<and> SendMessage p m \<in> set effs"
  by (induction peer effs rule: split_messages.induct) (auto simp: case_prod_beta Let_def split: if_splits)

lemma core_step_backed:
  assumes "ballot_backed V r c" "roster c = r" "domain_of r (local_id c) = Some (local_domain c)" "V \<subseteq> W"
    and "\<And>t. records_vote (snd (core_step sha c i)) t (local_id c) \<Longrightarrow> (local_id c, t, local_id c) \<in> W"
    and "\<And>t v. i = ReceiveMessage v (RequestVoteResponse t v True) \<Longrightarrow> (v, t, local_id c) \<in> V"
  shows "ballot_backed W r (fst (core_step sha c i))"
proof -
  obtain d effs where step: "core_step sha c i = (d, effs)" by (meson surj_pair)
  note b = core_step_ballot [of c i sha, unfolded step ballot_step_def prod.case]
  have id: "local_id d = local_id c" using core_step_identity [of c sha i] by (simp add: step same_identity_def)
  have "\<exists>v. domain_of r v = Some dom \<and> (v, current_term d, local_id d) \<in> W"
    if h: "role d \<in> {Candidate, Leader}" "dom \<in> votes_granted_domains d" for dom
  proof (cases "role c \<in> {Candidate, Leader} \<and> current_term d = current_term c \<and> dom \<in> votes_granted_domains c")
    case True
    then obtain v where "domain_of r v = Some dom" "(v, current_term c, local_id c) \<in> V"
      using assms(1) unfolding ballot_backed_def by blast
    then show ?thesis using True assms(4) id by auto
  next
    case False
    from conjunct1 [OF b, THEN mp, OF h(1)] show ?thesis
    proof (elim disjE conjE exE)
      assume "votes_granted_domains d = {local_domain c}" "records_vote effs (current_term d) (local_id c)"
      then show ?thesis using h(2) assms(3) assms(5) [of "current_term d"] id step by (intro exI [of _ "local_id c"]) simp
    next
      fix v dom'
      assume v: "i = ReceiveMessage v (RequestVoteResponse (current_term c) v True)" "domain_of (roster c) v = Some dom'"
        "votes_granted_domains d = insert dom' (votes_granted_domains c)"
        and c: "role c \<in> {Candidate, Leader}" "current_term d = current_term c"
      have "dom = dom'" using False c h(2) v(3) by blast
      then show ?thesis using assms(2,4) assms(6) [OF v(1)] v(2) c(2) id by (intro exI [of _ v]) auto
    qed (use False h(2) in simp)
  qed
  moreover have "quorum_size r \<le> card (votes_granted_domains d)" if "role d = Leader"
    using b that assms(1,2) by (auto simp: ballot_backed_def)
  ultimately show ?thesis unfolding ballot_backed_def by (simp add: step)
qed

section \<open>Operations of an engine\<close>

lemma store_effects_steps: "store_effects sha fault effs db sm = (r, db', sm') \<Longrightarrow> db_steps db db'"
  using apply_durable_effects_steps [of db sha effs sm] stage_steps [of db sha effs None]
  by (auto simp: store_effects_def split: option.splits if_splits)

lemma store_effects_vote:
  assumes "store_effects sha fault effs db sm = (r, db', sm')" "records_vote effs t cand" "\<And>e. r \<noteq> Inl (Refused e)"
  shows "disk_vote db' t cand"
proof (rule apply_durable_effects_vote [OF _ assms(2,3)])
  show "apply_durable_effects sha effs db sm = (r, db', sm')"
    using assms(1,3) by (auto simp: store_effects_def split: option.splits if_splits)
qed

text \<open>What an operation must establish: the store evolves, and the engine and its messages are backed by the
  votes together with what is now on disk.\<close>

definition op_backed :: "vote_log \<Rightarrow> ValidatedVoterRoster \<Rightarrow> CellIdentity \<Rightarrow> SharedEngine \<Rightarrow> SharedEngine \<Rightarrow>
    (CellIdentity \<times> RaftMessage) list \<Rightarrow> bool" where
  "op_backed V r n eng eng' sends =
     (let db' = ds_store (eng_sync eng') in
      db_steps (ds_store (eng_sync eng)) db' \<and> engine_backed (with_disk V n db') r n eng' \<and>
      (\<forall>(p, m)\<in>set sends. message_backed (with_disk V n db') p m))"

lemma step_and_persist_backed:
  assumes run: "step_and_persist sha fault i peer pw rw eng = (res, eng', out, sends)"
    and backed: "engine_backed V r n eng"
    and input: "\<And>t v. i = ReceiveMessage v (RequestVoteResponse t v True) \<Longrightarrow> (v, t, n) \<in> V"
  shows "op_backed V r n eng eng' sends"
    and "res = Inr (Some m) \<Longrightarrow> \<exists>p. peer = Some p \<and> message_backed (with_disk V n (ds_store (eng_sync eng'))) p m"
proof -
  let ?c = "ds_core (eng_sync eng)" and ?W = "with_disk V n (ds_store (eng_sync eng'))"
  have c: "local_id ?c = n" "roster ?c = r" "domain_of r n = Some (local_domain ?c)" "3 \<le> length r"
    using backed by (simp_all add: engine_backed_def Let_def)
  have same: "local_id (fst (core_step sha ?c i)) = n \<and> roster (fst (core_step sha ?c i)) = r \<and>
      local_domain (fst (core_step sha ?c i)) = local_domain ?c"
    using core_step_identity [of ?c sha i] c by (simp add: same_identity_def)
  from run have both: "op_backed V r n eng eng' sends \<and>
    (\<forall>m. res = Inr (Some m) \<longrightarrow> (\<exists>p. peer = Some p \<and> message_backed ?W p m))"
  proof (cases rule: step_and_persist_cases)
    case halted
    then show ?thesis using engine_backed_mono [OF with_disk_mono backed] by (simp add: op_backed_def)
  next
    case (rejected reason)
    have "ds_core (eng_sync eng') = ?c" using core_step_rejected [OF rejected(3)] rejected(4) by simp
    then have "engine_backed V r n eng'" using backed rejected(1,2) by (simp add: engine_backed_def)
    then show ?thesis using engine_backed_mono [OF with_disk_mono] rejected(5-7) by (simp add: op_backed_def)
  next
    case (refused sm e)
    then show ?thesis using store_effects_steps [OF refused(4)] c same by (simp add: op_backed_def engine_backed_def Let_def del: not_None_eq)
  next
    case (stored x sm)
    have voted: "(n, t, v) \<in> ?W \<and> t \<le> i64_max" if "records_vote (snd (core_step sha ?c i)) t v" for t v
      using store_effects_vote [OF stored(4) that stored(5)] by (simp add: with_disk_def disk_vote_def)
    have "ballot_backed ?W r (fst (core_step sha ?c i))"
      by (rule core_step_backed [of V]) (use backed stored(1) c voted input in \<open>auto simp: engine_backed_def Let_def\<close>)
    then have eng: "engine_backed ?W r n eng'" using stored(3) c same by (simp add: engine_backed_def Let_def)
    have msg: "message_backed ?W p m" if "SendMessage p m \<in> set (snd (core_step sha ?c i))" for p m
      unfolding message_backed_def
    proof (intro allI impI)
      fix t v
      assume "m = RequestVoteResponse t v True"
      then have "v = n" "records_vote (snd (core_step sha ?c i)) t p"
        using core_step_vote_backed [of ?c sha i] that c(1) unfolding vote_backed_def by blast+
      then show "t \<le> i64_max \<and> (v, t, p) \<in> ?W" using voted by blast
    qed
    have sends: "message_backed ?W p m" if "(p, m) \<in> set sends" for p m
    proof -
      have "sends \<noteq> []" using that by (cases sends) simp_all
      then have "(p, m) \<in> set (snd (split_messages peer (snd (core_step sha ?c i))))" using stored(6) that by blast
      then show ?thesis using msg [OF split_messages_from(1)] by blast
    qed
    have "\<exists>p. peer = Some p \<and> message_backed ?W p m" if "res = Inr (Some m)" for m
    proof -
      have "fst (split_messages peer (snd (core_step sha ?c i))) = Some m" using stored(6) that by simp
      from split_messages_from(2) [OF this] show ?thesis using msg by blast
    qed
    then show ?thesis using eng sends store_effects_steps [OF stored(4)] unfolding op_backed_def Let_def by fast
  qed
  from both show "op_backed V r n eng eng' sends" by (rule conjunct1)
  show "res = Inr (Some m) \<Longrightarrow> \<exists>p. peer = Some p \<and> message_backed ?W p m" using both by blast
qed

text \<open>An operation that leaves core and halt flag alone, or changes only the log of the core.\<close>

lemma op_backed_same_core:
  assumes "engine_backed V r n eng" "db_steps (ds_store (eng_sync eng)) (ds_store (eng_sync eng'))"
    and "same_identity (ds_core (eng_sync eng)) (ds_core (eng_sync eng'))"
    and "role (ds_core (eng_sync eng')) = role (ds_core (eng_sync eng))"
      "current_term (ds_core (eng_sync eng')) = current_term (ds_core (eng_sync eng))"
      "votes_granted_domains (ds_core (eng_sync eng')) = votes_granted_domains (ds_core (eng_sync eng))"
      "ds_sticky_fatal_error (eng_sync eng') = ds_sticky_fatal_error (eng_sync eng)"
  shows "op_backed V r n eng eng' []"
proof -
  have id: "local_id (ds_core (eng_sync eng')) = local_id (ds_core (eng_sync eng))"
      "roster (ds_core (eng_sync eng')) = roster (ds_core (eng_sync eng))"
      "local_domain (ds_core (eng_sync eng')) = local_domain (ds_core (eng_sync eng))"
    using assms(3) by (simp_all add: same_identity_def)
  have "ballot_backed V r (ds_core (eng_sync eng')) = ballot_backed V r (ds_core (eng_sync eng))"
    unfolding ballot_backed_def assms(4-6) id ..
  then have "engine_backed V r n eng'" using assms(1,7) id by (simp add: engine_backed_def Let_def)
  then show ?thesis using assms(2) engine_backed_mono [OF with_disk_mono] by (simp add: op_backed_def)
qed

lemma same_identity_refl [simp]: "same_identity c c"
  by (simp add: same_identity_def)

lemma record_local_snapshot_ballot:
  "same_identity c (fst (record_local_snapshot m b k c))" "role (fst (record_local_snapshot m b k c)) = role c"
  "current_term (fst (record_local_snapshot m b k c)) = current_term c"
  "votes_granted_domains (fst (record_local_snapshot m b k c)) = votes_granted_domains c"
  by (simp_all add: record_local_snapshot_def same_identity_def Let_def split: option.split)

lemma engine_op_backed:
  assumes "engine_op sha eng eng' sends" "engine_backed V r n eng"
  shows "op_backed V r n eng eng' sends"
  using assms
proof (induction rule: engine_op.induct)
  case (tick fault eng res eng' out sends)
  then show ?case using step_and_persist_backed(1) [OF tick(1,2)] by simp
next
  case (propose fault p expected tx eng res eng' out sends)
  then show ?case using step_and_persist_backed(1) [OF propose(1) [unfolded propose_fenced_def] propose(2)] by simp
next
  case (read fault expected tx eng res eng' out sends)
  let ?eng = "eng\<lparr>eng_next_read_id := (eng_next_read_id eng + 1) mod 2 ^ 64\<rparr>"
  have "engine_backed V r n ?eng" using read(2) by (simp add: engine_backed_def)
  with step_and_persist_backed(1) [OF read(1) [unfolded linearizable_read_def Let_def]]
  have "op_backed V r n ?eng eng' sends" by simp
  then show ?case by (simp add: op_backed_def)
next
  case (abandon eng read_id)
  then show ?case by (rule op_backed_same_core) (simp_all add: read_abandoned_def same_identity_def)
next
  case (snapshot eng res eng')
  let ?db = "ds_store (eng_sync eng)"
  have made: "db_steps ?db db1" if "create_snapshot sha k t b ?db = (x, db1)" for k t b x db1
    using create_steps [of ?db sha k t b] that by simp
  have compacted: "db_steps ?db db2" if "create_snapshot sha k t b ?db = (x, db1)" "compact_log_up_to k db1 = Inr db2" for k t b x db1 db2
    using db_steps_trans [OF made [OF that(1)] compact_steps [OF that(2)]] .
  have "db_steps ?db (ds_store (eng_sync eng'))"
    using snapshot(1) made compacted
    by (auto simp: driver_create_snapshot_and_compact_def Let_def split: option.splits prod.splits sum.splits)
  moreover have "ds_sticky_fatal_error (eng_sync eng') = ds_sticky_fatal_error (eng_sync eng)"
      "ds_core (eng_sync eng') = ds_core (eng_sync eng) \<or>
       (\<exists>m b k. ds_core (eng_sync eng') = fst (record_local_snapshot m b k (ds_core (eng_sync eng))))"
    using snapshot(1)
    by (auto simp: driver_create_snapshot_and_compact_def Let_def split: option.splits prod.splits sum.splits) blast
  ultimately show ?case
    using snapshot(2) by (intro op_backed_same_core) (auto simp: record_local_snapshot_ballot)
next
  case (shutdown eng eng' out)
  then show ?case by (intro op_backed_same_core) (auto simp: driver_shutdown_def Let_def same_identity_def)
qed

lemma engine_open_backed:
  assumes "engine_open sha wal n r timing_opt db = (Inr eng, db')"
  shows "ds_store (eng_sync eng) = db'" "engine_backed V r n eng"
proof -
  obtain tm rec core where open_eqs: "open_or_recover sha wal db = (Inr rec, db')" "\<not> length r < 3"
      "rehydrate n r tm (rec_core_state rec) = Inr core" "ds_core (eng_sync eng) = core" "ds_store (eng_sync eng) = db'"
    using assms by (auto simp: engine_open_def split: if_splits sum.splits prod.splits)
  show "ds_store (eng_sync eng) = db'" by (rule open_eqs(5))
  have "local_id core = n" "roster core = r" "domain_of r n = Some (local_domain core)" "role core = Follower"
    using open_eqs(2,3) by (auto simp: rehydrate_def core_new_def result_bind_eq_Inr Let_def split: option.splits if_splits)
  then show "engine_backed V r n eng" using open_eqs(2) by (simp add: engine_backed_def ballot_backed_def open_eqs(4))
qed

lemma engine_open_steps:
  assumes "engine_open sha wal n r timing_opt db = (x, db')"
  shows "db_steps db db'"
  using assms open_steps [of db sha wal] by (auto simp: engine_open_def split: if_splits sum.splits prod.splits)

section \<open>Frames\<close>

definition frame_backed :: "sha256_fn \<Rightarrow> vote_log \<Rightarrow> frame \<Rightarrow> bool" where
  "frame_backed sha V f = (case f of (_, target, bytes) \<Rightarrow>
     \<forall>t v. decode_raft_message sha bytes = Inr (RequestVoteResponse t v True) \<longrightarrow> (v, t, target) \<in> V)"

lemma frame_backed_mono: "V \<subseteq> W \<Longrightarrow> frame_backed sha V f \<Longrightarrow> frame_backed sha W f"
  by (auto simp: frame_backed_def)

lemma u64_be_inject: "t \<le> u64_max \<Longrightarrow> t' \<le> u64_max \<Longrightarrow> u64_be t = u64_be t' \<longleftrightarrow> t = t'"
  unfolding u64_be_def u64_max_def
  by (subst to_be_inject [where n = 8]) (simp_all add: of_nat_inverse word_unat_eq_iff unat_of_nat take_bit_nat_eq_self)

lemma encoded_frame_backed:
  assumes "encode_raft_message sha m = Some bytes" "message_backed V target m"
  shows "frame_backed sha V (from_cell, target, bytes)"
proof -
  have "(v, t, target) \<in> V" if dec: "decode_raft_message sha bytes = Inr (RequestVoteResponse t v True)" for t v
  proof -
    have ok: "t \<le> u64_max" and enc: "encode_raft_message sha (RequestVoteResponse t v True) = Some bytes"
      using decode_raft_message_canonical [OF dec] by simp_all
    have sent: "\<exists>h :: bytes32. bytes = (RAFT_WIRE_MAGIC @ encode_raft_body x) @ to_be h"
      if "encode_raft_message sha x = Some bytes" for x
      using that by (auto simp: encode_raft_message_def Let_def split: if_splits)
    obtain h h' :: bytes32 where "(RAFT_WIRE_MAGIC @ encode_raft_body m) @ to_be h =
        (RAFT_WIRE_MAGIC @ encode_raft_body (RequestVoteResponse t v True)) @ to_be h'"
      using sent [OF assms(1)] sent [OF enc] by metis
    then have body: "encode_raft_body m = 4 # u64_be t @ to_be v @ [bool_u8 True]"
      by (subst (asm) append_eq_append_conv) simp_all
    obtain t' v' g where m: "m = RequestVoteResponse t' v' g" using body by (cases m) simp_all
    have "u64_be t' = u64_be t" "to_be v' = to_be v" "bool_u8 g = bool_u8 True"
      using body by (simp_all add: m u64_be_def)
    then have g: "g" "v' = v" by (simp_all add: bool_u8_def split: if_splits)
    then have t': "t' \<le> i64_max" "(v, t', target) \<in> V" using assms(2) by (simp_all add: message_backed_def m)
    have "t' \<le> u64_max" using t'(1) i64_max_less by simp
    then have "t' = t" using \<open>u64_be t' = u64_be t\<close> ok u64_be_inject by blast
    then show ?thesis using t'(2) by simp
  qed
  then show ?thesis by (simp add: frame_backed_def)
qed

lemma empty_frame_backed: "frame_backed sha V (a, b, [])"
  by (simp add: frame_backed_def decode_raft_message_def)

lemma handle_rpc_backed:
  assumes "handle_rpc sha fault from_cell bytes eng = (reply, eng', out, sends)" "engine_backed V r n eng"
    and "frame_backed sha V (from_cell, n, bytes)"
  shows "op_backed V r n eng eng' sends \<and> (\<forall>p. reply = Some (RpcOk, p) \<longrightarrow>
    frame_backed sha (with_disk V n (ds_store (eng_sync eng'))) (n, from_cell, p))"
proof (cases "eng_shutting_down eng \<or> (\<exists>e. decode_raft_message sha bytes = Inl e)")
  case True
  then have "eng' = eng" "sends = []" "reply = Some (PreExecutionUnavailable, [])"
    using assms(1) by (auto simp: handle_rpc_def split: if_splits)
  then show ?thesis using engine_backed_mono [OF with_disk_mono assms(2)] by (simp add: op_backed_def)
next
  case False
  then obtain m where m: "decode_raft_message sha bytes = Inr m" by (cases "decode_raft_message sha bytes") auto
  obtain res eng1 out1 sends1 where run: "step_and_persist sha fault (ReceiveMessage from_cell m) (Some from_cell) None None eng =
      (res, eng1, out1, sends1)" by (metis prod_cases4)
  have input: "(v, t, n) \<in> V" if "ReceiveMessage from_cell m = ReceiveMessage v (RequestVoteResponse t v True)" for t v
    using that assms(3) m by (simp add: frame_backed_def)
  note step = step_and_persist_backed [OF run assms(2) input]
  have same: "eng' = eng1" "sends = sends1"
    and reply: "reply = Some (RpcOk, p) \<Longrightarrow> p = [] \<or> (\<exists>x. res = Inr (Some x) \<and> encode_raft_message sha x = Some p)" for p
    using assms(1) False by (auto simp: handle_rpc_def m run split: sum.splits option.splits NodeFailure.splits)
  have "frame_backed sha (with_disk V n (ds_store (eng_sync eng'))) (n, from_cell, p)" if "reply = Some (RpcOk, p)" for p
    using reply [OF that] step(2) same(1) encoded_frame_backed empty_frame_backed by fastforce
  then show ?thesis using step(1) same by blast
qed

lemma handle_reply_backed:
  assumes "handle_reply sha fault peer payload eng = (eng', out, sends)" "engine_backed V r n eng"
    and "frame_backed sha V (peer, n, payload)"
  shows "op_backed V r n eng eng' sends"
proof (cases "payload = [] \<or> (\<exists>e. decode_raft_message sha payload = Inl e)")
  case True
  then have "eng' = eng" "sends = []" using assms(1) by (auto simp: handle_reply_def split: if_splits)
  then show ?thesis using engine_backed_mono [OF with_disk_mono assms(2)] by (simp add: op_backed_def)
next
  case False
  then obtain m where m: "decode_raft_message sha payload = Inr m" by (cases "decode_raft_message sha payload") auto
  obtain res where run: "step_and_persist sha fault (ReceiveMessage peer m) None None None eng = (res, eng', out, sends)"
    using assms(1) False m by (cases "step_and_persist sha fault (ReceiveMessage peer m) None None None eng") (simp add: handle_reply_def)
  show ?thesis
    by (rule step_and_persist_backed(1) [OF run assms(2)]) (use assms(3) m in \<open>simp add: frame_backed_def\<close>)
qed

section \<open>The cluster\<close>

definition cluster_backed :: "sha256_fn \<Rightarrow> ValidatedVoterRoster \<Rightarrow> vote_log \<Rightarrow> Cluster \<Rightarrow> bool" where
  "cluster_backed sha r V s = (single_votes V \<and>
     (\<forall>n. disk_backed V n (node_store (cl_nodes s n)) \<and>
        (\<forall>eng q. cl_nodes s n = Up eng q \<longrightarrow> engine_backed V r n eng \<and> (\<forall>(p, m)\<in>set q. message_backed V p m))) \<and>
     (\<forall>f\<in>cl_requests s \<union> cl_replies s. frame_backed sha V f))"

text \<open>Every step touches one node and adds frames.\<close>

lemma cluster_backed_update:
  assumes "cluster_backed sha r V s" "W = with_disk V n (node_store x)"
    and "db_steps (node_store (cl_nodes s n)) (node_store x)"
    and "\<And>eng q. x = Up eng q \<Longrightarrow> engine_backed W r n eng \<and> (\<forall>(p, m)\<in>set q. message_backed W p m)"
    and "cl_nodes s' = (cl_nodes s)(n := x)"
    and "\<And>f. f \<in> cl_requests s' \<union> cl_replies s' \<Longrightarrow> f \<in> cl_requests s \<union> cl_replies s \<or> frame_backed sha W f"
  shows "cluster_backed sha r W s'"
proof -
  have VW: "V \<subseteq> W" by (simp add: assms(2))
  have "disk_backed V n (node_store (cl_nodes s n))" "single_votes V"
    using assms(1) by (simp_all add: cluster_backed_def)
  note here = disk_backed_step [OF this(2,1) assms(3), folded assms(2)]
  have disk: "disk_backed W k (node_store (cl_nodes s' k))" for k
    using assms(1) here(2) disk_backed_other [of k n V "node_store (cl_nodes s k)" "node_store x"]
    by (cases "k = n") (simp_all add: assms(2,5) cluster_backed_def)
  have up: "engine_backed W r k eng \<and> (\<forall>(p, m)\<in>set q. message_backed W p m)" if h: "cl_nodes s' k = Up eng q" for k eng q
  proof (cases "k = n")
    case True
    then show ?thesis using assms(4) h by (simp add: assms(5))
  next
    case False
    then have "engine_backed V r k eng" "\<forall>(p, m)\<in>set q. message_backed V p m"
      using assms(1) h by (simp_all add: assms(5) cluster_backed_def)
    then show ?thesis using engine_backed_mono [OF VW] message_backed_mono [OF VW] by blast
  qed
  have "frame_backed sha W f" if "f \<in> cl_requests s' \<union> cl_replies s'" for f
    using assms(6) [OF that] assms(1) frame_backed_mono [OF VW] unfolding cluster_backed_def by blast
  then show ?thesis using here(1) disk up by (simp add: cluster_backed_def)
qed

lemma cluster_backed_engine:
  assumes "cluster_backed sha r V s" "cl_nodes s n = Up eng q" "op_backed V r n eng eng' sends"
    and "cl_nodes s' = (cl_nodes s)(n := Up eng' (q @ sends))" "cl_requests s' = cl_requests s"
    and "\<And>f. f \<in> cl_replies s' \<Longrightarrow> f \<in> cl_replies s \<or> frame_backed sha (with_disk V n (ds_store (eng_sync eng'))) f"
  shows "\<exists>W. V \<subseteq> W \<and> cluster_backed sha r W s'"
proof (intro exI conjI)
  let ?W = "with_disk V n (node_store (Up eng' (q @ sends)))"
  show "V \<subseteq> ?W" by simp
  have q: "\<forall>(p, m)\<in>set q. message_backed ?W p m"
    using assms(1,2) message_backed_mono [OF with_disk_mono] by (fastforce simp: cluster_backed_def)
  show "cluster_backed sha r ?W s'"
    by (rule cluster_backed_update [OF assms(1) refl _ _ assms(4)])
      (use assms(2,3,5,6) q in \<open>auto simp: op_backed_def Let_def\<close>)
qed

lemma subseq_set_subset: "subseq xs ys \<Longrightarrow> set xs \<subseteq> set ys"
  by (induction rule: list_emb.induct) auto

lemma transmitted_backed:
  assumes "b \<in> transmitted sha peer eng q" "\<forall>(p, m)\<in>set q. message_backed V p m"
  shows "frame_backed sha V (n, peer, b)"
proof -
  obtain batch t rounds m where m: "m \<in> set (coalesce_outbound_peer_batch batch t rounds)" "encode_raft_message sha m = Some b"
      and batch: "batch = map snd (filter (\<lambda>(p, _). p = peer) q)"
    using assms(1) by (auto simp: transmitted_def Let_def snapshot_coalesce_state_def)
  have "m \<in> set (rev (rev (filter (\<lambda>m. t \<le> outbound_message_term m) batch)))"
    by (rule subsetD [OF subseq_set_subset [OF drop_superseded_subseq]]) (use m(1) in \<open>simp add: coalesce_outbound_peer_batch_def\<close>)
  then have "(peer, m) \<in> set q" by (auto simp: batch)
  then show ?thesis using assms(2) encoded_frame_backed [OF m(2)] by blast
qed

lemma cluster_step_backed:
  assumes "cluster_step sha r tm s s'" "cluster_backed sha r V s"
  shows "\<exists>W. V \<subseteq> W \<and> cluster_backed sha r W s'"
  using assms
proof (induction rule: cluster_step.induct)
  case (start s n db wal eng db')
  show ?case
    by (rule exI [of _ "with_disk V n (node_store (Up eng []))"], rule conjI [OF with_disk_mono],
        rule cluster_backed_update [OF start(3) refl, where x = "Up eng []"])
      (use start engine_open_steps [OF start(2)] engine_open_backed [OF start(2)] in \<open>auto simp: set_node_def\<close>)
next
  case (start_failed s n db wal f db')
  show ?case
    by (rule exI [of _ "with_disk V n (node_store (Down db'))"], rule conjI [OF with_disk_mono],
        rule cluster_backed_update [OF start_failed(3) refl, where x = "Down db'"])
      (use start_failed engine_open_steps [OF start_failed(2)] in \<open>auto simp: set_node_def\<close>)
next
  case (crash s n)
  show ?case
    by (rule exI [of _ "with_disk V n (node_store (Down (node_store (cl_nodes s n))))"], rule conjI [OF with_disk_mono],
        rule cluster_backed_update [OF crash refl]) (auto simp: set_node_def)
next
  case (operate s n eng q eng' sends)
  then have "engine_backed V r n eng" by (simp add: cluster_backed_def)
  then show ?case
    by (intro cluster_backed_engine [OF operate(3,1) engine_op_backed [OF operate(2)]]) (simp_all add: set_node_def)
next
  case (transmit s n eng q peer)
  then have q: "engine_backed V r n eng" "\<forall>(p, m)\<in>set q. message_backed V p m" by (simp_all add: cluster_backed_def)
  let ?W = "with_disk V n (ds_store (eng_sync eng))"
  have "engine_backed ?W r n eng" "\<forall>(p, m)\<in>set q. message_backed ?W p m"
    using q engine_backed_mono [OF with_disk_mono] message_backed_mono [OF with_disk_mono] by blast+
  then show ?case
    by (intro exI [of _ ?W] conjI with_disk_mono, intro cluster_backed_update [OF transmit(2), where x = "Up eng (filter (\<lambda>(p, _). p \<noteq> peer) q)"])
      (use transmit(1) transmitted_backed in \<open>auto simp: set_node_def\<close>)
next
  case (request from_cell n bytes s eng q fault reply eng' out sends)
  have eng: "engine_backed V r n eng" and frame: "frame_backed sha V (from_cell, n, bytes)"
    using request by (simp_all add: cluster_backed_def)
  have "op_backed V r n eng eng' sends \<and> (\<forall>p. reply = Some (RpcOk, p) \<longrightarrow>
      frame_backed sha (with_disk V n (ds_store (eng_sync eng'))) (n, from_cell, p))"
    by (rule handle_rpc_backed [OF request(3) eng frame])
  then show ?case
    by (intro cluster_backed_engine [OF request(4,2), of eng' sends]) (auto simp: set_node_def)
next
  case (reply peer n payload s eng q fault eng' out sends)
  have eng: "engine_backed V r n eng" and frame: "frame_backed sha V (peer, n, payload)"
    using reply by (simp_all add: cluster_backed_def)
  show ?case
    by (rule cluster_backed_engine [OF reply(4,2) handle_reply_backed [OF reply(3) eng frame]]) (simp_all add: set_node_def)
qed

lemma cluster_init_backed: "cluster_init s \<Longrightarrow> cluster_backed sha r {} s"
  by (simp add: cluster_init_def cluster_backed_def single_votes_def disk_backed_def disk_vote_def empty_store_def
      db_inv_def log_keys_ok_def)

lemma cluster_reach_backed: "reach cluster_init (cluster_step sha r tm) s \<Longrightarrow> \<exists>V. cluster_backed sha r V s"
proof (induction rule: reach.induct)
  case (reach_step s t)
  then show ?case using cluster_step_backed by blast
qed (use cluster_init_backed in blast)

lemma cluster_run_backed:
  assumes "(cluster_step sha r tm)\<^sup>*\<^sup>* s s'" "cluster_backed sha r V s"
  shows "\<exists>W. V \<subseteq> W \<and> cluster_backed sha r W s'"
  using assms
proof (induction rule: rtranclp_induct)
  case (step y z)
  then obtain W where "V \<subseteq> W" "cluster_backed sha r W y" by blast
  then show ?case using cluster_step_backed [OF step.hyps(2)] by (meson subset_trans)
qed blast

section \<open>One leader per term\<close>

text \<open>The node runs, has not halted on a store failure, and is leader of the term.\<close>

definition leads :: "Cluster \<Rightarrow> CellIdentity \<Rightarrow> ConsensusTerm \<Rightarrow> bool" where
  "leads s n t = (case cl_nodes s n of
     Up eng q \<Rightarrow> ds_sticky_fatal_error (eng_sync eng) = None \<and> role (ds_core (eng_sync eng)) = Leader \<and>
       current_term (ds_core (eng_sync eng)) = t
   | Down db \<Rightarrow> False)"

lemma domain_of_member: "domain_of r v = Some d \<Longrightarrow> \<exists>m\<in>set r. cell_identity m = v \<and> control_domain_id m = d"
  by (auto simp: domain_of_def find_Some_iff)

lemma domain_of_unique:
  assumes "distinct (map control_domain_id r)" "domain_of r v = Some d" "domain_of r w = Some d"
  shows "v = w"
proof -
  have "inj_on control_domain_id (set r)" using assms(1) by (simp add: distinct_map)
  then show ?thesis using domain_of_member [OF assms(2)] domain_of_member [OF assms(3)] by (auto dest: inj_onD)
qed

text \<open>A leader holds the votes of a majority of the domains.\<close>

lemma leads_quorum:
  assumes "cluster_backed sha r V s" "leads s n t"
  obtains D where "D \<subseteq> control_domain_id ` set r" "quorum_size r \<le> card D" "3 \<le> length r"
    "\<And>d. d \<in> D \<Longrightarrow> \<exists>v. domain_of r v = Some d \<and> (v, t, n) \<in> V"
proof -
  obtain eng q where eng: "cl_nodes s n = Up eng q" "ds_sticky_fatal_error (eng_sync eng) = None"
      "role (ds_core (eng_sync eng)) = Leader" "current_term (ds_core (eng_sync eng)) = t"
    using assms(2) by (auto simp: leads_def split: NodeState.splits)
  let ?D = "votes_granted_domains (ds_core (eng_sync eng))"
  have "engine_backed V r n eng" using assms(1) eng(1) by (simp add: cluster_backed_def)
  then have D: "quorum_size r \<le> card ?D" "3 \<le> length r" "\<forall>d\<in>?D. \<exists>v. domain_of r v = Some d \<and> (v, t, n) \<in> V"
    using eng(2-4) by (auto simp: engine_backed_def ballot_backed_def Let_def)
  moreover have "?D \<subseteq> control_domain_id ` set r"
  proof
    fix d
    assume "d \<in> ?D"
    then obtain v where "domain_of r v = Some d" using D(3) by blast
    then show "d \<in> control_domain_id ` set r" using domain_of_member by (metis imageI)
  qed
  ultimately show ?thesis using that by blast
qed

lemma quorums_meet:
  assumes "A \<subseteq> control_domain_id ` set r" "B \<subseteq> control_domain_id ` set r" "quorum_size r \<le> card A" "quorum_size r \<le> card B"
  shows "A \<inter> B \<noteq> {}"
proof
  assume "A \<inter> B = {}"
  have fin: "finite A" "finite B" using assms(1,2) finite_subset by auto
  have "card A + card B = card (A \<union> B)" using card_Un_disjoint [OF fin \<open>A \<inter> B = {}\<close>] by simp
  also have "\<dots> \<le> card (control_domain_id ` set r)" using assms(1,2) by (intro card_mono) auto
  also have "\<dots> \<le> length r" using card_image_le [of "set r" control_domain_id] card_length [of r] by simp
  finally show False using assms(3,4) by (simp add: quorum_size_def)
qed

end
