(* ===== verification/ClusterRun.thy ===== *)
theory ClusterRun
  imports ElectionSafety StoreProps
begin

text \<open>
  Runs of a cluster without faults: \<open>calm_step\<close> is \<open>cluster_step\<close> without failing transactions, crashes
  and restarts. They are built from the cores alone. A \<open>Run\<close> state has the core of each running
  node and the messages sent so far; \<open>run_step\<close> steps one core with an input and records what it sends.
  When every input and message fits the store and the wire, the cluster follows by calm steps: it reaches a state with the
  same cores and the corresponding frames.
\<close>

section \<open>Applying committed entries\<close>

definition machine_upto :: "nat \<Rightarrow> ControlPlaneStateMachine \<Rightarrow> bool" where
  "machine_upto k s = (sm_inv s \<and> tables_within k s \<and> unat (last_applied_index s) = k)"

lemma machine_upto_new: "machine_upto 0 sm_new"
  using sm_inv_new by (simp add: machine_upto_def tables_within_def sm_new_def)

lemma apply_committed_succeeds:
  assumes "machine_upto k s" "contiguous (Suc k) es" "\<forall>e\<in>set es. 0 < re_term e" "k + length es < 2 ^ 32"
  shows "\<exists>rs t. apply_committed sha es s = (Inr rs, t) \<and> machine_upto (k + length es) t"
  using assms
proof (induction es arbitrary: k s)
  case (Cons e es)
  have e: "re_index e = Suc k" "contiguous (Suc (Suc k)) es" using Cons.prems(2) by simp_all
  obtain t out where t: "apply_committed_entry sha (of_nat (Suc k)) (of_nat (re_term e)) (re_proposal e) s = Inr (t, out)"
      "sm_inv t" "unat (last_applied_index t) = Suc k"
    using apply_next [of s "Suc k" sha "of_nat (re_term e)" "re_proposal e"] Cons.prems(1,4)
    by (auto simp: machine_upto_def i64_max_def)
  have within: "machine_upto (Suc k) t"
    using t apply_committed_entry_within [OF t(1)] Cons.prems(1) by (simp add: machine_upto_def)
  obtain root where root: "state_root_digest sha t = Some root"
    using tables_within_digest [of "Suc k" t sha] within Cons.prems(4) by (auto simp: machine_upto_def)
  obtain rs u where "apply_committed sha es t = (Inr rs, u)" "machine_upto (Suc k + length es) u"
    using Cons.IH [OF within e(2)] Cons.prems(3,4) by auto
  then show ?case
    using Cons.prems(1,3) e(1) t(1) root by (simp add: machine_upto_def)
qed simp

lemma apply_durable_effects_succeeds:
  assumes "holds sha du db" "du_ok sha du" "replay sha effs du = Some du1" "\<And>m b. InstallSnapshot m b \<notin> set effs"
    and "machine_upto k s" "contiguous (Suc k) (committed_of effs)" "\<forall>e\<in>set (committed_of effs). 0 < re_term e"
      "k + length (committed_of effs) < 2 ^ 32"
  shows "\<exists>rs db1 t. apply_durable_effects sha effs db s = (Inr rs, db1, t) \<and>
    holds sha du1 db1 \<and> machine_upto (k + length (committed_of effs)) t"
proof (cases "list_ex is_storage_effect effs")
  case False
  have "committed_of effs = []"
    using False by (auto simp: committed_of_def list_ex_iff split: ConsensusEffect.splits)
  then show ?thesis
    using False assms(1,5) replay_no_storage [OF False assms(3)] by (simp add: apply_durable_effects_def)
next
  case True
  obtain db1 where db1: "effects_tx sha None effs db = Inr db1"
    using effects_tx_refines [OF assms(1) _ refl assms(2,3), of None] assms(1,4) by (auto simp: holds_def)
  obtain rs t where rs: "apply_committed sha (committed_of effs) s = (Inr rs, t)"
      "machine_upto (k + length (committed_of effs)) t"
    using apply_committed_succeeds [OF assms(5-8)] by blast
  have run: "apply_durable_effects sha effs db s = (Inr rs, db1, t)"
    using True by (simp add: apply_durable_effects_def stage_no_install [OF assms(4)] db1 rs(1))
  have "filter (\<lambda>eff. case eff of InstallSnapshot _ _ \<Rightarrow> True | _ \<Rightarrow> False) effs = []"
    using assms(4) by (auto simp: filter_empty_conv split: ConsensusEffect.splits)
  then have "one_install effs" by (simp add: one_install_def)
  then show ?thesis using durable_effects_refine [OF assms(1-3), of s] rs(2) run by simp
qed

section \<open>A step of an engine\<close>

definition engine_at :: "sha256_fn \<Rightarrow> ConsensusCore \<Rightarrow> SharedEngine \<Rightarrow> bool" where
  "engine_at sha c eng = (let ds = eng_sync eng in
     ds_core ds = c \<and> ds_sticky_fatal_error ds = None \<and> ds_pending_reads ds = [] \<and>
     \<not> eng_shutting_down eng \<and> set (eng_peers eng) = set (peers c) \<and> core_storable sha c \<and>
     holds sha (core_durable c) (ds_store ds) \<and> machine_upto (commit_index c) (ds_state_machine ds))"

text \<open>What a step of a core must meet for the store and the wire to follow.\<close>

definition message_fits :: "sha256_fn \<Rightarrow> RaftMessage \<Rightarrow> bool" where
  "message_fits sha m = (wire_message_ok sha m \<and> wire_lengths_fit m)"

definition step_fits :: "sha256_fn \<Rightarrow> ConsensusCore \<Rightarrow> ConsensusInput \<Rightarrow> ConsensusCore \<Rightarrow> ConsensusEffect list \<Rightarrow> bool" where
  "step_fits sha c i d effs =
     (input_storable sha i \<and> input_in_range i \<and> current_term c < i64_max \<and> last_log_index c < i64_max \<and>
      list_all (\<lambda>e. case e of InstallSnapshot _ _ \<Rightarrow> False | ProposalRejected _ _ \<Rightarrow> False
        | LinearizableReadConfirmed _ _ _ \<Rightarrow> False | _ \<Rightarrow> True) effs \<and>
      contiguous (Suc (commit_index c)) (committed_of effs) \<and> list_all (\<lambda>e. 0 < re_term e) (committed_of effs) \<and>
      commit_index d = commit_index c + length (committed_of effs) \<and> commit_index d < 2 ^ 32)"

lemma step_fits_no_install: "step_fits sha c i d effs \<Longrightarrow> InstallSnapshot m b \<notin> set effs"
  by (fastforce simp: step_fits_def list_all_iff)

lemma step_fits_no_rejection:
  assumes "step_fits sha c i d effs"
  shows "immediate_rejection effs = None"
proof -
  have "\<forall>e\<in>set effs. case e of ProposalRejected _ _ \<Rightarrow> False | _ \<Rightarrow> True"
    using assms by (auto simp: step_fits_def list_all_iff split: ConsensusEffect.splits)
  then have "\<forall>e\<in>set effs. (case e of ProposalRejected None reason \<Rightarrow> [reason] | _ \<Rightarrow> []) = []"
    by (auto split: ConsensusEffect.splits)
  then show ?thesis by (simp add: immediate_rejection_def)
qed

lemma waiters_reads [simp]:
  "ds_pending_reads (fst (register_proposal w effs ds)) = ds_pending_reads ds"
  "ds_pending_reads (fst (deliver_receipts rs ds)) = ds_pending_reads ds"
  "ds_state_machine (fst (deliver_receipts rs ds)) = ds_state_machine ds"
  "ds_state_machine (fst (settle_effects es ds)) = ds_state_machine ds"
proof -
  show "ds_pending_reads (fst (register_proposal w effs ds)) = ds_pending_reads ds"
    by (simp add: register_proposal_def split: option.split prod.split)
  show "ds_pending_reads (fst (deliver_receipts rs ds)) = ds_pending_reads ds"
    "ds_state_machine (fst (deliver_receipts rs ds)) = ds_state_machine ds"
    by (induction rs ds rule: deliver_receipts.induct; simp add: Let_def case_prod_beta split: option.split)+
  have "ds_state_machine (fst (settle_effect e ds)) = ds_state_machine ds" for e ds
    by (cases "(e, ds)" rule: settle_effect.cases; simp split: option.split)
  then show "ds_state_machine (fst (settle_effects es ds)) = ds_state_machine ds"
    by (induction es arbitrary: ds; simp add: Let_def case_prod_beta)
qed

lemma settle_reads:
  "ds_pending_reads ds = [] \<Longrightarrow> ds_pending_reads (fst (settle_effects es ds)) = []"
proof (induction es arbitrary: ds)
  case (Cons e es)
  have "ds_pending_reads (fst (settle_effect e ds)) = []"
    using Cons.prems by (cases "(e, ds)" rule: settle_effect.cases; simp add: bt_get_def split: option.split)
  then show ?case using Cons.IH by (simp add: Let_def case_prod_beta)
qed simp

lemma engine_step:
  assumes at: "engine_at sha c eng" and step: "core_step sha c i = (d, effs)" and fits: "step_fits sha c i d effs"
  shows "\<exists>eng' out. step_and_persist sha None i peer pw None eng =
      (Inr (fst (split_messages peer effs)), eng', out, filter (\<lambda>(p, _). p \<in> set (peers c)) (snd (split_messages peer effs))) \<and>
    engine_at sha d eng'"
proof -
  let ?ds = "eng_sync eng"
  have c: "ds_core ?ds = c" "ds_sticky_fatal_error ?ds = None" "ds_pending_reads ?ds = []" "\<not> eng_shutting_down eng"
      "set (eng_peers eng) = set (peers c)" "core_storable sha c" "holds sha (core_durable c) (ds_store ?ds)"
      "machine_upto (commit_index c) (ds_state_machine ?ds)"
    using at by (simp_all add: engine_at_def Let_def)
  have f: "input_storable sha i" "input_in_range i" "current_term c < i64_max" "last_log_index c < i64_max"
      "contiguous (Suc (commit_index c)) (committed_of effs)" "\<forall>e\<in>set (committed_of effs). 0 < re_term e"
      "commit_index d = commit_index c + length (committed_of effs)" "commit_index d < 2 ^ 32"
    using fits by (simp_all add: step_fits_def list_all_iff)
  have ok: "du_ok sha (core_durable c)" using c(6) by (simp add: core_storable_def)
  have "persists sha c (core_step sha c i)" by (rule core_step_persists [OF c(6) f(1,3,4)])
  then have replay: "replay sha effs (core_durable c) = Some (core_durable d)"
    using replay_stored [OF ok] step by (simp add: persists_def)
  have storable: "core_storable sha d" using core_step_storable [OF c(6) f(1-4)] step by simp
  have same: "peers d = peers c" using core_step_identity [of c sha i] step by (simp add: same_identity_def peers_def)
  obtain ds2 displaced where ds2: "register_proposal pw effs (?ds\<lparr>ds_core := d\<rparr>) = (ds2, displaced)" by (meson surj_pair)
  have ds2': "ds_core ds2 = d" "ds_store ds2 = ds_store ?ds" "ds_sticky_fatal_error ds2 = None"
      "ds_state_machine ds2 = ds_state_machine ?ds" "ds_pending_reads ds2 = []"
    using waiters_keep(1-4) [of pw effs "?ds\<lparr>ds_core := d\<rparr>"] waiters_reads(1) [of pw effs "?ds\<lparr>ds_core := d\<rparr>"] c(2,3)
    unfolding ds2 by simp_all
  obtain rs db t where st: "apply_durable_effects sha effs (ds_store ?ds) (ds_state_machine ?ds) = (Inr rs, db, t)"
      "holds sha (core_durable d) db" "machine_upto (commit_index d) t"
    using apply_durable_effects_succeeds [OF c(7) ok replay step_fits_no_install [OF fits] c(8) f(5,6)] f(7,8) by auto
  define ds4 where "ds4 = ds2\<lparr>ds_store := db, ds_state_machine := t\<rparr>"
  define ds6 where "ds6 = fst (deliver_receipts rs (fst (settle_effects effs ds4)))"
  have ds6: "ds_core ds6 = d" "ds_sticky_fatal_error ds6 = None" "ds_pending_reads ds6 = []" "ds_store ds6 = db"
      "ds_state_machine ds6 = t"
    by (simp_all add: ds6_def ds4_def ds2' settle_reads)
  have "step_and_persist sha None i peer pw None eng = (Inr (fst (split_messages peer effs)), eng\<lparr>eng_sync := ds6\<rparr>,
      displaced @ snd (settle_effects effs ds4) @ snd (deliver_receipts rs (fst (settle_effects effs ds4))),
      filter (\<lambda>(p, _). p \<in> set (peers c)) (snd (split_messages peer effs)))"
    using c(1,2,4,5) step_fits_no_rejection [OF fits]
    by (simp add: step_and_persist_def Let_def step ds2 register_read_def store_effects_def st(1) ds2' case_prod_beta
        ds4_def [symmetric] ds6_def)
  moreover have "engine_at sha d (eng\<lparr>eng_sync := ds6\<rparr>)"
    using ds6 storable st(2,3) c(4,5) same by (simp add: engine_at_def)
  ultimately show ?thesis by blast
qed

section \<open>Frames and queues\<close>

lemma message_fits_wire:
  assumes "message_fits sha m"
  obtains b where "encode_raft_message sha m = Some b" "decode_raft_message sha b = Inr m" "b \<noteq> []"
proof -
  obtain b where b: "encode_raft_message sha m = Some b"
    using assms by (auto simp: message_fits_def encode_raft_message_def)
  moreover have dec: "decode_raft_message sha b = Inr m"
    using decode_frame [OF b] wmessage.rd_enc_end [of sha m "[]"] assms by (simp add: message_fits_def)
  moreover have "b \<noteq> []" using dec by (auto simp: decode_raft_message_def)
  ultimately show ?thesis by (rule that)
qed

lemma coalesce_single: "t \<le> outbound_message_term m \<Longrightarrow> coalesce_outbound_peer_batch [m] t rounds = [m]"
  by (cases m) (simp_all add: coalesce_outbound_peer_batch_def)

section \<open>Steps without faults\<close>

text \<open>The steps of a cluster in which no transaction fails and no node stops: nodes start on their
  directories, run ticks, proposals and reads, and exchange messages. Frames may still be late or
  lost.\<close>

inductive calm_op :: "sha256_fn \<Rightarrow> SharedEngine \<Rightarrow> SharedEngine \<Rightarrow> (CellIdentity \<times> RaftMessage) list \<Rightarrow> bool"
  for sha :: sha256_fn where
  tick: "step_and_persist sha None Tick None None None eng = (res, eng', out, sends) \<Longrightarrow> calm_op sha eng eng' sends"
| propose: "propose_fenced sha None p expected tx eng = (res, eng', out, sends) \<Longrightarrow> calm_op sha eng eng' sends"
| read: "linearizable_read sha None expected tx eng = (res, eng', out, sends) \<Longrightarrow> calm_op sha eng eng' sends"

inductive calm_step ::
  "sha256_fn \<Rightarrow> ValidatedVoterRoster \<Rightarrow> (CellIdentity \<Rightarrow> ConsensusTimingConfig option) \<Rightarrow> Cluster \<Rightarrow> Cluster \<Rightarrow> bool"
  for sha :: sha256_fn and r :: ValidatedVoterRoster and tm :: "CellIdentity \<Rightarrow> ConsensusTimingConfig option" where
  start: "cl_nodes s n = Down db \<Longrightarrow> engine_open sha None n r (tm n) db = (Inr eng, db') \<Longrightarrow>
    calm_step sha r tm s (set_node n (Up eng []) s)"
| operate: "cl_nodes s n = Up eng q \<Longrightarrow> calm_op sha eng eng' sends \<Longrightarrow>
    calm_step sha r tm s (set_node n (Up eng' (q @ sends)) s)"
| transmit: "cl_nodes s n = Up eng q \<Longrightarrow>
    calm_step sha r tm s ((set_node n (Up eng (filter (\<lambda>(p, _). p \<noteq> peer) q)) s)
      \<lparr>cl_requests := cl_requests s \<union> {(n, peer, b) |b. b \<in> transmitted sha peer eng q}\<rparr>)"
| request: "(from_cell, n, bytes) \<in> cl_requests s \<Longrightarrow> cl_nodes s n = Up eng q \<Longrightarrow>
    handle_rpc sha None from_cell bytes eng = (reply, eng', out, sends) \<Longrightarrow>
    calm_step sha r tm s ((set_node n (Up eng' (q @ sends)) s)
      \<lparr>cl_replies := cl_replies s \<union> {(n, from_cell, payload) |payload. reply = Some (RpcOk, payload)}\<rparr>)"
| reply: "(peer, n, payload) \<in> cl_replies s \<Longrightarrow> cl_nodes s n = Up eng q \<Longrightarrow>
    handle_reply sha None peer payload eng = (eng', out, sends) \<Longrightarrow>
    calm_step sha r tm s (set_node n (Up eng' (q @ sends)) s)"

lemma calm_op_engine_op: "calm_op sha eng eng' sends \<Longrightarrow> engine_op sha eng eng' sends"
  by (induction rule: calm_op.induct) (blast intro: engine_op.intros)+

lemma calm_step_cluster_step: "calm_step sha r tm s s' \<Longrightarrow> cluster_step sha r tm s s'"
proof (induction rule: calm_step.induct)
  case (operate s n eng q eng' sends)
  then show ?case using cluster_step.operate calm_op_engine_op by blast
qed (rule cluster_step.intros; assumption)+

lemma reach_calm: "reach cluster_init (calm_step sha r tm) s \<Longrightarrow> reach cluster_init (cluster_step sha r tm) s"
  by (induction rule: reach.induct) (auto intro: reach.intros calm_step_cluster_step)

text \<open>A queue with at most one message per peer is emptied, every message that passes the gate on the wire.\<close>

lemma flush_queue:
  assumes "cl_nodes s n = Up eng q" "distinct (map fst q)"
  shows "\<exists>s'. (calm_step sha r tm)\<^sup>*\<^sup>* s s' \<and> cl_nodes s' = (cl_nodes s)(n := Up eng []) \<and>
    cl_requests s \<subseteq> cl_requests s' \<and> cl_replies s' = cl_replies s \<and>
    (\<forall>(p, m)\<in>set q. send_gate eng m \<longrightarrow> (\<forall>b. encode_raft_message sha m = Some b \<longrightarrow> (n, p, b) \<in> cl_requests s'))"
  using assms
proof (induction q arbitrary: s)
  case Nil
  then have "cl_nodes s = (cl_nodes s)(n := Up eng [])" by (simp add: fun_upd_idem)
  then show ?case by auto
next
  case (Cons x q)
  obtain p m where x: "x = (p, m)" by fastforce
  have rest: "filter (\<lambda>(k, _). k \<noteq> p) q = q" "filter (\<lambda>(k, _). k = p) q = []"
    using Cons.prems(2) by (force simp: x filter_id_conv filter_empty_conv)+
  let ?s = "(set_node n (Up eng q) s)\<lparr>cl_requests := cl_requests s \<union> {(n, p, b) |b. b \<in> transmitted sha p eng (x # q)}\<rparr>"
  have step: "calm_step sha r tm s ?s"
    using calm_step.transmit [OF Cons.prems(1), of sha r tm p] rest by (simp add: x)
  have sent: "b \<in> transmitted sha p eng (x # q)" if "send_gate eng m" "encode_raft_message sha m = Some b" for b
    using that rest coalesce_single [of "current_term (ds_core (eng_sync eng))" m]
    by (simp add: transmitted_def snapshot_coalesce_state_def x send_gate_def not_less)
  have "cl_nodes ?s n = Up eng q" "distinct (map fst q)" using Cons.prems(2) by (simp_all add: set_node_def)
  from Cons.IH [OF this] obtain s' where s': "(calm_step sha r tm)\<^sup>*\<^sup>* ?s s'"
      "cl_nodes s' = (cl_nodes ?s)(n := Up eng [])" "cl_requests ?s \<subseteq> cl_requests s'" "cl_replies s' = cl_replies ?s"
      "\<forall>(p, m)\<in>set q. send_gate eng m \<longrightarrow> (\<forall>b. encode_raft_message sha m = Some b \<longrightarrow> (n, p, b) \<in> cl_requests s')"
    by blast
  have "(calm_step sha r tm)\<^sup>*\<^sup>* s s'" using step s'(1) by (rule converse_rtranclp_into_rtranclp)
  moreover have "cl_nodes s' = (cl_nodes s)(n := Up eng [])" using s'(2) by (simp add: set_node_def)
  moreover have "cl_requests s \<subseteq> cl_requests s'" "cl_replies s' = cl_replies s" using s'(3,4) by (auto simp: set_node_def)
  moreover have "send_gate eng m \<longrightarrow> (\<forall>b. encode_raft_message sha m = Some b \<longrightarrow> (n, p, b) \<in> cl_requests s')"
    using s'(3) sent by auto
  ultimately show ?case using s'(5) by (auto simp: x)
qed

section \<open>Runs of cores\<close>

record Run =
  rn_cores :: "CellIdentity \<rightharpoonup> ConsensusCore"
  rn_requests :: "(CellIdentity \<times> CellIdentity \<times> RaftMessage) set"
  rn_replies :: "(CellIdentity \<times> CellIdentity \<times> RaftMessage) set"

definition run_init :: Run where
  "run_init = \<lparr>rn_cores = Map.empty, rn_requests = {}, rn_replies = {}\<rparr>"

text \<open>The messages of a step, beside the direct reply.\<close>

definition sends_of :: "CellIdentity option \<Rightarrow> ConsensusCore \<Rightarrow> ConsensusEffect list \<Rightarrow> (CellIdentity \<times> RaftMessage) list" where
  "sends_of peer c effs = filter (\<lambda>(p, _). p \<in> set (peers c)) (snd (split_messages peer effs))"

definition sends_fit :: "sha256_fn \<Rightarrow> ConsensusTerm \<Rightarrow> (CellIdentity \<times> RaftMessage) list \<Rightarrow> bool" where
  "sends_fit sha t out = (distinct (map fst out) \<and>
     list_all (\<lambda>(_, m). message_fits sha m \<and> t \<le> outbound_message_term m) out)"

definition run_after :: "CellIdentity \<Rightarrow> ConsensusCore \<Rightarrow> (CellIdentity \<times> RaftMessage) list \<Rightarrow> Run \<Rightarrow> Run" where
  "run_after n d out a = a\<lparr>rn_cores := (rn_cores a)(n \<mapsto> d), rn_requests := rn_requests a \<union> {(n, p, m) |p m. (p, m) \<in> set out}\<rparr>"

inductive run_step :: "sha256_fn \<Rightarrow> ValidatedVoterRoster \<Rightarrow> ConsensusTimingConfig \<Rightarrow> Run \<Rightarrow> Run \<Rightarrow> bool"
  for sha :: sha256_fn and r :: ValidatedVoterRoster and tm :: ConsensusTimingConfig where
  boot: "rn_cores a n = None \<Longrightarrow> core_new n r tm = Inr c \<Longrightarrow> run_step sha r tm a (a\<lparr>rn_cores := (rn_cores a)(n \<mapsto> c)\<rparr>)"
| tick: "rn_cores a n = Some c \<Longrightarrow> core_step sha c Tick = (d, effs) \<Longrightarrow> step_fits sha c Tick d effs \<Longrightarrow>
    sends_fit sha (current_term d) (sends_of None c effs) \<Longrightarrow>
    run_step sha r tm a (run_after n d (sends_of None c effs) a)"
| propose: "rn_cores a n = Some c \<Longrightarrow> core_step sha c (Propose p None) = (d, effs) \<Longrightarrow> step_fits sha c (Propose p None) d effs \<Longrightarrow>
    sends_fit sha (current_term d) (sends_of None c effs) \<Longrightarrow>
    run_step sha r tm a (run_after n d (sends_of None c effs) a)"
| request: "(x, n, m) \<in> rn_requests a \<Longrightarrow> rn_cores a n = Some c \<Longrightarrow>
    core_step sha c (ReceiveMessage x m) = (d, effs) \<Longrightarrow> step_fits sha c (ReceiveMessage x m) d effs \<Longrightarrow>
    sends_fit sha (current_term d) (sends_of (Some x) c effs) \<Longrightarrow>
    fst (split_messages (Some x) effs) = Some y \<Longrightarrow> message_fits sha y \<Longrightarrow>
    run_step sha r tm a ((run_after n d (sends_of (Some x) c effs) a)\<lparr>rn_replies := insert (n, x, y) (rn_replies a)\<rparr>)"
| reply: "(x, n, m) \<in> rn_replies a \<Longrightarrow> rn_cores a n = Some c \<Longrightarrow>
    core_step sha c (ReceiveMessage x m) = (d, effs) \<Longrightarrow> step_fits sha c (ReceiveMessage x m) d effs \<Longrightarrow>
    sends_fit sha (current_term d) (sends_of None c effs) \<Longrightarrow>
    run_step sha r tm a (run_after n d (sends_of None c effs) a)"

section \<open>The cluster follows\<close>

definition on_wire :: "sha256_fn \<Rightarrow> (CellIdentity \<times> CellIdentity \<times> RaftMessage) set \<Rightarrow> frame set \<Rightarrow> bool" where
  "on_wire sha ms fs = (\<forall>(x, y, m)\<in>ms. message_fits sha m \<and> (\<forall>b. encode_raft_message sha m = Some b \<longrightarrow> (x, y, b) \<in> fs))"

fun node_sim :: "sha256_fn \<Rightarrow> ConsensusCore option \<Rightarrow> NodeState \<Rightarrow> bool" where
  "node_sim sha None x = (x = Down empty_store)"
| "node_sim sha (Some c) x = (\<exists>eng. x = Up eng [] \<and> engine_at sha c eng)"

definition run_sim :: "sha256_fn \<Rightarrow> Run \<Rightarrow> Cluster \<Rightarrow> bool" where
  "run_sim sha a s =
     ((\<forall>n. node_sim sha (rn_cores a n) (cl_nodes s n)) \<and>
      on_wire sha (rn_requests a) (cl_requests s) \<and> on_wire sha (rn_replies a) (cl_replies s))"

lemma on_wire_mono: "on_wire sha ms fs \<Longrightarrow> fs \<subseteq> gs \<Longrightarrow> on_wire sha ms gs"
  unfolding on_wire_def by blast

lemma on_wire_insert: "on_wire sha (insert (x, y, m) ms) fs \<longleftrightarrow>
    message_fits sha m \<and> (\<forall>b. encode_raft_message sha m = Some b \<longrightarrow> (x, y, b) \<in> fs) \<and> on_wire sha ms fs"
  by (simp add: on_wire_def)

lemma run_simE:
  assumes "run_sim sha a s" "rn_cores a n = Some c"
  obtains eng where "cl_nodes s n = Up eng []" "engine_at sha c eng"
  using assms unfolding run_sim_def by (metis node_sim.simps(2))

text \<open>One operation that steps the core of a node, followed by sending what it queued.\<close>

lemma run_sim_after:
  assumes sim: "run_sim sha a s" and at: "engine_at sha d eng" and fit: "sends_fit sha (current_term d) out"
    and step: "calm_step sha r tm s s1" and s1: "cl_nodes s1 = (cl_nodes s)(n := Up eng out)" "cl_requests s1 = cl_requests s"
      "cl_replies s \<subseteq> cl_replies s1"
  shows "\<exists>s'. (calm_step sha r tm)\<^sup>*\<^sup>* s s' \<and> cl_replies s' = cl_replies s1 \<and> run_sim sha (run_after n d out a) s'"
proof -
  have "cl_nodes s1 n = Up eng out" "distinct (map fst out)" using s1(1) fit by (simp_all add: sends_fit_def)
  from flush_queue [OF this, of sha r tm] obtain s' where s': "(calm_step sha r tm)\<^sup>*\<^sup>* s1 s'"
      "cl_nodes s' = (cl_nodes s1)(n := Up eng [])" "cl_requests s1 \<subseteq> cl_requests s'" "cl_replies s' = cl_replies s1"
      "\<forall>(p, m)\<in>set out. send_gate eng m \<longrightarrow> (\<forall>b. encode_raft_message sha m = Some b \<longrightarrow> (n, p, b) \<in> cl_requests s')"
    by blast
  have gate: "message_fits sha m \<and> send_gate eng m" if "(p, m) \<in> set out" for p m
    using that fit at by (auto simp: sends_fit_def list_all_iff send_gate_def engine_at_def Let_def)
  have "on_wire sha (rn_requests a) (cl_requests s')"
    using sim s'(3) s1(2) on_wire_mono unfolding run_sim_def by metis
  then have req: "on_wire sha (rn_requests (run_after n d out a)) (cl_requests s')"
    using s'(5) gate by (fastforce simp: on_wire_def run_after_def)
  have rep: "on_wire sha (rn_replies (run_after n d out a)) (cl_replies s')"
    using sim s'(4) on_wire_mono [OF _ s1(3)] by (simp add: run_sim_def run_after_def)
  have "run_sim sha (run_after n d out a) s'"
    using sim req rep at s'(2) s1(1) by (simp add: run_sim_def) (simp add: run_after_def)
  moreover have "(calm_step sha r tm)\<^sup>*\<^sup>* s s'" using step s'(1) by (rule converse_rtranclp_into_rtranclp)
  ultimately show ?thesis using s'(4) by blast
qed

lemma on_wireE:
  assumes "on_wire sha ms fs" "(x, y, m) \<in> ms"
  obtains b where "(x, y, b) \<in> fs" "encode_raft_message sha m = Some b" "decode_raft_message sha b = Inr m" "b \<noteq> []"
proof -
  have fits: "message_fits sha m" and mem: "\<forall>b. encode_raft_message sha m = Some b \<longrightarrow> (x, y, b) \<in> fs"
    using assms by (auto simp: on_wire_def)
  from fits obtain b where "encode_raft_message sha m = Some b" "decode_raft_message sha b = Inr m" "b \<noteq> []"
    by (rule message_fits_wire)
  then show ?thesis using that mem by blast
qed

lemma fresh_core_storable:
  assumes "core_new n r t = Inr c" "length r \<noteq> 1" "\<not> roster_contains r 0"
  shows "core_storable sha c" "core_durable c = \<lparr>du_term = 0, du_voted = None, du_commit = 0, du_snap = None, du_log = []\<rparr>"
    "commit_index c = 0" "local_id c = n" "roster c = r" "role c = Follower"
proof -
  have c: "n \<noteq> 0" "local_id c = n" "roster c = r" "role c = Follower" "current_term c = 0" "voted_for c = None" "snapshot_meta c = None"
      "snapshot_bytes c = None" "log_tail c = []" "commit_index c = 0"
    using assms domain_of_contains [of r n] by (auto simp: core_new_def result_bind_eq_Inr split: option.splits)
  then show du: "core_durable c = \<lparr>du_term = 0, du_voted = None, du_commit = 0, du_snap = None, du_log = []\<rparr>"
    by (simp add: core_durable_def)
  show "core_storable sha c"
    using c assms(2,3) by (simp add: core_storable_def log_inv_def du du_ok_def du_snap_index_def snapshot_index_def
        last_log_index_def i64_max_def u64_max_def contiguous_def)
qed (use assms in \<open>auto simp: core_new_def result_bind_eq_Inr split: option.splits if_splits\<close>)

lemma engine_boot:
  assumes "core_new n r t = Inr c" "3 \<le> length r" "\<not> roster_contains r 0"
  shows "\<exists>eng db. engine_open sha None n r (Some t) empty_store = (Inr eng, db) \<and> engine_at sha c eng"
proof -
  have r: "length r \<noteq> 1" using assms(2) by simp
  note fresh = fresh_core_storable [OF assms(1) r assms(3)]
  obtain t' where t': "timing_validate t = Inr t'" using assms(1) by (auto simp: core_new_def result_bind_eq_Inr)
  then have "t' = t" by (simp add: timing_validate_def split: if_splits)
  let ?rec = "\<lparr>rec_core_state = \<lparr>rh_current_term = 0, rh_voted_for = None, rh_commit_index = 0, rh_snapshot = None, rh_log_tail = []\<rparr>,
    rec_state_machine = sm_new\<rparr>"
  have "read_and_verify_hard_state_conn sha (demo_store sha) = Inr (0, None, 0)"
    by (simp add: read_hard_state_iff demo_store_def initialize_strict_schema_def empty_store_def genesis_row_eq)
  moreover have "load_snapshot sha (demo_store sha) = Inr (sm_new, None, demo_store sha)"
      "load_tail sha 0 0 (demo_store sha) = Inr []"
    by (simp_all add: load_snapshot_def read_snapshot_row_conn_def load_tail_def demo_store_def initialize_strict_schema_def empty_store_def)
  ultimately have opened: "open_or_recover sha None empty_store = (Inr ?rec, demo_store sha)"
    by (simp add: open_or_recover_def verify_wal_header_if_present_def load_and_verify_all_def demo_store_def)
  have "rehydrate n r t (rec_core_state ?rec) = Inr c"
    using assms(1) r by (auto simp: rehydrate_def core_new_def result_bind_eq_Inr Let_def split: option.splits)
  then obtain eng where eng: "engine_open sha None n r (Some t) empty_store = (Inr eng, demo_store sha)"
      "eng = \<lparr>eng_sync = \<lparr>ds_store = demo_store sha, ds_core = c, ds_state_machine = sm_new, ds_pending_proposals = [],
         ds_pending_reads = [], ds_sticky_fatal_error = None\<rparr>, eng_peers = filter (\<lambda>k. k \<noteq> n) (map cell_identity r),
         eng_next_read_id = 1, eng_shutting_down = False\<rparr>"
    using assms(2) t' \<open>t' = t\<close> opened by (simp add: engine_open_def)
  have "holds sha (core_durable c) (demo_store sha)"
    by (simp add: fresh(2) holds_def tables_hold_def demo_store_def initialize_strict_schema_def empty_store_def
        genesis_row_eq log_rows_def du_snap_index_def)
  then have "engine_at sha c eng"
    using fresh(1) [of sha] fresh(3-5) machine_upto_new by (simp add: engine_at_def eng(2) peers_def)
  then show ?thesis using eng(1) by blast
qed

text \<open>Every step of a run is followed by the cluster.\<close>

lemma run_sim_step:
  assumes "run_step sha r tm a a'" "run_sim sha a s" "3 \<le> length r" "\<not> roster_contains r 0"
  shows "\<exists>s'. (calm_step sha r (\<lambda>_. Some tm))\<^sup>*\<^sup>* s s' \<and> run_sim sha a' s'"
  using assms
proof (induction rule: run_step.induct)
  case (boot a n c)
  obtain eng db where eng: "engine_open sha None n r (Some tm) empty_store = (Inr eng, db)" "engine_at sha c eng"
    using engine_boot [OF boot(2,4,5)] by blast
  have "cl_nodes s n = Down empty_store" using boot(1,3) unfolding run_sim_def by (metis node_sim.simps(1))
  from calm_step.start [OF this, where tm = "\<lambda>_. Some tm", OF eng(1)]
  have "calm_step sha r (\<lambda>_. Some tm) s (set_node n (Up eng []) s)" .
  moreover have "run_sim sha (a\<lparr>rn_cores := (rn_cores a)(n \<mapsto> c)\<rparr>) (set_node n (Up eng []) s)"
    using boot(3) eng(2) by (simp add: run_sim_def set_node_def)
  ultimately show ?case by blast
next
  case (tick a n c d effs)
  obtain eng where eng: "cl_nodes s n = Up eng []" "engine_at sha c eng" using run_simE [OF tick(5,1)] .
  obtain eng' out where run: "step_and_persist sha None Tick None None None eng =
      (Inr (fst (split_messages None effs)), eng', out, sends_of None c effs)" "engine_at sha d eng'"
    using engine_step [OF eng(2) tick(2,3), of None None] unfolding sends_of_def by blast
  note step = calm_step.operate [OF eng(1) calm_op.tick [OF run(1)], of r "\<lambda>_. Some tm"]
  show ?case
    using run_sim_after [OF tick(5) run(2) tick(4) step, of n] by (auto simp: set_node_def)
next
  case (propose a n c p d effs)
  obtain eng where eng: "cl_nodes s n = Up eng []" "engine_at sha c eng" using run_simE [OF propose(5,1)] .
  obtain eng' out where run: "propose_fenced sha None p None 0 eng =
      (Inr (fst (split_messages None effs)), eng', out, sends_of None c effs)" "engine_at sha d eng'"
    using engine_step [OF eng(2) propose(2,3), of None "Some 0"] unfolding sends_of_def propose_fenced_def by blast
  note step = calm_step.operate [OF eng(1) calm_op.propose [OF run(1)], of r "\<lambda>_. Some tm"]
  show ?case
    using run_sim_after [OF propose(5) run(2) propose(4) step, of n] by (auto simp: set_node_def)
next
  case (request x n m a c d effs y)
  obtain eng where eng: "cl_nodes s n = Up eng []" "engine_at sha c eng" using run_simE [OF request(8,2)] .
  have "on_wire sha (rn_requests a) (cl_requests s)" using request(8) by (simp add: run_sim_def)
  then obtain b where b: "(x, n, b) \<in> cl_requests s" "decode_raft_message sha b = Inr m"
    using request(1) by (rule on_wireE)
  obtain z where z: "encode_raft_message sha y = Some z" using request(7) by (rule message_fits_wire)
  obtain eng' out where run: "step_and_persist sha None (ReceiveMessage x m) (Some x) None None eng =
      (Inr (Some y), eng', out, sends_of (Some x) c effs)" "engine_at sha d eng'"
    using engine_step [OF eng(2) request(3,4), of "Some x" None] request(6) unfolding sends_of_def by auto
  have "\<not> eng_shutting_down eng" using eng(2) by (simp add: engine_at_def Let_def)
  then have "handle_rpc sha None x b eng = (Some (RpcOk, z), eng', out, sends_of (Some x) c effs)"
    by (simp add: handle_rpc_def b(2) run(1) z)
  note step = calm_step.request [OF b(1) eng(1) this, of r "\<lambda>_. Some tm"]
  obtain s' where s': "(calm_step sha r (\<lambda>_. Some tm))\<^sup>*\<^sup>* s s'" "cl_replies s' = cl_replies s \<union> {(n, x, z)}"
      "run_sim sha (run_after n d (sends_of (Some x) c effs) a) s'"
    using run_sim_after [OF request(8) run(2) request(5) step, of n] by (auto simp: set_node_def)
  have "on_wire sha (rn_replies a) (cl_replies s')" using s'(3) by (simp add: run_sim_def run_after_def)
  then have "on_wire sha (insert (n, x, y) (rn_replies a)) (cl_replies s')"
    using s'(2) request(7) z by (simp add: on_wire_insert)
  with s'(3) have "run_sim sha ((run_after n d (sends_of (Some x) c effs) a)\<lparr>rn_replies := insert (n, x, y) (rn_replies a)\<rparr>) s'"
    by (simp add: run_sim_def)
  with s'(1) show ?case by blast
next
  case (reply x n m a c d effs)
  obtain eng where eng: "cl_nodes s n = Up eng []" "engine_at sha c eng" using run_simE [OF reply(6,2)] .
  have "on_wire sha (rn_replies a) (cl_replies s)" using reply(6) by (simp add: run_sim_def)
  then obtain b where b: "(x, n, b) \<in> cl_replies s" "decode_raft_message sha b = Inr m" "b \<noteq> []"
    using reply(1) by (rule on_wireE)
  obtain eng' out where run: "step_and_persist sha None (ReceiveMessage x m) None None None eng =
      (Inr (fst (split_messages None effs)), eng', out, sends_of None c effs)" "engine_at sha d eng'"
    using engine_step [OF eng(2) reply(3,4), of None None] unfolding sends_of_def by blast
  have "handle_reply sha None x b eng = (eng', out, sends_of None c effs)"
    by (simp add: handle_reply_def b(2,3) run(1))
  note step = calm_step.reply [OF b(1) eng(1) this, of r "\<lambda>_. Some tm"]
  show ?case
    using run_sim_after [OF reply(6) run(2) reply(5) step, of n] by (auto simp: set_node_def)
qed

lemma run_reaches:
  assumes "(run_step sha r tm)\<^sup>*\<^sup>* run_init a" "3 \<le> length r" "\<not> roster_contains r 0"
  shows "\<exists>s. reach cluster_init (calm_step sha r (\<lambda>_. Some tm)) s \<and> run_sim sha a s"
  using assms(1)
proof (induction rule: rtranclp_induct)
  case base
  let ?s = "\<lparr>cl_nodes = (\<lambda>_. Down empty_store), cl_requests = {}, cl_replies = {}\<rparr>"
  have "cluster_init ?s" "run_sim sha run_init ?s"
    by (simp_all add: cluster_init_def run_sim_def run_init_def on_wire_def)
  then show ?case by (intro exI [of _ ?s] conjI reach_init)
next
  case (step y z)
  obtain s where s: "reach cluster_init (calm_step sha r (\<lambda>_. Some tm)) s" "run_sim sha y s" using step.IH by (elim exE conjE)
  obtain s' where s': "(calm_step sha r (\<lambda>_. Some tm))\<^sup>*\<^sup>* s s'" "run_sim sha z s'"
    using run_sim_step [OF step.hyps(2) s(2) assms(2,3)] by (elim exE conjE)
  from s'(1) s(1) have "reach cluster_init (calm_step sha r (\<lambda>_. Some tm)) s'"
    by (induction rule: rtranclp_induct) (simp_all add: reach_step)
  with s'(2) show ?case by (intro exI conjI)
qed

end
