(* ===== verification/ClusterProps.thy ===== *)
theory ClusterProps
  imports ClusterRun
begin

text \<open>
  Properties of the cluster: at most one leader per term, and a run after which two nodes have committed
  different entries at the same index. Concrete runs of a three-node cluster are scripts of inputs and
  deliveries, executed on the cores by rewriting; \<open>trio_at\<close> says that the cluster reaches the resulting state.
\<close>

section \<open>Scripts\<close>

record Trio =
  tr_one :: ConsensusCore
  tr_two :: ConsensusCore
  tr_three :: ConsensusCore
  tr_requests :: "(CellIdentity \<times> CellIdentity \<times> RaftMessage) list"
  tr_replies :: "(CellIdentity \<times> CellIdentity \<times> RaftMessage) list"

definition core_of :: "CellIdentity \<Rightarrow> Trio \<Rightarrow> ConsensusCore" where
  "core_of n tr = (if n = 1 then tr_one tr else if n = 2 then tr_two tr else tr_three tr)"

definition set_core :: "CellIdentity \<Rightarrow> ConsensusCore \<Rightarrow> Trio \<Rightarrow> Trio" where
  "set_core n c tr = (if n = 1 then tr\<lparr>tr_one := c\<rparr> else if n = 2 then tr\<lparr>tr_two := c\<rparr> else tr\<lparr>tr_three := c\<rparr>)"

text \<open>An action names the node, and the peers whose messages are kept; every other message is lost. The first
  request or reply in flight is the one delivered.\<close>

datatype action = Ticks CellIdentity "CellIdentity list" | Proposes CellIdentity ControlPlaneProposal
  | Request "CellIdentity list" | Reply "CellIdentity list"

definition kept :: "CellIdentity \<Rightarrow> CellIdentity list \<Rightarrow> (CellIdentity \<times> RaftMessage) list \<Rightarrow>
    (CellIdentity \<times> CellIdentity \<times> RaftMessage) list" where
  "kept n ps out = map (\<lambda>(p, m). (n, p, m)) (filter (\<lambda>(p, _). p \<in> set ps) out)"

definition local_action :: "sha256_fn \<Rightarrow> CellIdentity \<Rightarrow> ConsensusInput \<Rightarrow> CellIdentity list \<Rightarrow> Trio \<Rightarrow> Trio option" where
  "local_action sha n i ps tr =
     (case core_step sha (core_of n tr) i of (d, effs) \<Rightarrow>
        if n \<in> {1, 2, 3} \<and> step_fits sha (core_of n tr) i d effs \<and> sends_fit sha (current_term d) (sends_of None (core_of n tr) effs)
        then Some ((set_core n d tr)\<lparr>tr_requests := kept n ps (sends_of None (core_of n tr) effs)\<rparr>)
        else None)"

fun act :: "sha256_fn \<Rightarrow> action \<Rightarrow> Trio \<Rightarrow> Trio option" where
  "act sha (Ticks n ps) tr = local_action sha n Tick ps tr"
| "act sha (Proposes n p) tr = local_action sha n (Propose p None) [] tr"
| "act sha (Reply ps) tr =
     (case tr_replies tr of
        [] \<Rightarrow> None
      | (x, n, m) # rest \<Rightarrow> local_action sha n (ReceiveMessage x m) ps tr)"
| "act sha (Request ps) tr =
     (case tr_requests tr of
        [] \<Rightarrow> None
      | (x, n, m) # rest \<Rightarrow>
          (case core_step sha (core_of n tr) (ReceiveMessage x m) of (d, effs) \<Rightarrow>
             case fst (split_messages (Some x) effs) of
               None \<Rightarrow> None
             | Some y \<Rightarrow>
                 if n \<in> {1, 2, 3} \<and> step_fits sha (core_of n tr) (ReceiveMessage x m) d effs \<and> message_fits sha y \<and>
                   sends_fit sha (current_term d) (sends_of (Some x) (core_of n tr) effs)
                 then Some ((set_core n d tr)\<lparr>tr_requests := kept n ps (sends_of (Some x) (core_of n tr) effs),
                   tr_replies := [(n, x, y)]\<rparr>)
                 else None))"

fun acts :: "sha256_fn \<Rightarrow> action list \<Rightarrow> Trio \<Rightarrow> Trio option" where
  "acts sha [] tr = Some tr"
| "acts sha (x # xs) tr = (case act sha x tr of None \<Rightarrow> None | Some tr' \<Rightarrow> acts sha xs tr')"

definition trio_start :: Trio where
  "trio_start = \<lparr>tr_one = demo_follower 1 11, tr_two = demo_follower 2 12, tr_three = demo_follower 3 13,
     tr_requests = [], tr_replies = []\<rparr>"

definition trio_at :: "sha256_fn \<Rightarrow> Trio \<Rightarrow> bool" where
  "trio_at sha tr = (\<exists>a. (run_step sha demo_roster demo_timing)\<^sup>*\<^sup>* run_init a \<and>
     rn_cores a = [1 \<mapsto> tr_one tr, 2 \<mapsto> tr_two tr, 3 \<mapsto> tr_three tr] \<and>
     set (tr_requests tr) \<subseteq> rn_requests a \<and> set (tr_replies tr) \<subseteq> rn_replies a)"

lemma trio_start_at: "trio_at sha trio_start"
proof -
  let ?a = "run_init\<lparr>rn_cores := [1 \<mapsto> demo_follower 1 11]\<rparr>"
  let ?b = "run_init\<lparr>rn_cores := [1 \<mapsto> demo_follower 1 11, 2 \<mapsto> demo_follower 2 12]\<rparr>"
  let ?c = "run_init\<lparr>rn_cores := [1 \<mapsto> demo_follower 1 11, 2 \<mapsto> demo_follower 2 12, 3 \<mapsto> demo_follower 3 13]\<rparr>"
  have "run_step sha demo_roster demo_timing run_init ?a" "run_step sha demo_roster demo_timing ?a ?b"
      "run_step sha demo_roster demo_timing ?b ?c"
    using boot [of run_init 1 demo_roster demo_timing] boot [of ?a 2 demo_roster demo_timing]
      boot [of ?b 3 demo_roster demo_timing] demo_follower_new by (simp_all add: run_init_def)
  then have "(run_step sha demo_roster demo_timing)\<^sup>*\<^sup>* run_init ?c"
    by (intro rtranclp.rtrancl_into_rtrancl [OF rtranclp.rtrancl_into_rtrancl [OF r_into_rtranclp]])
  then show ?thesis unfolding trio_at_def by (intro exI [of _ ?c]) (simp add: trio_start_def run_init_def)
qed

lemma core_of_cores:
  "n \<in> {1, 2, 3} \<Longrightarrow> [1 \<mapsto> tr_one tr, 2 \<mapsto> tr_two tr, 3 \<mapsto> tr_three tr] n = Some (core_of n tr)"
  by (auto simp: core_of_def)

lemma set_core_cores:
  "n \<in> {1, 2, 3} \<Longrightarrow> [1 \<mapsto> tr_one tr, 2 \<mapsto> tr_two tr, 3 \<mapsto> tr_three tr](n \<mapsto> d) =
     [1 \<mapsto> tr_one (set_core n d tr), 2 \<mapsto> tr_two (set_core n d tr), 3 \<mapsto> tr_three (set_core n d tr)]"
  by (auto simp: set_core_def fun_eq_iff)

lemma set_core_flight [simp]: "tr_requests (set_core n d tr) = tr_requests tr" "tr_replies (set_core n d tr) = tr_replies tr"
  by (simp_all add: set_core_def)

lemma kept_subset: "set (kept n ps out) \<subseteq> {(n, p, m) |p m. (p, m) \<in> set out}"
  by (auto simp: kept_def)

text \<open>A local action follows when the rule of the run for its input does.\<close>

lemma local_action_at:
  assumes at: "trio_at sha tr" and run: "local_action sha n i ps tr = Some tr'"
    and rule: "\<And>a d effs. rn_cores a n = Some (core_of n tr) \<Longrightarrow> set (tr_requests tr) \<subseteq> rn_requests a \<Longrightarrow>
      set (tr_replies tr) \<subseteq> rn_replies a \<Longrightarrow> core_step sha (core_of n tr) i = (d, effs) \<Longrightarrow>
      step_fits sha (core_of n tr) i d effs \<Longrightarrow> sends_fit sha (current_term d) (sends_of None (core_of n tr) effs) \<Longrightarrow>
      run_step sha demo_roster demo_timing a (run_after n d (sends_of None (core_of n tr) effs) a)"
  shows "trio_at sha tr'"
proof -
  obtain a where a: "(run_step sha demo_roster demo_timing)\<^sup>*\<^sup>* run_init a"
      "rn_cores a = [1 \<mapsto> tr_one tr, 2 \<mapsto> tr_two tr, 3 \<mapsto> tr_three tr]"
      "set (tr_requests tr) \<subseteq> rn_requests a" "set (tr_replies tr) \<subseteq> rn_replies a"
    using at unfolding trio_at_def by (elim exE conjE)
  obtain d effs where step: "core_step sha (core_of n tr) i = (d, effs)" by (meson surj_pair)
  have go: "n \<in> {1, 2, 3}" "step_fits sha (core_of n tr) i d effs" "sends_fit sha (current_term d) (sends_of None (core_of n tr) effs)"
      and tr': "tr' = (set_core n d tr)\<lparr>tr_requests := kept n ps (sends_of None (core_of n tr) effs)\<rparr>"
    using run unfolding local_action_def step prod.case by (metis option.distinct(1) option.inject)+
  let ?a = "run_after n d (sends_of None (core_of n tr) effs) a"
  have "run_step sha demo_roster demo_timing a ?a"
    by (rule rule [OF _ a(3,4) step go(2,3)]) (simp only: a(2) core_of_cores [OF go(1)])
  with a(1) have "(run_step sha demo_roster demo_timing)\<^sup>*\<^sup>* run_init ?a" by (rule rtranclp.rtrancl_into_rtrancl)
  moreover have "rn_cores ?a = [1 \<mapsto> tr_one tr', 2 \<mapsto> tr_two tr', 3 \<mapsto> tr_three tr']"
    using set_core_cores [OF go(1), of tr d] by (simp add: tr' a(2) run_after_def)
  moreover have "set (tr_requests tr') \<subseteq> rn_requests ?a" "set (tr_replies tr') \<subseteq> rn_replies ?a"
    using kept_subset [of n ps "sends_of None (core_of n tr) effs"] a(4) by (auto simp: tr' run_after_def)
  ultimately show ?thesis unfolding trio_at_def by (intro exI [of _ ?a] conjI)
qed

lemma act_at:
  assumes "trio_at sha tr" "act sha x tr = Some tr'"
  shows "trio_at sha tr'"
proof (cases x)
  case (Ticks n ps)
  show ?thesis
    by (rule local_action_at [OF assms(1) assms(2) [unfolded Ticks act.simps]]) (rule run_step.tick)
next
  case (Proposes n p)
  show ?thesis
    by (rule local_action_at [OF assms(1) assms(2) [unfolded Proposes act.simps]]) (rule run_step.propose)
next
  case (Reply ps)
  obtain y n m rest where first: "tr_replies tr = (y, n, m) # rest"
    using assms(2) by (auto simp: Reply split: list.splits)
  show ?thesis
    by (rule local_action_at [OF assms(1) assms(2) [unfolded Reply act.simps first list.case prod.case]],
        rule run_step.reply) (simp_all add: first)
next
  case (Request ps)
  obtain a where a: "(run_step sha demo_roster demo_timing)\<^sup>*\<^sup>* run_init a"
      "rn_cores a = [1 \<mapsto> tr_one tr, 2 \<mapsto> tr_two tr, 3 \<mapsto> tr_three tr]"
      "set (tr_requests tr) \<subseteq> rn_requests a" "set (tr_replies tr) \<subseteq> rn_replies a"
    using assms(1) unfolding trio_at_def by (elim exE conjE)
  obtain y n m rest where first: "tr_requests tr = (y, n, m) # rest"
    using assms(2) by (auto simp: Request split: list.splits)
  obtain d effs where step: "core_step sha (core_of n tr) (ReceiveMessage y m) = (d, effs)" by (meson surj_pair)
  note run = assms(2) [unfolded Request act.simps first list.case prod.case step]
  obtain z where z: "fst (split_messages (Some y) effs) = Some z"
    using run by (cases "fst (split_messages (Some y) effs)") simp_all
  let ?out = "sends_of (Some y) (core_of n tr) effs"
  have go: "n \<in> {1, 2, 3}" "step_fits sha (core_of n tr) (ReceiveMessage y m) d effs" "message_fits sha z"
      "sends_fit sha (current_term d) ?out"
      and tr': "tr' = (set_core n d tr)\<lparr>tr_requests := kept n ps ?out, tr_replies := [(n, y, z)]\<rparr>"
    using run unfolding z option.case by (metis option.distinct(1) option.inject)+
  let ?a = "(run_after n d ?out a)\<lparr>rn_replies := insert (n, y, z) (rn_replies a)\<rparr>"
  have core: "rn_cores a n = Some (core_of n tr)" by (simp only: a(2) core_of_cores [OF go(1)])
  have "(y, n, m) \<in> rn_requests a" using a(3) first by simp
  then have "run_step sha demo_roster demo_timing a ?a" using core step go(2,4) z go(3) by (rule run_step.request)
  with a(1) have "(run_step sha demo_roster demo_timing)\<^sup>*\<^sup>* run_init ?a" by (rule rtranclp.rtrancl_into_rtrancl)
  moreover have "rn_cores ?a = [1 \<mapsto> tr_one tr', 2 \<mapsto> tr_two tr', 3 \<mapsto> tr_three tr']"
    using set_core_cores [OF go(1), of tr d] by (simp add: tr' a(2) run_after_def)
  moreover have "set (tr_requests tr') \<subseteq> rn_requests ?a" "set (tr_replies tr') \<subseteq> rn_replies ?a"
    using kept_subset [of n ps ?out] by (auto simp: tr' run_after_def)
  ultimately show ?thesis unfolding trio_at_def by (intro exI [of _ ?a] conjI)
qed

lemma acts_at: "trio_at sha tr \<Longrightarrow> acts sha xs tr = Some tr' \<Longrightarrow> trio_at sha tr'"
proof (induction xs arbitrary: tr)
  case (Cons x xs)
  then obtain mid where "act sha x tr = Some mid" "acts sha xs mid = Some tr'" by (auto split: option.splits)
  then show ?case using Cons.IH [of mid] act_at [OF Cons.prems(1)] by blast
qed simp

section \<open>Electing a leader\<close>

definition elect_one :: "action list" where
  "elect_one = [Ticks 1 [], Ticks 1 [], Ticks 1 [3], Request [], Reply [3], Request [], Reply []]"

lemma contiguous_empty [core_exec]: "contiguous b []"
  by (simp add: contiguous_def)

lemma body_fits_numeral [core_exec]: "length (encode_command_body p) < 4294967296"
  using body_fits [of p] by simp

lemmas [core_exec] = core_of_def set_core_def kept_def local_action_def sends_of_def sends_fit_def message_fits_def
  step_fits_def committed_of_def entry_fits_def storable_def wire_entry_ok_def i64_max_def

lemma elect_one_runs:
  "\<exists>tr. acts sha elect_one trio_start = Some tr \<and> role (tr_one tr) = Leader \<and> current_term (tr_one tr) = 1"
  by (simp add: elect_one_def trio_start_def demo_defs core_exec)

section \<open>Two commits at one index\<close>

text \<open>The first proposal is that of node 1, leader of term 1; the second one that of node 2, leader of term 2;
  the third one that of node 1, leader of term 3.\<close>

definition proposal_no :: "bytes16 \<Rightarrow> ControlPlaneProposal" where
  "proposal_no k = \<lparr>idempotency_key = k, command = CellDirectoryMutation (DecommissionCell 9 9)\<rparr>"

lemma proposal_no_ok [simp]: "command_ok (command (proposal_no k))" "idempotency_key (proposal_no k) = k"
  by (simp_all add: proposal_no_def)

text \<open>Node 2 becomes leader of term 2 with the vote of node 3, and its heartbeat reaches node 1.\<close>

definition elect_two :: "action list" where
  "elect_two = [Ticks 2 [], Ticks 2 [], Ticks 2 [3], Request [], Reply [],
     Ticks 2 [], Ticks 2 [], Ticks 2 [3], Request [], Reply [3], Request [], Reply [1], Request []]"

text \<open>Node 2 appends its proposal before it handles the reply.\<close>

definition commit_two :: "action list" where
  "commit_two = [Proposes 2 (proposal_no 2), Reply []]"

definition commit_one :: "action list" where
  "commit_one = [Ticks 1 [], Ticks 1 [], Ticks 1 [3], Request [], Reply [3], Request [], Reply [3],
     Request [], Proposes 1 (proposal_no 3), Reply [3], Request [], Reply []]"

lemma divergence_runs:
  "\<exists>tr. acts sha (elect_one @ [Proposes 1 (proposal_no 1)] @ elect_two @ commit_two @ commit_one) trio_start = Some tr \<and>
     commit_index (tr_one tr) = 2 \<and> commit_index (tr_two tr) = 1 \<and>
     map_option re_proposal (entry_at (tr_one tr) 1) = Some (proposal_no 1) \<and>
     map_option re_proposal (entry_at (tr_two tr) 1) = Some (proposal_no 2)"
  by (simp add: elect_one_def elect_two_def commit_two_def commit_one_def trio_start_def demo_defs core_exec entry_at_def)

lemma roster_without_zero: "3 \<le> length demo_roster" "\<not> roster_contains demo_roster 0"
  by (simp_all add: demo_roster_def roster_contains_def)

lemma script_reaches:
  assumes "acts sha xs trio_start = Some tr"
  obtains s e1 e2 where "reach cluster_init (calm_step sha demo_roster (\<lambda>_. Some demo_timing)) s"
    "cl_nodes s 1 = Up e1 []" "engine_at sha (tr_one tr) e1" "cl_nodes s 2 = Up e2 []" "engine_at sha (tr_two tr) e2"
proof -
  obtain a where a: "(run_step sha demo_roster demo_timing)\<^sup>*\<^sup>* run_init a"
      "rn_cores a = [1 \<mapsto> tr_one tr, 2 \<mapsto> tr_two tr, 3 \<mapsto> tr_three tr]"
    using acts_at [OF trio_start_at assms] unfolding trio_at_def by (elim exE conjE)
  obtain s where s: "reach cluster_init (calm_step sha demo_roster (\<lambda>_. Some demo_timing)) s" "run_sim sha a s"
    using run_reaches [OF a(1) roster_without_zero] by (elim exE conjE)
  have "rn_cores a 1 = Some (tr_one tr)" "rn_cores a 2 = Some (tr_two tr)" by (simp_all add: a(2))
  then show ?thesis using that s run_simE [OF s(2)] by metis
qed

section \<open>Properties\<close>

text \<open>C1: At most one leader per term. In a cluster of nodes with the same validated roster, started in empty
  directories, with frames lost, repeated and reordered, transactions rolled back, and nodes stopped and
  restarted at any point: a node that leads a term and a node that leads the same term, then or at any later
  point of the run, are the same node.\<close>

theorem election_safety:
  assumes "roster_new voters = Inr r" "reach cluster_init (cluster_step sha r tm) s"
    "(cluster_step sha r tm)\<^sup>*\<^sup>* s s'" "leads s m t" "leads s' n t"
  shows "m = n"
proof -
  obtain V where V: "cluster_backed sha r V s" using cluster_reach_backed [OF assms(2)] by blast
  obtain W where W: "V \<subseteq> W" "cluster_backed sha r W s'" using cluster_run_backed [OF assms(3) V] by blast
  obtain A where A: "A \<subseteq> control_domain_id ` set r" "quorum_size r \<le> card A" "3 \<le> length r"
      "\<And>d. d \<in> A \<Longrightarrow> \<exists>v. domain_of r v = Some d \<and> (v, t, m) \<in> V"
    by (rule leads_quorum [OF V assms(4)]) blast
  obtain B where B: "B \<subseteq> control_domain_id ` set r" "quorum_size r \<le> card B"
      "\<And>d. d \<in> B \<Longrightarrow> \<exists>v. domain_of r v = Some d \<and> (v, t, n) \<in> W"
    by (rule leads_quorum [OF W(2) assms(5)]) blast
  obtain d where "d \<in> A" "d \<in> B" using quorums_meet [OF A(1) B(1) A(2) B(2)] by blast
  then obtain v w where vw: "domain_of r v = Some d" "(v, t, m) \<in> V" "domain_of r w = Some d" "(w, t, n) \<in> W"
    using A(4) B(3) by blast
  have "v = w" using domain_of_unique [OF roster_new_ok(2) [OF assms(1) A(3)] vw(1,3)] .
  moreover have "single_votes W" using W(2) by (simp add: cluster_backed_def)
  ultimately show ?thesis using vw W(1) unfolding single_votes_def by blast
qed

theorem election_safety_witness:
  "\<exists>s. reach cluster_init (cluster_step (\<lambda>_. 0) demo_roster (\<lambda>_. Some demo_timing)) s \<and> {n. leads s n 1} = {1}"
proof -
  obtain tr where tr: "acts (\<lambda>_. 0) elect_one trio_start = Some tr" "role (tr_one tr) = Leader" "current_term (tr_one tr) = 1"
    using elect_one_runs [of "\<lambda>_. 0"] by (elim exE conjE)
  obtain s e1 where calm: "reach cluster_init (calm_step (\<lambda>_. 0) demo_roster (\<lambda>_. Some demo_timing)) s"
      and up: "cl_nodes s 1 = Up e1 []" "engine_at (\<lambda>_. 0) (tr_one tr) e1"
    by (rule script_reaches [OF tr(1)])
  note s = reach_calm [OF calm]
  have one: "leads s 1 1" using up tr(2,3) by (simp add: leads_def engine_at_def Let_def)
  have "{n. leads s n 1} = {1}"
    using election_safety [OF demo_roster_new s rtranclp.rtrancl_refl one] one by fastforce
  with s show ?thesis by blast
qed

text \<open>The proposal a running node has committed at an index.\<close>

definition committed_at :: "Cluster \<Rightarrow> CellIdentity \<Rightarrow> LogIndex \<Rightarrow> ControlPlaneProposal option" where
  "committed_at s n k = (case cl_nodes s n of
     Up eng q \<Rightarrow> if ds_sticky_fatal_error (eng_sync eng) = None \<and> k \<le> commit_index (ds_core (eng_sync eng))
       then map_option re_proposal (entry_at (ds_core (eng_sync eng)) k) else None
   | Down db \<Rightarrow> None)"

text \<open>C35: Committed entries can differ between nodes. By steps in which no transaction fails and no
  node stops, three nodes reach a state in which nodes 1 and 2 run and have committed different
  proposals at index 1: a follower answers a heartbeat with the index of its own last entry, which
  the leader has never compared with its log, and the leader counts it as a replica of an entry
  appended since.\<close>

theorem committed_entries_diverge:
  "\<exists>s p q. reach cluster_init (calm_step sha demo_roster (\<lambda>_. Some demo_timing)) s \<and>
     committed_at s 1 1 = Some p \<and> committed_at s 2 1 = Some q \<and> p \<noteq> q"
proof -
  obtain tr where tr: "acts sha (elect_one @ [Proposes 1 (proposal_no 1)] @ elect_two @ commit_two @ commit_one) trio_start = Some tr"
      "commit_index (tr_one tr) = 2" "commit_index (tr_two tr) = 1"
      "map_option re_proposal (entry_at (tr_one tr) 1) = Some (proposal_no 1)"
      "map_option re_proposal (entry_at (tr_two tr) 1) = Some (proposal_no 2)"
    using divergence_runs [of sha] by (elim exE conjE)
  obtain s e1 e2 where s: "reach cluster_init (calm_step sha demo_roster (\<lambda>_. Some demo_timing)) s"
      "cl_nodes s 1 = Up e1 []" "engine_at sha (tr_one tr) e1" "cl_nodes s 2 = Up e2 []" "engine_at sha (tr_two tr) e2"
    by (rule script_reaches [OF tr(1)])
  have "committed_at s 1 1 = Some (proposal_no 1)" "committed_at s 2 1 = Some (proposal_no 2)"
    using s(2-5) tr(2-5) by (simp_all add: committed_at_def engine_at_def Let_def)
  moreover have "proposal_no 1 \<noteq> proposal_no 2" by (simp add: proposal_no_def)
  ultimately show ?thesis using s(1) by blast
qed

end
