(* ===== verification/RaftRepair.thy ===== *)
theory RaftRepair
  imports RaftExec RaftLog
begin

text \<open>
  Repair of a follower's log. A leader and one follower pass append messages and replies back and forth
  until the leader has nothing more to send; \<open>repair_step\<close> is one round of it, two steps of the cores.
  Every refusal lowers the follower's next index, so the exchange ends, and it ends with the follower
  holding the leader's log.
\<close>

section \<open>The exchange\<close>

definition sent_to :: "CellIdentity \<Rightarrow> ConsensusEffect list \<Rightarrow> RaftMessage list" where
  "sent_to cell effects = concat (map (\<lambda>e. case e of
     SendMessage target m \<Rightarrow> if target = cell then [m] else [] | _ \<Rightarrow> []) effects)"

definition first_sent :: "CellIdentity \<Rightarrow> ConsensusEffect list \<Rightarrow> RaftMessage option" where
  "first_sent cell effects = (case sent_to cell effects of [] \<Rightarrow> None | m # _ \<Rightarrow> Some m)"

type_synonym exchange = "ConsensusCore \<times> ConsensusCore \<times> RaftMessage option"

text \<open>The leader's message is delivered to the follower and the reply to the leader; the new message is
  what the leader then sends to the follower.\<close>

definition repair_step :: "sha256_fn \<Rightarrow> exchange \<Rightarrow> exchange" where
  "repair_step sha x = (case x of (l, f, pending) \<Rightarrow>
     (case pending of None \<Rightarrow> (l, f, None)
      | Some m \<Rightarrow>
          let (f1, out) = core_step sha f (ReceiveMessage (local_id l) m)
          in case first_sent (local_id l) out of None \<Rightarrow> (l, f1, None)
             | Some reply \<Rightarrow>
                 let (l1, out1) = core_step sha l (ReceiveMessage (local_id f) reply)
                 in (l1, f1, first_sent (local_id f) out1)))"

text \<open>Leader and follower know each other, neither has compacted its log, the leader's entries are intact,
  entries of the same index and term have the same history in both logs, and the follower has committed
  nothing that the leader lacks.\<close>

definition logs_match :: "RaftLogEntry list \<Rightarrow> RaftLogEntry list \<Rightarrow> bool" where
  "logs_match xs ys = (\<forall>i < min (length xs) (length ys).
     re_term (xs ! i) = re_term (ys ! i) \<longrightarrow> take (i + 1) xs = take (i + 1) ys)"

definition repairable :: "sha256_fn \<Rightarrow> ConsensusCore \<Rightarrow> ConsensusCore \<Rightarrow> bool" where
  "repairable sha l f = (role l = Leader \<and> log_inv l \<and> log_inv f \<and>
     snapshot_meta l = None \<and> snapshot_meta f = None \<and> length (log_tail l) < u64_max \<and>
     roster_contains (roster l) (local_id f) \<and> roster_contains (roster f) (local_id l) \<and>
     local_id l \<noteq> local_id f \<and> current_term f \<le> current_term l \<and>
     (\<forall>e\<in>set (log_tail l). verify_integrity sha e) \<and> logs_match (log_tail f) (log_tail l) \<and>
     commit_index f \<le> length (log_tail l) \<and>
     take (commit_index f) (log_tail f) = take (commit_index f) (log_tail l))"

lemma sent_to_simps [simp]:
  "sent_to cell [] = []"
  "sent_to cell (xs @ ys) = sent_to cell xs @ sent_to cell ys"
  "sent_to cell (SendMessage target m # xs) = (if target = cell then [m] else []) @ sent_to cell xs"
  by (simp_all add: sent_to_def)

lemma first_sent_single [simp]: "first_sent cell [SendMessage cell m] = Some m"
  by (simp add: first_sent_def)

lemma sent_to_none: "\<forall>e\<in>set xs. \<forall>t m. e \<noteq> SendMessage t m \<Longrightarrow> sent_to cell xs = []"
  by (induction xs) (auto simp: sent_to_def split: ConsensusEffect.split)

lemma caught_up_quiet: "SendMessage target m \<notin> set (caught_up_effects t c)"
  using set_step_down_effects [of t c] by (auto simp: caught_up_effects_def)

lemma sent_to_silent [simp]:
  "sent_to cell (caught_up_effects t c) = []" "sent_to cell (leader_advance c) = []"
  "sent_to cell (follower_advance c lc) = []" "sent_to cell (swept_reads c) = []"
  "sent_to cell [AppendLogEntries es] = []"
     apply (rule sent_to_none)
     apply (metis caught_up_quiet)
    apply (rule sent_to_none)
    apply (simp add: leader_advance_def try_advance_leader_commit_def Let_def)
   apply (rule sent_to_none)
   apply (simp add: follower_advance_def follower_commit_def Let_def)
  apply (rule sent_to_none)
  apply (auto simp: swept_reads_def sweep_confirmed_quorum_rounds_def Let_def) [1]
  apply (simp add: sent_to_def)
  done

section \<open>The follower stores the leader's entries\<close>

lemma reconcile_stores:
  assumes "contiguous (p + 1) es" "p \<le> length (log_tail c)" "snapshot_meta c = None"
    "\<forall>e\<in>set es. verify_integrity sha e"
    "\<forall>j < length es. p + j < commit_index c \<longrightarrow>
       p + j < length (log_tail c) \<and> re_term (log_tail c ! (p + j)) = re_term (es ! j)"
  shows "\<exists>tl newly' f'. reconcile_entries sha c newly f es = Inr (c\<lparr>log_tail := tl\<rparr>, newly', f') \<and>
     p + length es \<le> length tl \<and> (\<forall>i < p. tl ! i = log_tail c ! i) \<and>
     (\<forall>j < length es. tl ! (p + j) = es ! j \<or> p + j < length (log_tail c) \<and>
        tl ! (p + j) = log_tail c ! (p + j) \<and> re_term (log_tail c ! (p + j)) = re_term (es ! j))"
  using assms
proof (induction es arbitrary: c p newly f)
  case Nil
  then show ?case by (intro exI [of _ "log_tail c"] exI [of _ newly] exI [of _ f]) simp
next
  case (Cons e es)
  have e: "re_index e = p + 1" "verify_integrity sha e" and es: "contiguous (p + 1 + 1) es"
    "\<forall>x\<in>set es. verify_integrity sha x"
    using Cons.prems(1,4) by (force simp: contiguous_def)+
  have base: "first_uncompacted_index c = 1"
    using Cons.prems(3) by (simp add: first_uncompacted_index_def)
  consider (keep) "p < length (log_tail c)" "re_term (log_tail c ! p) = re_term e"
    | (put) "p = length (log_tail c) \<or> re_term (log_tail c ! p) \<noteq> re_term e" "commit_index c \<le> p"
    using Cons.prems(2) Cons.prems(5) [rule_format, of 0]
    by (cases "p < commit_index c"; cases "p = length (log_tail c)";
        cases "re_term (log_tail c ! p) = re_term e") auto
  then show ?case
  proof cases
    case keep
    have "\<forall>j < length es. p + 1 + j < commit_index c \<longrightarrow>
       p + 1 + j < length (log_tail c) \<and> re_term (log_tail c ! (p + 1 + j)) = re_term (es ! j)"
      using Cons.prems(5) by (auto dest: spec [of _ "Suc _"])
    then obtain tl newly' f' where ih: "reconcile_entries sha c newly f es = Inr (c\<lparr>log_tail := tl\<rparr>, newly', f')"
      "p + 1 + length es \<le> length tl" "\<forall>i < p + 1. tl ! i = log_tail c ! i"
      "\<forall>j < length es. tl ! (p + 1 + j) = es ! j \<or> p + 1 + j < length (log_tail c) \<and>
        tl ! (p + 1 + j) = log_tail c ! (p + 1 + j) \<and> re_term (log_tail c ! (p + 1 + j)) = re_term (es ! j)"
      using Cons.IH [OF es(1) _ Cons.prems(3) es(2), of newly f] keep(1) by auto
    have "reconcile_entries sha c newly f (e # es) = reconcile_entries sha c newly f es"
      using e base keep by (simp add: log_get_def)
    then show ?thesis
      using ih keep by (intro exI [of _ tl] exI [of _ newly'] exI [of _ f']) (auto simp: nth_Cons split: nat.split)
  next
    case put
    let ?d = "c\<lparr>log_tail := take p (log_tail c) @ [e]\<rparr>"
    obtain g where step: "reconcile_entries sha c newly f (e # es) = reconcile_entries sha ?d (newly @ [e]) g es"
      using e base put Cons.prems(2) by (cases "p = length (log_tail c)") (auto simp: log_get_def)
    obtain tl newly' f' where ih: "reconcile_entries sha ?d (newly @ [e]) g es = Inr (?d\<lparr>log_tail := tl\<rparr>, newly', f')"
      "p + 1 + length es \<le> length tl" "\<forall>i < p + 1. tl ! i = log_tail ?d ! i"
      "\<forall>j < length es. tl ! (p + 1 + j) = es ! j \<or> p + 1 + j < length (log_tail ?d) \<and>
        tl ! (p + 1 + j) = log_tail ?d ! (p + 1 + j) \<and> re_term (log_tail ?d ! (p + 1 + j)) = re_term (es ! j)"
      using Cons.IH [OF es(1) _ _ es(2), of ?d "newly @ [e]" g] Cons.prems(2,3) put(2) by auto
    have "tl ! i = log_tail c ! i" if "i < p" for i
      using ih(3) that Cons.prems(2) by (simp add: nth_append)
    moreover have "tl ! p = e" using ih(3) Cons.prems(2) by (simp add: nth_append min_def)
    moreover have "tl ! (p + 1 + j) = es ! j" if "j < length es" for j
      using ih(4) that Cons.prems(2) by auto
    ultimately show ?thesis
      using ih(1,2) step
      by (intro exI [of _ tl] exI [of _ newly'] exI [of _ f']) (auto simp: nth_Cons split: nat.split)
  qed
qed

lemma term_at_plain:
  "snapshot_meta c = None \<Longrightarrow>
   term_at c i = (if i = 0 then Some 0 else map_option re_term (log_get (log_tail c) (i - 1)))"
  by (auto simp: term_at_def term_at_tail_def first_uncompacted_index_def)

lemma plain_log:
  assumes "log_inv c" "snapshot_meta c = None"
  shows "last_log_index c = length (log_tail c)" and "contiguous 1 (log_tail c)"
    and "commit_index c \<le> length (log_tail c)"
  using assms log_inv_last_log_index [OF assms(1)] log_inv_contiguous [OF assms(1)]
  by (simp_all add: snapshot_index_def log_inv_def)

lemma matched_prefix:
  assumes "logs_match xs ys" "p \<le> length ys"
    "0 < p \<Longrightarrow> p \<le> length xs \<and> re_term (xs ! (p - 1)) = re_term (ys ! (p - 1))"
  shows "take p xs = take p ys" and "p \<le> length xs"
  using assms by (cases p; auto simp: logs_match_def)+

text \<open>A follower that is not ahead of the leader's term takes up the contact and looks at the entry before
  the message.\<close>

lemma append_received:
  assumes "repairable sha l f"
  shows "core_step sha f (ReceiveMessage (local_id l)
      (AppendEntries (current_term l) (local_id l) p pt es lc r)) =
     (let d = leader_contact (current_term l) (local_id l) f; effs = caught_up_effects (current_term l) f
      in case term_at f p of
          None \<Rightarrow> (d, effs @ [append_response d (local_id l) False 0 None (sat_add64 (last_log_index f) 1) r])
        | Some lt \<Rightarrow>
            if lt \<noteq> pt
            then (d, effs @ [append_response d (local_id l) False 0 (Some lt) (first_of_conflict_term d lt p) r])
            else reconcile_and_commit_entries sha d (local_id l) es lc r effs)"
proof -
  let ?d = "leader_contact (current_term l) (local_id l) f"
  note pos = log_positions_cong [of ?d f, simplified]
  have "snapshot_index f = 0" using assms by (simp add: repairable_def snapshot_index_def)
  moreover have "\<not> current_term l < current_term f" using assms by (simp add: repairable_def)
  moreover have "roster_contains (roster f) (local_id l)" "local_id l \<noteq> local_id f"
    using assms by (simp_all add: repairable_def)
  ultimately show ?thesis
    using pos by (simp add: on_message_def on_append_entries_def catch_up_eq
        leader_contact_def [symmetric] Let_def split: option.split)
qed

lemma stored_prefix:
  assumes match: "logs_match xs ys" and p: "p \<le> length ys" "take p xs = take p ys" "p \<le> length xs"
    and stored: "length ys \<le> length zs" "\<forall>i < p. zs ! i = xs ! i"
      "\<forall>j < length ys - p. zs ! (p + j) = ys ! (p + j) \<or> p + j < length xs \<and>
         zs ! (p + j) = xs ! (p + j) \<and> re_term (xs ! (p + j)) = re_term (ys ! (p + j))"
  shows "take (length ys) zs = ys"
proof (rule nth_equalityI)
  fix i
  assume i: "i < length (take (length ys) zs)"
  have same: "xs ! i = ys ! i" if "i < length xs" "re_term (xs ! i) = re_term (ys ! i)"
  proof -
    have "take (i + 1) xs = take (i + 1) ys" using match i that by (simp add: logs_match_def)
    from arg_cong [OF this, of "\<lambda>l. l ! i"] show ?thesis by simp
  qed
  show "take (length ys) zs ! i = ys ! i"
  proof (cases "i < p")
    case True
    from arg_cong [OF p(2), of "\<lambda>l. l ! i"] True have "xs ! i = ys ! i" by simp
    then show ?thesis using True i stored(2) by simp
  next
    case False
    then have "i - p < length ys - p" using i by auto
    then show ?thesis using stored(3) [rule_format, of "i - p"] same i False by auto
  qed
qed (use stored(1) in simp)

text \<open>An append message that fits the follower's log is stored.\<close>

lemma follower_accepts:
  assumes "repairable sha l f" "p \<le> length (log_tail l)" "term_at f p = term_at l p" "pt = the (term_at l p)"
  shows "\<exists>f1 out. core_step sha f (ReceiveMessage (local_id l) (AppendEntries (current_term l) (local_id l) p pt
       (drop p (log_tail l)) lc r)) = (f1, out) \<and>
     first_sent (local_id l) out = Some (AppendEntriesResponse (current_term l) (local_id f) True
       (length (log_tail f1)) None 0 r) \<and>
     take (length (log_tail l)) (log_tail f1) = log_tail l \<and> length (log_tail l) \<le> length (log_tail f1)"
proof -
  let ?d = "leader_contact (current_term l) (local_id l) f"
  let ?es = "drop p (log_tail l)"
  note inv = assms(1) [unfolded repairable_def]
  have plain: "snapshot_meta l = None" "snapshot_meta f = None" "snapshot_meta ?d = None" using inv by simp_all
  have pos: "0 < p \<Longrightarrow> p \<le> length (log_tail f) \<and> re_term (log_tail f ! (p - 1)) = re_term (log_tail l ! (p - 1))"
    using assms(2,3) by (auto simp: term_at_plain plain log_get_def split: if_splits)
  note prefix = matched_prefix [OF _ assms(2) pos]
  have match: "logs_match (log_tail f) (log_tail l)" using inv by blast
  have some: "term_at f p = Some pt"
    using assms(2-4) by (auto simp: term_at_plain plain log_get_def)
  have es: "contiguous (p + 1) ?es"
    using contiguous_drop [OF plain_log(2) [of l]] inv by simp
  have committed: "\<forall>j < length ?es. p + j < commit_index ?d \<longrightarrow>
     p + j < length (log_tail ?d) \<and> re_term (log_tail ?d ! (p + j)) = re_term (?es ! j)"
  proof (intro allI impI)
    fix j
    assume j: "j < length ?es" "p + j < commit_index ?d"
    have "take (commit_index f) (log_tail f) = take (commit_index f) (log_tail l)" using inv by simp
    from arg_cong [OF this, of "\<lambda>xs. xs ! (p + j)"] have "log_tail f ! (p + j) = log_tail l ! (p + j)"
      using j(2) by simp
    then show "p + j < length (log_tail ?d) \<and> re_term (log_tail ?d ! (p + j)) = re_term (?es ! j)"
      using j plain_log(3) [of f] inv by simp
  qed
  have intact: "\<forall>e\<in>set ?es. verify_integrity sha e" using inv by (meson in_set_dropD)
  have bounded: "\<forall>e\<in>set ?es. re_index e \<le> u64_max"
    using es inv by (auto simp: contiguous_def in_set_conv_nth)
  obtain tl newly g where rec: "reconcile_entries sha ?d [] (caught_up_effects (current_term l) f) ?es =
      Inr (?d\<lparr>log_tail := tl\<rparr>, newly, g)"
    and tl: "p + length ?es \<le> length tl" "\<forall>i < p. tl ! i = log_tail f ! i"
      "\<forall>j < length ?es. tl ! (p + j) = ?es ! j \<or> p + j < length (log_tail f) \<and>
        tl ! (p + j) = log_tail f ! (p + j) \<and> re_term (log_tail f ! (p + j)) = re_term (?es ! j)"
    using reconcile_stores [OF es _ plain(3) intact committed, of "[]" "caught_up_effects (current_term l) f"]
      prefix(2) [OF match] by auto
  have stored: "take (length (log_tail l)) tl = log_tail l"
    by (rule stored_prefix [OF match assms(2) prefix [OF match]]) (use tl assms(2) in simp_all)
  have step: "core_step sha f (ReceiveMessage (local_id l)
      (AppendEntries (current_term l) (local_id l) p pt ?es lc r)) =
    reconcile_and_commit_entries sha ?d (local_id l) ?es lc r (caught_up_effects (current_term l) f)"
    using append_received [OF assms(1)] some by simp
  have quiet: "sent_to (local_id l) g = []"
  proof (rule sent_to_none, intro ballI allI notI)
    fix e t m
    assume "e \<in> set g" "e = SendMessage t m"
    then have "SendMessage t m \<in> set (caught_up_effects (current_term l) f)"
      using reconcile_entries_effects [of sha ?d "[]" "caught_up_effects (current_term l) f" ?es]
      by (auto simp: rec reconciled_effects_def)
    then show False by (simp add: caught_up_quiet)
  qed
  have last: "last_log_index (?d\<lparr>log_tail := tl, commit_index := k\<rparr>) = length tl" for k
  proof -
    have "log_inv (?d\<lparr>log_tail := tl\<rparr>)"
      using log_advances_inv [OF reconcile_entries_log [OF leader_contact_log(2) bounded,
          of f "current_term l" "local_id l" sha "[]" "caught_up_effects (current_term l) f"]] inv
      by (simp add: rec reconciled_core_def)
    then show ?thesis
      using plain_log(1) [of "?d\<lparr>log_tail := tl\<rparr>"] plain(3)
        log_positions_cong(3) [of "?d\<lparr>log_tail := tl, commit_index := k\<rparr>" "?d\<lparr>log_tail := tl\<rparr>"] by simp
  qed
  have same_term: "max (current_term l) (current_term f) = current_term l" using inv by simp
  show ?thesis
    unfolding step reconcile_and_commit_entries_def rec
    using stored tl(1) assms(2) quiet same_term last
    by (simp add: follower_commit_eq append_response_def first_sent_def)
qed

section \<open>The leader's side\<close>

lemma replication_plain:
  assumes "log_inv l" "snapshot_meta l = None" "bt_get (next_index l) peer = Some n" "1 \<le> n"
    "n \<le> length (log_tail l) + 1"
  shows "replication_message sha l peer r = AppendEntries (current_term l) (local_id l) (n - 1)
     (the (term_at l (n - 1))) (drop (n - 1) (log_tail l)) (commit_index l) r"
proof -
  note plain = plain_log [OF assms(1,2)]
  have "collect_range l n (length (log_tail l)) = drop (n - 1) (log_tail l)"
    using contiguous_filter_range [OF plain(2), of n "length (log_tail l)"] assms(4,5)
    by (cases "n \<le> length (log_tail l)") (simp_all add: collect_range_def)
  moreover have "term_at l (n - 1) = Some (the (term_at l (n - 1)))"
    using assms(4,5) by (auto simp: term_at_plain assms(2) log_get_def)
  then have "(case term_at l (n - 1) of Some t \<Rightarrow> t | None \<Rightarrow> 0) = the (term_at l (n - 1))"
    by (cases "term_at l (n - 1)") simp_all
  ultimately show ?thesis
    using assms plain(1)
    by (simp add: replication_message_def build_replication_for_peer_def bt_get_or_def max_def Let_def)
qed

lemma leader_accepted:
  assumes "repairable sha l f" "length (log_tail l) \<le> mi"
  shows "\<exists>l1 out. core_step sha l (ReceiveMessage (local_id f)
       (AppendEntriesResponse (current_term l) (local_id f) True mi ct ci r)) = (l1, out) \<and>
     first_sent (local_id f) out = None \<and> log_tail l1 = log_tail l \<and>
     bt_get (match_index l1) (local_id f) = Some (length (log_tail l))"
proof -
  note inv = assms(1) [unfolded repairable_def]
  have last: "last_log_index c = length (log_tail l)" if "log_tail c = log_tail l" "snapshot_meta c = None" for c
    using plain_log(1) [of l] inv log_positions_cong(3) [of c l] that by simp
  have new_match: "min (max k mi) (length (log_tail l)) = length (log_tail l)" for k
    using assms(2) by simp
  show ?thesis
    using inv not_sym [of "local_id l" "local_id f"]
    by (simp add: on_message_def on_append_entries_response_def on_append_accepted_def core_eqs Let_def last
        new_match first_sent_def)
qed

lemma leader_refused:
  assumes "repairable sha l f" "bt_get (next_index l) (local_id f) = Some n" "1 < n"
  shows "\<exists>l1 out n' r'. core_step sha l (ReceiveMessage (local_id f)
       (AppendEntriesResponse (current_term l) (local_id f) False mi ct ci r)) = (l1, out) \<and>
     first_sent (local_id f) out = Some (replication_message sha l1 (local_id f) r') \<and>
     bt_get (next_index l1) (local_id f) = Some n' \<and> 1 \<le> n' \<and> n' < n \<and> log_tail l1 = log_tail l \<and>
     repairable sha l1 f \<and> current_term l1 = current_term l \<and> local_id l1 = local_id l"
proof -
  note inv = assms(1) [unfolded repairable_def]
  let ?n' = "max (min (backed_up_next l ct ci) (max (n - 1) 1)) 1"
  let ?l1 = "with_round None (l\<lparr>next_index := bt_insert (local_id f) ?n' (next_index l),
      snapshot_send_offset := bt_remove (local_id f) (snapshot_send_offset l)\<rparr>)"
  have step: "core_step sha l (ReceiveMessage (local_id f)
       (AppendEntriesResponse (current_term l) (local_id f) False mi ct ci r)) =
     (?l1, [SendMessage (local_id f) (replication_message sha ?l1 (local_id f) (next_quorum_round_id l))])"
    using inv assms(2) not_sym [of "local_id l" "local_id f"]
    by (simp add: on_message_def on_append_entries_response_def on_append_conflict_def
        core_eqs Let_def bt_get_or_def)
  have "log_inv ?l1 = log_inv l" by (rule log_inv_cong) simp_all
  then have "repairable sha ?l1 f" using inv by (simp add: repairable_def)
  moreover have "bt_get (next_index ?l1) (local_id f) = Some ?n'" "1 \<le> ?n'" "?n' < n" "log_tail ?l1 = log_tail l"
    "current_term ?l1 = current_term l" "local_id ?l1 = local_id l"
    using assms(3) by simp_all
  ultimately show ?thesis unfolding step by (blast intro: first_sent_single)
qed

section \<open>The exchange ends\<close>

lemma refused_reply:
  assumes "repairable sha l f" "term_at f p \<noteq> Some pt"
  shows "\<exists>f1 out mi ct ci. core_step sha f (ReceiveMessage (local_id l)
       (AppendEntries (current_term l) (local_id l) p pt es lc r)) = (f1, out) \<and>
     first_sent (local_id l) out =
       Some (AppendEntriesResponse (current_term l) (local_id f) False mi ct ci r) \<and>
     repairable sha l f1 \<and> local_id f1 = local_id f \<and> log_tail f1 = log_tail f"
proof -
  let ?d = "leader_contact (current_term l) (local_id l) f"
  note inv = assms(1) [unfolded repairable_def]
  have "log_inv ?d" using inv by (simp add: leader_contact_log(2))
  then have d: "repairable sha l ?d" using inv by (simp add: repairable_def)
  have same_term: "max (current_term l) (current_term f) = current_term l" using inv by simp
  obtain mi ct ci where "core_step sha f (ReceiveMessage (local_id l)
       (AppendEntries (current_term l) (local_id l) p pt es lc r)) =
      (?d, caught_up_effects (current_term l) f @ [append_response ?d (local_id l) False mi ct ci r])"
    using append_received [OF assms(1), of p pt es lc r] assms(2)
    by (cases "term_at f p") (simp_all add: Let_def)
  then show ?thesis
    using d same_term by (simp add: append_response_def first_sent_def)
qed

text \<open>One round either ends the exchange with the follower repaired, or leaves a smaller next index.\<close>

lemma repair_round:
  assumes "repairable sha l f" "bt_get (next_index l) (local_id f) = Some n" "1 \<le> n"
    "n \<le> length (log_tail l) + 1"
  obtains (ended) l1 f1 where
      "repair_step sha (l, f, Some (replication_message sha l (local_id f) r)) = (l1, f1, None)"
      "log_tail l1 = log_tail l" "take (length (log_tail l)) (log_tail f1) = log_tail l"
      "bt_get (match_index l1) (local_id f) = Some (length (log_tail l))"
  | (lowered) l1 f1 n' r' where
      "repair_step sha (l, f, Some (replication_message sha l (local_id f) r)) =
         (l1, f1, Some (replication_message sha l1 (local_id f1) r'))"
      "repairable sha l1 f1" "bt_get (next_index l1) (local_id f) = Some n'" "1 \<le> n'" "n' < n"
      "log_tail l1 = log_tail l" "local_id f1 = local_id f"
proof -
  let ?pt = "the (term_at l (n - 1))"
  let ?m = "AppendEntries (current_term l) (local_id l) (n - 1) ?pt (drop (n - 1) (log_tail l))
    (commit_index l) r"
  note inv = assms(1) [unfolded repairable_def]
  have msg: "replication_message sha l (local_id f) r = ?m"
    by (rule replication_plain) (use inv assms in simp_all)
  have some: "term_at l (n - 1) = Some ?pt"
    using assms(3,4) inv by (auto simp: term_at_plain log_get_def)
  show thesis
  proof (cases "term_at f (n - 1) = Some ?pt")
    case True
    have p: "n - 1 \<le> length (log_tail l)" "term_at f (n - 1) = term_at l (n - 1)"
      using assms(4) True some by simp_all
    obtain f1 out where f1: "core_step sha f (ReceiveMessage (local_id l) ?m) = (f1, out)"
      "first_sent (local_id l) out = Some (AppendEntriesResponse (current_term l) (local_id f) True
         (length (log_tail f1)) None 0 r)"
      "take (length (log_tail l)) (log_tail f1) = log_tail l" "length (log_tail l) \<le> length (log_tail f1)"
      using follower_accepts [OF assms(1) p refl, of "commit_index l" r] by blast
    obtain l1 out1 where l1: "core_step sha l (ReceiveMessage (local_id f) (AppendEntriesResponse (current_term l)
        (local_id f) True (length (log_tail f1)) None 0 r)) = (l1, out1)"
      "first_sent (local_id f) out1 = None" "log_tail l1 = log_tail l"
      "bt_get (match_index l1) (local_id f) = Some (length (log_tail l))"
      using leader_accepted [OF assms(1) f1(4)] by blast
    show thesis
      by (rule ended [of l1 f1])
        (use f1 l1 in \<open>simp_all add: repair_step_def msg del: core_step.simps\<close>)
  next
    case False
    then have n: "1 < n" using assms(3) some inv by (cases "n = 1") (auto simp: term_at_plain)
    obtain f1 out mi ct ci where f1: "core_step sha f (ReceiveMessage (local_id l) ?m) = (f1, out)"
      "first_sent (local_id l) out = Some (AppendEntriesResponse (current_term l) (local_id f) False mi ct ci r)"
      "repairable sha l f1" "local_id f1 = local_id f"
      using refused_reply [OF assms(1) False, of "drop (n - 1) (log_tail l)" "commit_index l" r] by blast
    obtain l1 out1 n' r' where l1: "core_step sha l (ReceiveMessage (local_id f)
         (AppendEntriesResponse (current_term l) (local_id f) False mi ct ci r)) = (l1, out1)"
       "first_sent (local_id f) out1 = Some (replication_message sha l1 (local_id f) r')"
       "bt_get (next_index l1) (local_id f) = Some n'" "1 \<le> n'" "n' < n" "log_tail l1 = log_tail l"
       "repairable sha l1 f1"
      using leader_refused [OF f1(3) _ n, of mi ct ci r] assms(2) f1(4) by auto
    show thesis
      by (rule lowered [of l1 f1 r' n'])
        (use f1 l1 in \<open>simp_all add: repair_step_def msg del: core_step.simps\<close>)
  qed
qed

text \<open>C3: A leader and a follower exchange append messages and replies, starting from the message the leader
  builds for the follower. Neither has compacted its log, the follower is not in a later term and has
  committed nothing that the leader lacks, and entries of the same index and term have the same history in
  both logs. Then the exchange ends after at most as many rounds as the follower's next index, the follower's
  log begins with the whole log of the leader, and the leader has recorded its last index as replicated
  there.\<close>

theorem log_repair_terminates:
  assumes "repairable sha l f" "bt_get (next_index l) (local_id f) = Some n" "1 \<le> n"
    "n \<le> length (log_tail l) + 1"
  shows "\<exists>k l' f'. k \<le> n \<and>
     (repair_step sha ^^ k) (l, f, Some (replication_message sha l (local_id f) r)) = (l', f', None) \<and>
     log_tail l' = log_tail l \<and> take (length (log_tail l)) (log_tail f') = log_tail l \<and>
     bt_get (match_index l') (local_id f) = Some (length (log_tail l))"
  using assms
proof (induction n arbitrary: l f r rule: less_induct)
  case (less n)
  from less.prems show ?case
  proof (cases rule: repair_round [where r = r])
    case (ended l1 f1)
    then show ?thesis
      using less.prems(3) by (intro exI [of _ "Suc 0"] exI [of _ l1] exI [of _ f1]) simp
  next
    case (lowered l1 f1 n' r')
    obtain k l' f' where "k \<le> n'"
      "(repair_step sha ^^ k) (l1, f1, Some (replication_message sha l1 (local_id f1) r')) = (l', f', None)"
      "log_tail l' = log_tail l" "take (length (log_tail l)) (log_tail f') = log_tail l"
      "bt_get (match_index l') (local_id f) = Some (length (log_tail l))"
      using less.IH [OF lowered(5,2), of r'] lowered(3-7) less.prems(4) by auto
    then show ?thesis
      using lowered(1,5)
      by (intro exI [of _ "Suc k"] exI [of _ l'] exI [of _ f']) (simp add: funpow_Suc_right del: funpow.simps)
  qed
qed

text \<open>A leader of term 3 with two entries, and a follower with one entry of term 1 and one of term 2.\<close>

definition repair_leader :: "sha256_fn \<Rightarrow> ConsensusCore" where
  "repair_leader sha = demo_leader\<lparr>current_term := 3,
     log_tail := [log_entry_new sha 1 3 demo_proposal, log_entry_new sha 2 3 demo_proposal],
     next_index := [(1, 3), (2, 3), (3, 3)]\<rparr>"

definition repair_follower :: "sha256_fn \<Rightarrow> ConsensusCore" where
  "repair_follower sha = (demo_follower 2 12)\<lparr>current_term := 2,
     log_tail := [log_entry_new sha 1 1 demo_proposal, log_entry_new sha 2 2 demo_proposal]\<rparr>"

lemma repair_example:
  "repairable sha (repair_leader sha) (repair_follower sha)"
  "local_id (repair_follower sha) = 2" "bt_get (next_index (repair_leader sha)) 2 = Some 3"
  "length (log_tail (repair_leader sha)) = 2"
  by (simp_all add: repairable_def repair_leader_def repair_follower_def demo_leader_def demo_defs log_inv_def
      contiguous_def less_Suc_eq logs_match_def roster_contains_def snapshot_index_def bt_get_def u64_max_def)

theorem log_repair_terminates_witness:
  "repairable (\<lambda>_. 0) (repair_leader (\<lambda>_. 0)) (repair_follower (\<lambda>_. 0)) \<and>
   bt_get (next_index (repair_leader (\<lambda>_. 0))) 2 = Some 3 \<and>
   (\<exists>k l' f'. k \<le> 3 \<and>
     (repair_step (\<lambda>_. 0) ^^ k) (repair_leader (\<lambda>_. 0), repair_follower (\<lambda>_. 0),
        Some (replication_message (\<lambda>_. 0) (repair_leader (\<lambda>_. 0)) 2 1)) = (l', f', None) \<and>
     take 2 (log_tail f') = log_tail (repair_leader (\<lambda>_. 0)))"
proof -
  let ?sha = "(\<lambda>_. 0) :: sha256_fn"
  note ex = repair_example [of ?sha]
  from log_repair_terminates [OF ex(1), of 3 1] ex show ?thesis by auto
qed

end
