(* ===== verification/Cell.thy ===== *)
theory Cell
  imports Commands
begin

text \<open>
  Cell identity, epochs and fencing of \<open>nlos-cell/src/lib.rs\<close>: the authority a process holds, the fences it
  issues and admits, and the data directory that counts the boots. File contents are ASCII text. Which of
  the file operations of a claim fail is the parameter \<open>io\<close>; a failed write leaves the old file, as the
  rename of the source does. The text formats of the two files read back what was written.
\<close>

section \<open>Fences and authorities\<close>

text \<open>\<open>checked_next\<close> of epochs, tokens and generations.\<close>

definition checked_next :: "u64 \<Rightarrow> u64 option" where
  "checked_next x = checked_add x 1"

record CellFence =
  cf_identity :: CellIdentity
  cf_node_boot_generation :: Generation
  cf_epoch :: CellEpoch
  cf_fencing_token :: CellFencingToken

text \<open>The authority with its two counters; the process id it also records is never read by the cell.\<close>

record CellAuthority =
  ca_identity :: CellIdentity
  ca_node_boot_generation :: Generation
  ca_epoch :: CellEpoch
  ca_fencing_token :: CellFencingToken

datatype CellError = AlreadyClaimedInProcess CellIdentity | GenerationExhausted | LockPoisoned
  | DataDirUnavailable | DataDirCorrupt | DataDirIdentityMismatch CellIdentity CellIdentity

datatype CellAdmitError = StaleEpoch CellEpoch CellEpoch | EpochMismatch CellEpoch CellEpoch
  | BootGenerationMismatch Generation Generation | AdmitIdentityMismatch CellIdentity CellIdentity
  | FencingTokenMismatch CellFencingToken CellFencingToken

definition fence :: "CellAuthority \<Rightarrow> CellFence" where
  "fence a = \<lparr>cf_identity = ca_identity a, cf_node_boot_generation = ca_node_boot_generation a,
     cf_epoch = ca_epoch a, cf_fencing_token = ca_fencing_token a\<rparr>"

definition advance_epoch :: "CellAuthority \<Rightarrow> CellAuthority \<times> (CellError, CellFence) result" where
  "advance_epoch a =
     (case checked_next (ca_epoch a) of None \<Rightarrow> (a, Inl GenerationExhausted)
      | Some epoch \<Rightarrow> (case checked_next (ca_fencing_token a) of None \<Rightarrow> (a, Inl GenerationExhausted)
         | Some token \<Rightarrow> let a1 = a\<lparr>ca_epoch := epoch, ca_fencing_token := token\<rparr> in (a1, Inr (fence a1))))"

definition admit :: "CellAuthority \<Rightarrow> CellFence \<Rightarrow> (CellAdmitError, unit) result" where
  "admit a p =
     (if cf_identity p \<noteq> ca_identity a then Inl (AdmitIdentityMismatch (cf_identity p) (ca_identity a))
      else if cf_node_boot_generation p \<noteq> ca_node_boot_generation a
      then Inl (BootGenerationMismatch (cf_node_boot_generation p) (ca_node_boot_generation a))
      else if cf_epoch p < ca_epoch a then Inl (StaleEpoch (cf_epoch p) (ca_epoch a))
      else if cf_epoch p \<noteq> ca_epoch a then Inl (EpochMismatch (cf_epoch p) (ca_epoch a))
      else if cf_fencing_token p \<noteq> ca_fencing_token a
      then Inl (FencingTokenMismatch (cf_fencing_token p) (ca_fencing_token a))
      else Inr ())"

section \<open>Text files\<close>

definition code :: "char \<Rightarrow> nat" where
  "code c = of_char c"

definition is_whitespace :: "char \<Rightarrow> bool" where
  "is_whitespace c = (9 \<le> code c \<and> code c \<le> 13 \<or> code c = 32)"

definition trim :: "string \<Rightarrow> string" where
  "trim s = rev (dropWhile is_whitespace (rev (dropWhile is_whitespace s)))"

definition hex_digit :: "nat \<Rightarrow> char" where
  "hex_digit n = char_of (if n < 10 then 48 + n else 87 + n)"

definition hex_identity :: "CellIdentity \<Rightarrow> string" where
  "hex_identity identity =
     concat (map (\<lambda>b. [hex_digit (unat b div 16), hex_digit (unat b mod 16)]) (to_be identity))"

definition hex_nibble :: "char \<Rightarrow> (CellError, nat) result" where
  "hex_nibble c =
     (if 48 \<le> code c \<and> code c \<le> 57 then Inr (code c - 48)
      else if 97 \<le> code c \<and> code c \<le> 102 then Inr (code c - 97 + 10)
      else if 65 \<le> code c \<and> code c \<le> 70 then Inr (code c - 65 + 10)
      else Inl DataDirCorrupt)"

text \<open>The low nibble is below 16, so the \<open>(high << 4) | low\<close> of the source is the sum.\<close>

fun read_hex_pairs :: "string \<Rightarrow> (CellError, byte list) result" where
  "read_hex_pairs [] = Inr []"
| "read_hex_pairs [c] = Inl DataDirCorrupt"
| "read_hex_pairs (c # d # cs) =
     result_bind (hex_nibble c) (\<lambda>high. result_bind (hex_nibble d) (\<lambda>low.
       result_bind (read_hex_pairs cs) (\<lambda>bytes. Inr (of_nat (16 * high + low) # bytes))))"

definition read_identity_text :: "string \<Rightarrow> (CellError, CellIdentity) result" where
  "read_identity_text raw =
     (let trimmed = trim raw
      in if length trimmed \<noteq> 32 then Inl DataDirCorrupt
         else result_bind (read_hex_pairs trimmed) (\<lambda>bytes. Inr (from_be bytes)))"

fun show_decimal :: "nat \<Rightarrow> string" where
  "show_decimal n = (if n < 10 then [char_of (48 + n)] else show_decimal (n div 10) @ [char_of (48 + n mod 10)])"

declare show_decimal.simps [simp del]

text \<open>\<open>str::parse\<close> at \<open>u64\<close>: an optional plus sign, then at least one digit, without overflow.\<close>

fun parse_digits :: "nat \<Rightarrow> string \<Rightarrow> nat option" where
  "parse_digits acc [] = Some acc"
| "parse_digits acc (c # cs) =
     (if 48 \<le> code c \<and> code c \<le> 57
      then let acc1 = 10 * acc + (code c - 48)
           in if acc1 < 2 ^ 64 then parse_digits acc1 cs else None
      else None)"

definition parse_u64 :: "string \<Rightarrow> u64 option" where
  "parse_u64 s =
     (let digits = (case s of c # cs \<Rightarrow> if code c = 43 then cs else s | [] \<Rightarrow> s)
      in if digits = [] then None else map_option of_nat (parse_digits 0 digits))"

definition boot_generation_text :: "Generation \<Rightarrow> string" where
  "boot_generation_text g = show_decimal (unat g) @ [char_of (10 :: nat)]"

definition read_boot_generation_text :: "string \<Rightarrow> (CellError, Generation) result" where
  "read_boot_generation_text raw =
     (case parse_u64 (trim raw) of None \<Rightarrow> Inl DataDirCorrupt
      | Some value \<Rightarrow> if value = 0 then Inl DataDirCorrupt else Inr value)"

section \<open>The data directory and claims\<close>

record DataDir =
  dd_identity_file :: "string option"
  dd_boot_file :: "string option"

datatype io_op = CreateDir | ProbeIdentity | ProbeBoot | ReadIdentity | ReadBoot | WriteIdentity | WriteBoot

type_synonym 'a dir_result = "DataDir \<times> (CellError, 'a) result"

definition advance_persisted_boot_generation :: "(io_op \<Rightarrow> bool) \<Rightarrow> DataDir \<Rightarrow> CellIdentity \<Rightarrow> Generation dir_result" where
  "advance_persisted_boot_generation io dir identity =
     (if \<not> io CreateDir \<or> \<not> io ProbeIdentity \<or> \<not> io ProbeBoot then (dir, Inl DataDirUnavailable)
      else case (dd_identity_file dir, dd_boot_file dir) of
        (None, None) \<Rightarrow>
          if \<not> io WriteIdentity then (dir, Inl DataDirUnavailable)
          else let dir1 = dir\<lparr>dd_identity_file := Some (hex_identity identity)\<rparr>
               in if \<not> io WriteBoot then (dir1, Inl DataDirUnavailable)
                  else (dir1\<lparr>dd_boot_file := Some (boot_generation_text 1)\<rparr>, Inr 1)
      | (Some identity_text, Some boot_text) \<Rightarrow>
          if \<not> io ReadIdentity then (dir, Inl DataDirUnavailable)
          else (case read_identity_text identity_text of
              Inl e \<Rightarrow> (dir, Inl e)
            | Inr existing \<Rightarrow>
                if existing \<noteq> identity then (dir, Inl (DataDirIdentityMismatch existing identity))
                else if \<not> io ReadBoot then (dir, Inl DataDirUnavailable)
                else (case read_boot_generation_text boot_text of
                    Inl e \<Rightarrow> (dir, Inl e)
                  | Inr previous \<Rightarrow>
                      (case checked_next previous of
                         None \<Rightarrow> (dir, Inl GenerationExhausted)
                       | Some next \<Rightarrow>
                           if \<not> io WriteBoot then (dir, Inl DataDirUnavailable)
                           else (dir\<lparr>dd_boot_file := Some (boot_generation_text next)\<rparr>, Inr next))))
      | _ \<Rightarrow> (dir, Inl DataDirCorrupt))"

text \<open>The claim slot of the process behind its lock.\<close>

datatype process_claim = Poisoned | Slot "CellIdentity option"

definition new_authority :: "CellIdentity \<Rightarrow> Generation \<Rightarrow> CellAuthority" where
  "new_authority identity generation = \<lparr>ca_identity = identity, ca_node_boot_generation = generation,
     ca_epoch = 1, ca_fencing_token = 1\<rparr>"

definition claim :: "process_claim \<Rightarrow> CellIdentity \<Rightarrow> process_claim \<times> (CellError, CellAuthority) result" where
  "claim slot identity =
     (case slot of Poisoned \<Rightarrow> (slot, Inl LockPoisoned)
      | Slot (Some existing) \<Rightarrow> (slot, Inl (AlreadyClaimedInProcess existing))
      | Slot None \<Rightarrow> (Slot (Some identity), Inr (new_authority identity 1)))"

definition claim_with_data_dir ::
  "(io_op \<Rightarrow> bool) \<Rightarrow> process_claim \<Rightarrow> DataDir \<Rightarrow> CellIdentity \<Rightarrow>
   process_claim \<times> DataDir \<times> (CellError, CellAuthority) result" where
  "claim_with_data_dir io slot dir identity =
     (case slot of Poisoned \<Rightarrow> (slot, dir, Inl LockPoisoned)
      | Slot (Some existing) \<Rightarrow> (slot, dir, Inl (AlreadyClaimedInProcess existing))
      | Slot None \<Rightarrow>
          (case advance_persisted_boot_generation io dir identity of
             (dir1, Inl e) \<Rightarrow> (slot, dir1, Inl e)
           | (dir1, Inr generation) \<Rightarrow> (Slot (Some identity), dir1, Inr (new_authority identity generation))))"

section \<open>Reading back the files\<close>

lemma code_char_of [simp]: "n < 256 \<Longrightarrow> code (char_of n) = n"
  by (simp add: code_def)

lemma hex_nibble_digit: "n < 16 \<Longrightarrow> hex_nibble (hex_digit n) = Inr n"
  by (auto simp: hex_nibble_def hex_digit_def)

lemma read_hex_pairs_concat:
  "read_hex_pairs (concat (map (\<lambda>b. [hex_digit (unat b div 16), hex_digit (unat b mod 16)]) bs)) = Inr bs"
proof (induction bs)
  case (Cons b bs)
  have b: "unat b < 256" using unsigned_less [of b] by simp
  then have "unat b div 16 < 16" "unat b mod 16 < 16" by simp_all
  moreover have "of_nat (16 * (unat b div 16) + unat b mod 16) = b"
    by (simp only: mult_div_mod_eq) simp
  ultimately show ?case using Cons.IH by (simp add: hex_nibble_digit del: of_nat_add of_nat_mult)
qed simp

lemma dropWhile_plain: "\<forall>c\<in>set s. \<not> P c \<Longrightarrow> dropWhile P s = s"
  by (cases s) simp_all

lemma trim_id: "\<forall>c\<in>set s. \<not> is_whitespace c \<Longrightarrow> trim s = s"
  by (simp add: trim_def dropWhile_plain)

lemma trim_newline:
  assumes "\<forall>c\<in>set s. \<not> is_whitespace c"
  shows "trim (s @ [char_of (10 :: nat)]) = s"
proof (cases s)
  case Nil
  then show ?thesis by (simp add: trim_def is_whitespace_def)
next
  case (Cons c cs)
  have "dropWhile is_whitespace (rev s) = rev s" using assms by (simp add: dropWhile_plain)
  moreover have "dropWhile is_whitespace (s @ [char_of (10 :: nat)]) = s @ [char_of (10 :: nat)]"
    using assms Cons by simp
  moreover have "is_whitespace (char_of (10 :: nat))" by (simp add: is_whitespace_def)
  ultimately show ?thesis by (simp add: trim_def)
qed

lemma hex_digit_plain: "n < 16 \<Longrightarrow> \<not> is_whitespace (hex_digit n)"
  by (simp add: is_whitespace_def hex_digit_def)

lemma length_hex_identity: "length (hex_identity identity) = 32"
proof -
  have "length (concat (map (\<lambda>b. [f b, g b]) bs)) = 2 * length bs" for f g :: "byte \<Rightarrow> char" and bs
    by (induction bs) simp_all
  then show ?thesis by (simp add: hex_identity_def)
qed

lemma read_identity_written [simp]: "read_identity_text (hex_identity identity) = Inr identity"
proof -
  have "\<forall>c\<in>set (hex_identity identity). \<not> is_whitespace c"
  proof
    fix c
    assume "c \<in> set (hex_identity identity)"
    then obtain b :: byte where "c = hex_digit (unat b div 16) \<or> c = hex_digit (unat b mod 16)"
      by (auto simp: hex_identity_def)
    moreover have "unat b div 16 < 16" using unsigned_less [of b, where 'a = nat] by simp
    ultimately show "\<not> is_whitespace c"
      using hex_digit_plain [of "unat b div 16"] hex_digit_plain [of "unat b mod 16"] by auto
  qed
  then have "trim (hex_identity identity) = hex_identity identity" by (rule trim_id)
  moreover have "read_hex_pairs (hex_identity identity) = Inr (to_be identity)"
    by (simp add: hex_identity_def read_hex_pairs_concat)
  ultimately show ?thesis
    using from_be_to_be [of 16 identity] by (simp add: read_identity_text_def length_hex_identity)
qed

lemma parse_digits_append:
  "parse_digits acc (s @ t) = Option.bind (parse_digits acc s) (\<lambda>a. parse_digits a t)"
  by (induction acc s rule: parse_digits.induct) (auto simp: Let_def)

lemma parse_show_decimal: "n < 2 ^ 64 \<Longrightarrow> parse_digits 0 (show_decimal n) = Some n"
proof (induction n rule: show_decimal.induct)
  case (1 n)
  show ?case
  proof (cases "n < 10")
    case True
    then show ?thesis by (simp add: show_decimal.simps [of n])
  next
    case False
    then have "parse_digits 0 (show_decimal (n div 10)) = Some (n div 10)" using "1.IH" "1.prems" by simp
    then show ?thesis
      using False "1.prems" by (simp add: show_decimal.simps [of n] parse_digits_append)
  qed
qed

lemma show_decimal_digits: "c \<in> set (show_decimal n) \<Longrightarrow> 48 \<le> code c \<and> code c \<le> 57"
proof (induction n rule: show_decimal.induct)
  case (1 n)
  have "n mod 10 < 10" by simp
  with 1 show ?case
    by (cases "n < 10") (auto simp: show_decimal.simps [of n])
qed

lemma show_decimal_ne: "show_decimal n \<noteq> []"
  by (simp add: show_decimal.simps [of n])

lemma parse_u64_show: "parse_u64 (show_decimal (unat g)) = Some g"
proof -
  obtain c cs where s: "show_decimal (unat g) = c # cs"
    using show_decimal_ne by (metis neq_Nil_conv)
  have "code c \<noteq> 43" using show_decimal_digits [of c "unat g"] s by simp
  moreover have "parse_digits 0 (c # cs) = Some (unat g)"
    using parse_show_decimal [of "unat g"] unsigned_less [of g, where 'a = nat] s
    by (simp del: parse_digits.simps)
  ultimately show ?thesis unfolding s parse_u64_def by (simp del: parse_digits.simps)
qed

lemma read_boot_generation_written [simp]:
  "g \<noteq> 0 \<Longrightarrow> read_boot_generation_text (boot_generation_text g) = Inr g"
proof -
  assume "g \<noteq> 0"
  have "\<forall>c\<in>set (show_decimal (unat g)). \<not> is_whitespace c"
    using show_decimal_digits by (fastforce simp: is_whitespace_def)
  then have "trim (boot_generation_text g) = show_decimal (unat g)"
    unfolding boot_generation_text_def by (rule trim_newline)
  with \<open>g \<noteq> 0\<close> show ?thesis by (simp add: read_boot_generation_text_def parse_u64_show)
qed

end
