(* ===== verification/CellFencing.thy ===== *)
theory CellFencing
  imports Cell
begin

text \<open>
  The fences of a cell over its whole life. A \<open>CellWorld\<close> is the data directory, the running process with
  its claim slot and authority, and the fences issued so far, oldest first; processes start, claim, advance
  the epoch and end, one at a time, and any file operation of a claim may fail.
\<close>

record CellWorld =
  cw_dir :: DataDir
  cw_slot :: process_claim
  cw_authority :: "CellAuthority option"
  cw_issued :: "CellFence list"

definition cell_init :: "CellWorld \<Rightarrow> bool" where
  "cell_init w = (w = \<lparr>cw_dir = \<lparr>dd_identity_file = None, dd_boot_file = None\<rparr>, cw_slot = Slot None,
     cw_authority = None, cw_issued = []\<rparr>)"

inductive cell_step :: "CellWorld \<Rightarrow> CellWorld \<Rightarrow> bool" where
  claimed: "claim_with_data_dir io (cw_slot w) (cw_dir w) identity = (slot, dir, Inr a) \<Longrightarrow>
    cell_step w (w\<lparr>cw_dir := dir, cw_slot := slot, cw_authority := Some a,
      cw_issued := cw_issued w @ [fence a]\<rparr>)"
| refused: "claim_with_data_dir io (cw_slot w) (cw_dir w) identity = (slot, dir, Inl e) \<Longrightarrow>
    cell_step w (w\<lparr>cw_dir := dir, cw_slot := slot\<rparr>)"
| advanced: "cw_authority w = Some a \<Longrightarrow> advance_epoch a = (a1, Inr f) \<Longrightarrow>
    cell_step w (w\<lparr>cw_authority := Some a1, cw_issued := cw_issued w @ [f]\<rparr>)"
| exhausted: "cw_authority w = Some a \<Longrightarrow> advance_epoch a = (a1, Inl e) \<Longrightarrow>
    cell_step w (w\<lparr>cw_authority := Some a1\<rparr>)"
| ended: "cell_step w (w\<lparr>cw_slot := Slot None, cw_authority := None\<rparr>)"

section \<open>The invariant\<close>

definition precedes :: "CellFence \<Rightarrow> CellFence \<Rightarrow> bool" where
  "precedes f g = (cf_identity f = cf_identity g \<and>
     (cf_node_boot_generation f < cf_node_boot_generation g \<or>
      cf_node_boot_generation f = cf_node_boot_generation g \<and> cf_epoch f < cf_epoch g))"

lemma precedes_trans: "precedes f g \<Longrightarrow> precedes g h \<Longrightarrow> precedes f h"
  by (auto simp: precedes_def)

definition boots :: "DataDir \<Rightarrow> CellIdentity \<Rightarrow> Generation \<Rightarrow> bool" where
  "boots dir identity g = (g \<noteq> 0 \<and>
     dir = \<lparr>dd_identity_file = Some (hex_identity identity), dd_boot_file = Some (boot_generation_text g)\<rparr>)"

definition issued_upto :: "CellIdentity \<Rightarrow> Generation \<Rightarrow> CellWorld \<Rightarrow> bool" where
  "issued_upto identity g w = (\<forall>f\<in>set (cw_issued w). cf_identity f = identity \<and> cf_node_boot_generation f \<le> g)"

definition current_fence :: "CellIdentity \<Rightarrow> Generation \<Rightarrow> CellWorld \<Rightarrow> bool" where
  "current_fence identity g w = (\<forall>a. cw_authority w = Some a \<longrightarrow> ca_identity a = identity \<and>
     ca_node_boot_generation a = g \<and> (\<exists>fs. cw_issued w = fs @ [fence a]) \<and> (\<exists>i. cw_slot w = Slot (Some i)))"

definition cell_inv :: "CellWorld \<Rightarrow> bool" where
  "cell_inv w = (sorted_wrt precedes (cw_issued w) \<and>
     (dd_boot_file (cw_dir w) = None \<and> cw_issued w = [] \<and> cw_authority w = None \<or>
      (\<exists>identity g. boots (cw_dir w) identity g \<and> issued_upto identity g w \<and> current_fence identity g w)))"

lemma checked_next_Some:
  assumes "checked_next x = Some y"
  shows "x < y" "y \<noteq> 0"
  using assms by (auto simp: checked_next_def checked_add_eq_Some word_less_nat_alt)

lemma boot_again:
  assumes "boots dir identity g" "advance_persisted_boot_generation io dir presented = (dir1, r)"
  shows "r = Inr h \<Longrightarrow> presented = identity \<and> g < h \<and> boots dir1 identity h"
    and "r = Inl e \<Longrightarrow> dir1 = dir"
  using assms
  by (auto simp: boots_def advance_persisted_boot_generation_def Let_def dest: checked_next_Some
      split: if_splits option.splits sum.splits)

lemma first_boot:
  assumes "dd_boot_file dir = None" "advance_persisted_boot_generation io dir presented = (dir1, r)"
  shows "r = Inr h \<Longrightarrow> boots dir1 presented h" and "r = Inl e \<Longrightarrow> dd_boot_file dir1 = None"
  using assms
  by (auto simp: boots_def advance_persisted_boot_generation_def Let_def
      split: if_splits option.splits sum.splits)

lemma claim_slot:
  assumes "claim_with_data_dir io slot dir presented = (slot1, dir1, r)"
  shows "r = Inr a \<Longrightarrow> slot1 = Slot (Some presented) \<and> (\<exists>h. a = new_authority presented h \<and>
       advance_persisted_boot_generation io dir presented = (dir1, Inr h))"
    and "r = Inl e \<Longrightarrow> slot1 = slot \<and> (dir1 = dir \<or>
       slot = Slot None \<and> (\<exists>e. advance_persisted_boot_generation io dir presented = (dir1, Inl e)))"
  using assms
  by (auto simp: claim_with_data_dir_def split: process_claim.splits option.splits prod.splits sum.splits)

lemma cell_inv_claimed:
  assumes "cell_inv w" "claim_with_data_dir io (cw_slot w) (cw_dir w) identity = (slot, dir, Inr a)"
  shows "cell_inv (w\<lparr>cw_dir := dir, cw_slot := slot, cw_authority := Some a,
    cw_issued := cw_issued w @ [fence a]\<rparr>)"
proof -
  from claim_slot(1) [OF assms(2) refl] obtain h where slot: "slot = Slot (Some identity)"
    and a: "a = new_authority identity h"
    and adv: "advance_persisted_boot_generation io (cw_dir w) identity = (dir, Inr h)" by blast
  have sorted: "sorted_wrt precedes (cw_issued w)" using assms(1) by (simp add: cell_inv_def)
  have fence_a: "fence a = \<lparr>cf_identity = identity, cf_node_boot_generation = h, cf_epoch = 1, cf_fencing_token = 1\<rparr>"
    by (simp add: a fence_def new_authority_def)
  have "boots dir identity h \<and> (\<forall>f\<in>set (cw_issued w). cf_identity f = identity \<and> cf_node_boot_generation f < h)"
  proof (cases "dd_boot_file (cw_dir w) = None")
    case True
    then have "cw_issued w = []" using assms(1) by (auto simp: cell_inv_def boots_def)
    then show ?thesis using first_boot(1) [OF True adv refl] by simp
  next
    case False
    then obtain i g where old: "boots (cw_dir w) i g" "issued_upto i g w"
      using assms(1) by (auto simp: cell_inv_def)
    from boot_again(1) [OF old(1) adv refl] old(2) show ?thesis by (force simp: issued_upto_def)
  qed
  then show ?thesis
    using sorted
    by (auto simp: cell_inv_def sorted_wrt_append precedes_def issued_upto_def current_fence_def slot fence_a
        intro!: exI [of _ identity] exI [of _ h]) (auto simp: a new_authority_def)
qed

lemma cell_inv_refused:
  assumes "cell_inv w" "claim_with_data_dir io (cw_slot w) (cw_dir w) identity = (slot, dir, Inl e)"
  shows "cell_inv (w\<lparr>cw_dir := dir, cw_slot := slot\<rparr>)"
proof -
  from claim_slot(2) [OF assms(2) refl] have slot: "slot = cw_slot w" and
    dir: "dir = cw_dir w \<or> (\<exists>e. advance_persisted_boot_generation io (cw_dir w) identity = (dir, Inl e))" by blast+
  show ?thesis
  proof (cases "dd_boot_file (cw_dir w) = None")
    case True
    then have "cw_issued w = []" "cw_authority w = None" using assms(1) by (auto simp: cell_inv_def boots_def)
    moreover have "dd_boot_file dir = None" using dir True first_boot(2) by blast
    ultimately show ?thesis by (simp add: cell_inv_def)
  next
    case False
    then obtain i g where old: "boots (cw_dir w) i g" using assms(1) by (auto simp: cell_inv_def)
    have "dir = cw_dir w" using dir boot_again(2) [OF old] by blast
    then show ?thesis using assms(1) slot by simp
  qed
qed

lemma cell_inv_advanced:
  assumes "cell_inv w" "cw_authority w = Some a" "advance_epoch a = (a1, Inr f)"
  shows "cell_inv (w\<lparr>cw_authority := Some a1, cw_issued := cw_issued w @ [f]\<rparr>)"
proof -
  from assms(1,2) obtain identity g fs i where old: "boots (cw_dir w) identity g" "issued_upto identity g w"
    and a: "ca_identity a = identity" "ca_node_boot_generation a = g" "cw_issued w = fs @ [fence a]"
      "cw_slot w = Slot (Some i)" by (auto simp: cell_inv_def current_fence_def)
  from assms(3) have f: "f = fence a1" "ca_identity a1 = identity" "ca_node_boot_generation a1 = g"
    "ca_epoch a < ca_epoch a1"
    using a by (auto simp: advance_epoch_def Let_def dest: checked_next_Some split: option.splits)
  have "precedes (fence a) f" using a f by (simp add: precedes_def fence_def)
  moreover have "sorted_wrt precedes (fs @ [fence a])" using assms(1) a(3) by (simp add: cell_inv_def)
  ultimately have "sorted_wrt precedes (cw_issued w @ [f])"
    using a(3) by (auto simp: sorted_wrt_append intro: precedes_trans)
  moreover have "cf_identity f = identity" "cf_node_boot_generation f = g" using f by (simp_all add: fence_def)
  ultimately show ?thesis
    using old a f
    by (auto simp: cell_inv_def issued_upto_def current_fence_def intro!: exI [of _ identity] exI [of _ g])
qed

lemma cell_inv_step:
  assumes "cell_step w w1" "cell_inv w"
  shows "cell_inv w1"
  using assms
proof (induction rule: cell_step.induct)
  case (exhausted w a a1 e)
  from exhausted(2) have "a1 = a" by (auto simp: advance_epoch_def Let_def split: option.splits)
  then have "w\<lparr>cw_authority := Some a1\<rparr> = w" using exhausted(1) by (cases w) simp
  then show ?case using exhausted(3) by simp
next
  case (ended w)
  then show ?case by (auto simp: cell_inv_def issued_upto_def current_fence_def)
qed (simp_all add: cell_inv_claimed cell_inv_refused cell_inv_advanced)

lemma cell_inv_init: "cell_init w \<Longrightarrow> cell_inv w"
  by (simp add: cell_init_def cell_inv_def)

interpretation cw: invariant_system cell_init cell_step cell_inv
  by unfold_locales (rule cell_inv_init, assumption, rule cell_inv_step)

section \<open>Old fences are refused\<close>

text \<open>C37: Over the whole life of a data directory, through restarts, failing file operations and epoch
  advances of one process at a time, the current authority admits the last fence issued and refuses every
  earlier one: with a boot generation mismatch when it comes from an earlier boot, as a stale epoch
  otherwise.\<close>

theorem stale_fences_refused:
  assumes "reach cell_init cell_step w" "cw_authority w = Some a"
  shows "\<exists>old. cw_issued w = old @ [fence a] \<and> admit a (fence a) = Inr () \<and>
    (\<forall>f\<in>set old. admit a f =
       Inl (if cf_node_boot_generation f \<noteq> ca_node_boot_generation a
            then BootGenerationMismatch (cf_node_boot_generation f) (ca_node_boot_generation a)
            else StaleEpoch (cf_epoch f) (ca_epoch a)))"
proof -
  from cw.inv_reach [OF assms(1)] assms(2) obtain old where issued: "cw_issued w = old @ [fence a]"
    and "sorted_wrt precedes (old @ [fence a])"
    by (auto simp: cell_inv_def current_fence_def)
  then have "\<forall>f\<in>set old. precedes f (fence a)" by (simp add: sorted_wrt_append)
  then show ?thesis
    unfolding issued by (intro exI [of _ old]) (auto simp: precedes_def fence_def admit_def)
qed

text \<open>Two boots of cell 7, with an epoch advance in the first.\<close>

definition boot_one :: CellAuthority where
  "boot_one = new_authority 7 1"

definition boot_one_advanced :: CellAuthority where
  "boot_one_advanced = boot_one\<lparr>ca_epoch := 2, ca_fencing_token := 2\<rparr>"

definition boot_two :: CellAuthority where
  "boot_two = new_authority 7 2"

lemma two_boots:
  "\<exists>w. reach cell_init cell_step w \<and> cw_authority w = Some boot_two \<and>
     cw_issued w = [fence boot_one, fence boot_one_advanced, fence boot_two]"
proof -
  let ?io = "\<lambda>_ :: io_op. True"
  define d0 where "d0 = \<lparr>dd_identity_file = None, dd_boot_file = None\<rparr>"
  define d1 where "d1 = \<lparr>dd_identity_file = Some (hex_identity 7), dd_boot_file = Some (boot_generation_text 1)\<rparr>"
  define d2 where "d2 = \<lparr>dd_identity_file = Some (hex_identity 7), dd_boot_file = Some (boot_generation_text 2)\<rparr>"
  define w0 where "w0 = \<lparr>cw_dir = d0, cw_slot = Slot None, cw_authority = None, cw_issued = []\<rparr>"
  have next_one: "checked_next 1 = Some 2" by (simp add: checked_next_def checked_add_def)
  have "reach cell_init cell_step w0"
    by (rule reach_init) (simp add: cell_init_def w0_def d0_def)
  moreover have "cell_step w0 (w0\<lparr>cw_dir := d1, cw_slot := Slot (Some 7), cw_authority := Some boot_one,
      cw_issued := [fence boot_one]\<rparr>)"
    using claimed [of ?io w0 7 "Slot (Some 7)" d1 boot_one]
    by (simp add: claim_with_data_dir_def advance_persisted_boot_generation_def w0_def d0_def d1_def boot_one_def)
  ultimately have "reach cell_init cell_step (w0\<lparr>cw_dir := d1, cw_slot := Slot (Some 7),
      cw_authority := Some boot_one, cw_issued := [fence boot_one]\<rparr>)" by (rule reach_step)
  moreover have "cell_step (w0\<lparr>cw_dir := d1, cw_slot := Slot (Some 7), cw_authority := Some boot_one,
      cw_issued := [fence boot_one]\<rparr>) (w0\<lparr>cw_dir := d1, cw_slot := Slot (Some 7), cw_authority := Some boot_one_advanced,
      cw_issued := [fence boot_one, fence boot_one_advanced]\<rparr>)"
    using advanced [of "w0\<lparr>cw_dir := d1, cw_slot := Slot (Some 7), cw_authority := Some boot_one,
      cw_issued := [fence boot_one]\<rparr>" boot_one boot_one_advanced "fence boot_one_advanced"]
    by (simp add: advance_epoch_def boot_one_advanced_def boot_one_def new_authority_def next_one Let_def)
  ultimately have "reach cell_init cell_step (w0\<lparr>cw_dir := d1, cw_slot := Slot (Some 7),
      cw_authority := Some boot_one_advanced, cw_issued := [fence boot_one, fence boot_one_advanced]\<rparr>)" by (rule reach_step)
  from reach_step [of cell_init cell_step, OF this ended]
  have "reach cell_init cell_step (w0\<lparr>cw_dir := d1, cw_issued := [fence boot_one, fence boot_one_advanced]\<rparr>)"
    by (simp add: w0_def)
  moreover have "cell_step (w0\<lparr>cw_dir := d1, cw_issued := [fence boot_one, fence boot_one_advanced]\<rparr>)
     (w0\<lparr>cw_dir := d2, cw_slot := Slot (Some 7), cw_authority := Some boot_two, cw_issued := [fence boot_one, fence boot_one_advanced, fence boot_two]\<rparr>)"
    using claimed [of ?io "w0\<lparr>cw_dir := d1, cw_issued := [fence boot_one, fence boot_one_advanced]\<rparr>" 7 "Slot (Some 7)" d2 boot_two]
    by (simp add: claim_with_data_dir_def advance_persisted_boot_generation_def w0_def d1_def d2_def boot_two_def next_one)
  ultimately have run: "reach cell_init cell_step (w0\<lparr>cw_dir := d2, cw_slot := Slot (Some 7),
      cw_authority := Some boot_two, cw_issued := [fence boot_one, fence boot_one_advanced, fence boot_two]\<rparr>)" by (rule reach_step)
  then show ?thesis by (intro exI conjI) (assumption, simp_all)
qed

theorem stale_fences_refused_witness:
  "\<exists>w a old. reach cell_init cell_step w \<and> cw_authority w = Some a \<and> cw_issued w = old @ [fence a] \<and>
     map (admit a) old = [Inl (BootGenerationMismatch 1 2), Inl (BootGenerationMismatch 1 2)]"
proof -
  obtain w where w: "reach cell_init cell_step w" "cw_authority w = Some boot_two"
    "cw_issued w = [fence boot_one, fence boot_one_advanced, fence boot_two]" using two_boots by blast
  from stale_fences_refused [OF w(1,2)] obtain old where old: "cw_issued w = old @ [fence boot_two]"
    and refused: "\<forall>f\<in>set old. admit boot_two f =
       Inl (if cf_node_boot_generation f \<noteq> ca_node_boot_generation boot_two
            then BootGenerationMismatch (cf_node_boot_generation f) (ca_node_boot_generation boot_two)
            else StaleEpoch (cf_epoch f) (ca_epoch boot_two))" by blast
  have "old = [fence boot_one, fence boot_one_advanced]" using old w(3) by (cases old rule: rev_cases) auto
  with refused have "map (admit boot_two) old =
      [Inl (BootGenerationMismatch 1 2), Inl (BootGenerationMismatch 1 2)]"
    by (simp add: boot_one_def boot_one_advanced_def boot_two_def new_authority_def fence_def)
  with w(1,2) old show ?thesis
    by (intro exI [of _ w] exI [of _ boot_two] exI [of _ old] conjI)
qed

end
