(* ===== verification/FailureDetector.thy ===== *)
theory FailureDetector
  imports Cell BTree
begin

text \<open>
  The failure detector of \<open>nlos-cell/src/failure_detector.rs\<close>. Ticks and incarnations are machine words. The
  iteration order of a \<open>HashMap\<close> is not specified, and every list built from one is sorted by subject before
  it is returned, so the map is kept, and traversed, in the order of the subjects. An operation returns the
  new detector also when it fails: a refused heartbeat has already moved the clock.

  \<open>detection_window\<close> gives the verdict on a subject in closed form from the sweeps since its last heartbeat;
  \<open>judgment_ledger\<close> relates the judgments to epochs and incarnations.
\<close>

section \<open>Data\<close>

datatype MonitoredSubject = Fiber bytes16 | Process bytes16

fun subject_key :: "MonitoredSubject \<Rightarrow> nat \<times> bytes16" where
  "subject_key (Fiber i) = (0, i)"
| "subject_key (Process i) = (1, i)"

lemma subject_key_inject [simp]: "subject_key s = subject_key t \<longleftrightarrow> s = t"
  by (cases s; cases t) simp_all

text \<open>The derived order: fibers before processes, then the identifiers.\<close>

instantiation MonitoredSubject :: linorder
begin

definition less_eq_MonitoredSubject :: "MonitoredSubject \<Rightarrow> MonitoredSubject \<Rightarrow> bool" where
  "less_eq_MonitoredSubject s t = (subject_key s \<le> subject_key t)"

definition less_MonitoredSubject :: "MonitoredSubject \<Rightarrow> MonitoredSubject \<Rightarrow> bool" where
  "less_MonitoredSubject s t = (subject_key s < subject_key t)"

instance
  by standard (auto simp: less_eq_MonitoredSubject_def less_MonitoredSubject_def simp flip: subject_key_inject)

end

datatype Liveness = Alive | Suspect | Dead

datatype FailureDetectorError = ClockRegression u64 u64 | SubjectAlreadyDead MonitoredSubject CellEpoch u64
  | EpochNotAdvanced CellEpoch CellEpoch | IdentityMismatch CellIdentity CellIdentity
  | DeadThresholdBeforeSuspect u64 u64

record FailureDetectorConfig =
  suspect_after :: u64
  dead_after :: u64

definition detector_config_new :: "u64 \<Rightarrow> u64 \<Rightarrow> (FailureDetectorError, FailureDetectorConfig) result" where
  "detector_config_new suspect dead =
     (if dead < suspect then Inl (DeadThresholdBeforeSuspect suspect dead)
      else Inr \<lparr>suspect_after = suspect, dead_after = dead\<rparr>)"

record DeadJudgment =
  dj_subject :: MonitoredSubject
  dj_epoch :: CellEpoch
  dj_dead_at :: u64
  dj_incarnation :: u64

record LivenessView =
  lv_subject :: MonitoredSubject
  lv_liveness :: Liveness
  lv_epoch :: CellEpoch
  lv_incarnation :: u64
  lv_last_heartbeat :: "u64 option"
  lv_suspected_at :: "u64 option"
  lv_dead_at :: "u64 option"

record SweepReport =
  sw_epoch :: CellEpoch
  newly_suspected :: "(MonitoredSubject \<times> u64) list"
  newly_dead :: "DeadJudgment list"

record EpochAdvanceReport =
  previous_epoch :: CellEpoch
  new_epoch :: CellEpoch
  suspicions_voided :: "(MonitoredSubject \<times> u64) list"
  re_tracked_after_death :: "MonitoredSubject list"

record SubjectRecord =
  sr_epoch :: CellEpoch
  sr_incarnation :: u64
  sr_baseline_tick :: u64
  sr_last_heartbeat :: "u64 option"
  sr_suspected_at :: "u64 option"
  sr_dead_at :: "u64 option"

record FailureDetector =
  fd_identity :: CellIdentity
  fd_epoch :: CellEpoch
  fd_config :: FailureDetectorConfig
  fd_last_tick :: u64
  fd_subjects :: "(MonitoredSubject, SubjectRecord) btree"
  fd_dead_judgments :: "DeadJudgment list"

section \<open>Operations\<close>

definition record_liveness :: "SubjectRecord \<Rightarrow> Liveness" where
  "record_liveness r = (if sr_dead_at r \<noteq> None then Dead else if sr_suspected_at r \<noteq> None then Suspect else Alive)"

definition silence_since :: "SubjectRecord \<Rightarrow> u64" where
  "silence_since r = (case sr_last_heartbeat r of Some t \<Rightarrow> t | None \<Rightarrow> sr_baseline_tick r)"

definition detector_new :: "CellFence \<Rightarrow> FailureDetectorConfig \<Rightarrow> FailureDetector" where
  "detector_new f config = \<lparr>fd_identity = cf_identity f, fd_epoch = cf_epoch f, fd_config = config,
     fd_last_tick = 0, fd_subjects = [], fd_dead_judgments = []\<rparr>"

definition detector_liveness :: "FailureDetector \<Rightarrow> MonitoredSubject \<Rightarrow> LivenessView option" where
  "detector_liveness d subject = map_option (\<lambda>r. \<lparr>lv_subject = subject, lv_liveness = record_liveness r,
     lv_epoch = sr_epoch r, lv_incarnation = sr_incarnation r, lv_last_heartbeat = sr_last_heartbeat r,
     lv_suspected_at = sr_suspected_at r, lv_dead_at = sr_dead_at r\<rparr>) (bt_get (fd_subjects d) subject)"

definition observe_tick :: "FailureDetector \<Rightarrow> u64 \<Rightarrow> (FailureDetectorError, FailureDetector) result" where
  "observe_tick d now = (if now < fd_last_tick d then Inl (ClockRegression now (fd_last_tick d))
     else Inr (d\<lparr>fd_last_tick := now\<rparr>))"

text \<open>The result of an accepted heartbeat is whether it cleared a suspicion.\<close>

definition record_heartbeat ::
  "FailureDetector \<Rightarrow> MonitoredSubject \<Rightarrow> u64 \<Rightarrow> FailureDetector \<times> (FailureDetectorError, bool) result" where
  "record_heartbeat d0 subject now =
     (case observe_tick d0 now of Inl e \<Rightarrow> (d0, Inl e)
      | Inr d \<Rightarrow>
          (case bt_get (fd_subjects d) subject of
             Some r \<Rightarrow>
               if sr_dead_at r \<noteq> None then (d, Inl (SubjectAlreadyDead subject (sr_epoch r) (sr_incarnation r)))
               else (d\<lparr>fd_subjects := bt_insert subject (r\<lparr>sr_epoch := fd_epoch d, sr_baseline_tick := now,
                       sr_last_heartbeat := Some now, sr_suspected_at := None\<rparr>) (fd_subjects d)\<rparr>,
                     Inr (sr_suspected_at r \<noteq> None))
           | None \<Rightarrow>
               (d\<lparr>fd_subjects := bt_insert subject \<lparr>sr_epoch = fd_epoch d, sr_incarnation = 1,
                    sr_baseline_tick = now, sr_last_heartbeat = Some now, sr_suspected_at = None,
                    sr_dead_at = None\<rparr> (fd_subjects d)\<rparr>, Inr False)))"

definition sweep_record :: "FailureDetectorConfig \<Rightarrow> u64 \<Rightarrow> SubjectRecord \<Rightarrow> SubjectRecord" where
  "sweep_record config now r =
     (if sr_dead_at r \<noteq> None then r
      else let elapsed = saturating_sub now (silence_since r)
           in if elapsed \<ge> dead_after config then r\<lparr>sr_dead_at := Some now\<rparr>
              else if elapsed \<ge> suspect_after config \<and> sr_suspected_at r = None
              then r\<lparr>sr_suspected_at := Some now\<rparr>
              else r)"

definition sweep ::
  "FailureDetector \<Rightarrow> u64 \<Rightarrow> FailureDetector \<times> (FailureDetectorError, SweepReport) result" where
  "sweep d0 now =
     (case observe_tick d0 now of Inl e \<Rightarrow> (d0, Inl e)
      | Inr d \<Rightarrow>
          let config = fd_config d;
              dies = (\<lambda>r. sr_dead_at r = None \<and> sr_dead_at (sweep_record config now r) \<noteq> None);
              suspected = (\<lambda>r. sr_suspected_at r = None \<and> sr_suspected_at (sweep_record config now r) \<noteq> None);
              dead = map (\<lambda>(subject, r). \<lparr>dj_subject = subject, dj_epoch = sr_epoch r, dj_dead_at = now,
                dj_incarnation = sr_incarnation r\<rparr>) (filter (\<lambda>(_, r). dies r) (fd_subjects d))
          in (d\<lparr>fd_subjects := map (\<lambda>(subject, r). (subject, sweep_record config now r)) (fd_subjects d),
                fd_dead_judgments := fd_dead_judgments d @ dead\<rparr>,
              Inr \<lparr>sw_epoch = fd_epoch d,
                newly_suspected = map (\<lambda>(subject, _). (subject, now)) (filter (\<lambda>(_, r). suspected r) (fd_subjects d)),
                newly_dead = dead\<rparr>))"

definition advance_record :: "CellEpoch \<Rightarrow> u64 \<Rightarrow> SubjectRecord \<Rightarrow> SubjectRecord" where
  "advance_record epoch boundary_tick r =
     r\<lparr>sr_suspected_at := None, sr_dead_at := None,
       sr_incarnation := (if sr_dead_at r \<noteq> None then saturating_add (sr_incarnation r) 1 else sr_incarnation r),
       sr_epoch := epoch, sr_baseline_tick := boundary_tick, sr_last_heartbeat := None\<rparr>"

definition detector_on_epoch_advanced ::
  "FailureDetector \<Rightarrow> CellFence \<Rightarrow> FailureDetector \<times> (FailureDetectorError, EpochAdvanceReport) result" where
  "detector_on_epoch_advanced d f =
     (if cf_identity f \<noteq> fd_identity d then (d, Inl (IdentityMismatch (cf_identity f) (fd_identity d)))
      else if cf_epoch f \<le> fd_epoch d then (d, Inl (EpochNotAdvanced (cf_epoch f) (fd_epoch d)))
      else (d\<lparr>fd_subjects := map (\<lambda>(subject, r). (subject, advance_record (cf_epoch f) (fd_last_tick d) r))
                (fd_subjects d), fd_epoch := cf_epoch f\<rparr>,
            Inr \<lparr>previous_epoch = fd_epoch d, new_epoch = cf_epoch f,
              suspicions_voided = concat (map (\<lambda>(subject, r).
                case sr_suspected_at r of Some t \<Rightarrow> [(subject, t)] | None \<Rightarrow> []) (fd_subjects d)),
              re_tracked_after_death = map fst (filter (\<lambda>(_, r). sr_dead_at r \<noteq> None) (fd_subjects d))\<rparr>))"

section \<open>Histories\<close>

datatype detector_op = Heartbeat MonitoredSubject u64 | Sweep u64 | AdvanceEpoch CellFence

fun detector_apply :: "FailureDetector \<Rightarrow> detector_op \<Rightarrow> FailureDetector" where
  "detector_apply d (Heartbeat subject now) = fst (record_heartbeat d subject now)"
| "detector_apply d (Sweep now) = fst (sweep d now)"
| "detector_apply d (AdvanceEpoch f) = fst (detector_on_epoch_advanced d f)"

definition detector_run :: "FailureDetector \<Rightarrow> detector_op list \<Rightarrow> FailureDetector" where
  "detector_run d ops = foldl detector_apply d ops"

end
