(* ===== verification/FailureDetectorProps.thy ===== *)
theory FailureDetectorProps
  imports FailureDetector
begin

text \<open>
  Properties of the failure detector over every history: the verdict on a subject in closed form from the
  sweeps since its last heartbeat, and the ledger of closed judgments.
\<close>

section \<open>One subject under sweeps\<close>

lemma bt_get_map: "bt_get (map (\<lambda>(k, v). (k, g v)) m) k = map_option g (bt_get m k)"
  by (induction m) (auto simp: bt_get_def)

text \<open>The ticks of the sweeps that the detector accepts.\<close>

fun sweeps :: "FailureDetector \<Rightarrow> detector_op list \<Rightarrow> u64 list" where
  "sweeps d [] = []"
| "sweeps d (op # ops) = (case op of Sweep now \<Rightarrow> if now < fd_last_tick d then [] else [now] | _ \<Rightarrow> []) @
     sweeps (detector_apply d op) ops"

text \<open>Operations that bring no evidence about a subject.\<close>

fun silent :: "MonitoredSubject \<Rightarrow> detector_op \<Rightarrow> bool" where
  "silent subject (Heartbeat other _) = (other \<noteq> subject)"
| "silent subject (Sweep _) = True"
| "silent subject (AdvanceEpoch _) = False"

lemma detector_apply_config [simp]: "fd_config (detector_apply d op) = fd_config d"
  by (cases op) (auto simp: record_heartbeat_def sweep_def detector_on_epoch_advanced_def observe_tick_def
      Let_def split: option.split)

lemmas sweep_config [simp] = detector_apply_config [of _ "Sweep _", unfolded detector_apply.simps]

lemma sweep_subjects:
  "fd_last_tick d \<le> now \<Longrightarrow>
   bt_get (fd_subjects (fst (sweep d now))) s = map_option (sweep_record (fd_config d) now) (bt_get (fd_subjects d) s)"
  "now < fd_last_tick d \<Longrightarrow> fst (sweep d now) = d"
  by (auto simp: sweep_def observe_tick_def Let_def bt_get_map dest: leD)

lemma detector_run_simps [simp]:
  "detector_run d [] = d" "detector_run d (op # ops) = detector_run (detector_apply d op) ops"
  by (simp_all add: detector_run_def)

lemma silent_subject:
  assumes "list_all (silent s) ops" "bt_get (fd_subjects d) s = Some r"
  shows "bt_get (fd_subjects (detector_run d ops)) s =
    Some (foldl (\<lambda>r now. sweep_record (fd_config d) now r) r (sweeps d ops))"
  using assms
proof (induction ops arbitrary: d r)
  case (Cons op ops)
  show ?case
  proof (cases op)
    case (Heartbeat other now)
    then have "bt_get (fd_subjects (detector_apply d op)) s = Some r"
      using Cons.prems by (auto simp: record_heartbeat_def observe_tick_def split: option.split)
    from Cons.IH [OF _ this] Cons.prems(1) Heartbeat show ?thesis by (simp del: detector_apply.simps)
  next
    case (Sweep now)
    then show ?thesis
      using Cons.IH Cons.prems by (cases "now < fd_last_tick d") (auto simp: sweep_subjects not_less)
  qed (use Cons.prems in simp)
qed simp

lemma sweeps_dead: "sr_dead_at r \<noteq> None \<Longrightarrow> foldl (\<lambda>r now. sweep_record c now r) r ws = r"
  by (induction ws) (simp_all add: sweep_record_def)

text \<open>The first sweep that finds the silence long enough for death decides it; the first one before that
  finds it long enough for suspicion.\<close>

definition death_tick :: "FailureDetectorConfig \<Rightarrow> u64 \<Rightarrow> u64 list \<Rightarrow> u64 option" where
  "death_tick c t ws = find (\<lambda>w. dead_after c \<le> saturating_sub w t) ws"

definition suspicion_tick :: "FailureDetectorConfig \<Rightarrow> u64 \<Rightarrow> u64 list \<Rightarrow> u64 option" where
  "suspicion_tick c t ws = find (\<lambda>w. suspect_after c \<le> saturating_sub w t)
     (takeWhile (\<lambda>w. saturating_sub w t < dead_after c) ws)"

lemma sweeps_closed_form:
  assumes "sr_last_heartbeat r = Some t" "sr_dead_at r = None"
  shows "foldl (\<lambda>r now. sweep_record c now r) r ws =
    r\<lparr>sr_dead_at := death_tick c t ws,
      sr_suspected_at := (case sr_suspected_at r of Some x \<Rightarrow> Some x | None \<Rightarrow> suspicion_tick c t ws)\<rparr>"
  using assms
proof (induction ws arbitrary: r)
  case Nil
  then show ?case by (cases r) (simp add: death_tick_def suspicion_tick_def split: option.split)
next
  case (Cons w ws)
  let ?e = "saturating_sub w t"
  have e: "silence_since r = t" using Cons.prems(1) by (simp add: silence_since_def)
  consider (dead) "dead_after c \<le> ?e" | (suspect) "?e < dead_after c" "suspect_after c \<le> ?e" "sr_suspected_at r = None"
    | (same) "?e < dead_after c" "?e < suspect_after c \<or> sr_suspected_at r \<noteq> None"
    by (cases "dead_after c \<le> ?e"; cases "suspect_after c \<le> ?e"; cases "sr_suspected_at r = None") auto
  then show ?case
  proof cases
    case dead
    then have "sweep_record c w r = r\<lparr>sr_dead_at := Some w\<rparr>"
      using Cons.prems(2) e by (simp add: sweep_record_def)
    moreover have "\<not> ?e < dead_after c" using dead by simp
    ultimately show ?thesis
      using dead by (cases r; cases "sr_suspected_at r") (simp_all add: sweeps_dead death_tick_def suspicion_tick_def)
  next
    case suspect
    then have "sweep_record c w r = r\<lparr>sr_suspected_at := Some w\<rparr>"
      using Cons.prems(2) e by (auto simp: sweep_record_def Let_def)
    then show ?thesis
      using suspect Cons.IH [of "r\<lparr>sr_suspected_at := Some w\<rparr>"] Cons.prems
      by (simp add: death_tick_def suspicion_tick_def)
  next
    case same
    then have "sweep_record c w r = r" using Cons.prems(2) e by (auto simp: sweep_record_def Let_def)
    then show ?thesis
      using same Cons.IH [OF Cons.prems] by (auto simp: death_tick_def suspicion_tick_def split: option.split)
  qed
qed

text \<open>C38: After an accepted heartbeat at tick t, and as long as neither a further heartbeat of the subject nor
  an epoch advance is presented, the verdict depends only on the accepted sweeps since then. The subject is
  dead from the first sweep that is at least the death threshold after t; it carries the suspicion of the
  first earlier sweep that is at least the suspicion threshold after t; it is alive when there is neither.\<close>

theorem detection_window:
  assumes "record_heartbeat d s t = (d1, Inr cleared)" "list_all (silent s) ops"
  shows "\<exists>v. detector_liveness (detector_run d1 ops) s = Some v \<and> lv_epoch v = fd_epoch d \<and>
    lv_last_heartbeat v = Some t \<and>
    lv_dead_at v = death_tick (fd_config d) t (sweeps d1 ops) \<and>
    lv_suspected_at v = suspicion_tick (fd_config d) t (sweeps d1 ops) \<and>
    lv_liveness v = (if death_tick (fd_config d) t (sweeps d1 ops) \<noteq> None then Dead
      else if suspicion_tick (fd_config d) t (sweeps d1 ops) \<noteq> None then Suspect else Alive)"
proof -
  from assms(1) obtain r where r: "bt_get (fd_subjects d1) s = Some r" "sr_last_heartbeat r = Some t"
    "sr_dead_at r = None" "sr_suspected_at r = None" "sr_epoch r = fd_epoch d" "fd_config d1 = fd_config d"
    by (auto simp: record_heartbeat_def observe_tick_def split: if_splits option.splits)
  from silent_subject [OF assms(2) r(1)] sweeps_closed_form [OF r(2,3), of "fd_config d" "sweeps d1 ops"] r
  show ?thesis by (simp add: detector_liveness_def record_liveness_def)
qed

theorem detection_window_witness:
  "\<exists>v. detector_liveness (detector_run (detector_new \<lparr>cf_identity = 1, cf_node_boot_generation = 1, cf_epoch = 1,
      cf_fencing_token = 1\<rparr> \<lparr>suspect_after = 5, dead_after = 10\<rparr>)
      [Heartbeat (Fiber 3) 2, Sweep 8, Sweep 12]) (Fiber 3) = Some v \<and>
    lv_liveness v = Dead \<and> lv_dead_at v = Some 12 \<and> lv_suspected_at v = Some 8"
proof -
  let ?d = "detector_new \<lparr>cf_identity = 1, cf_node_boot_generation = 1, cf_epoch = 1,
      cf_fencing_token = 1\<rparr> \<lparr>suspect_after = 5, dead_after = 10\<rparr>"
  obtain d1 where d1: "record_heartbeat ?d (Fiber 3) 2 = (d1, Inr False)" "fd_last_tick d1 = 2"
    by (simp add: record_heartbeat_def observe_tick_def detector_new_def)
  have run: "detector_run ?d [Heartbeat (Fiber 3) 2, Sweep 8, Sweep 12] = detector_run d1 [Sweep 8, Sweep 12]"
    using d1(1) by (simp add: detector_run_def)
  have "fd_last_tick (fst (sweep d1 8)) = 8" using d1(2) by (simp add: sweep_def observe_tick_def Let_def)
  then have "sweeps d1 [Sweep 8, Sweep 12] = [8, 12]" using d1(2) by simp
  then have "death_tick (fd_config ?d) 2 (sweeps d1 [Sweep 8, Sweep 12]) = Some 12"
    "suspicion_tick (fd_config ?d) 2 (sweeps d1 [Sweep 8, Sweep 12]) = Some 8"
    by (simp_all only:) (simp_all add: detector_new_def death_tick_def suspicion_tick_def saturating_sub_def)
  with detection_window [OF d1(1), of "[Sweep 8, Sweep 12]"] show ?thesis
    unfolding run by (auto simp del: detector_run_simps sweeps.simps)
qed

section \<open>The ledger of judgments\<close>

definition judgments_of :: "FailureDetector \<Rightarrow> MonitoredSubject \<Rightarrow> DeadJudgment list" where
  "judgments_of d s = filter (\<lambda>j. dj_subject j = s) (fd_dead_judgments d)"

text \<open>What a record says about the judgments of its subject, as long as the incarnation counter has room.\<close>

definition in_ledger :: "CellEpoch \<Rightarrow> DeadJudgment list \<Rightarrow> SubjectRecord \<Rightarrow> bool" where
  "in_ledger epoch js r = (sr_epoch r = epoch \<and>
     (case sr_dead_at r of
        Some t \<Rightarrow> js \<noteq> [] \<and> dj_epoch (last js) = epoch \<and> dj_dead_at (last js) = t \<and>
          unat (sr_incarnation r) = length js
      | None \<Rightarrow> (\<forall>j\<in>set js. dj_epoch j < epoch) \<and> unat (sr_incarnation r) = length js + 1))"

definition numbered :: "DeadJudgment list \<Rightarrow> bool" where
  "numbered js = (map (\<lambda>j. unat (dj_incarnation j)) js = [1 ..< length js + 1] \<and>
     sorted_wrt (\<lambda>i j. dj_epoch i < dj_epoch j) js)"

definition ledger_inv :: "FailureDetector \<Rightarrow> MonitoredSubject \<Rightarrow> bool" where
  "ledger_inv d s = (bt_sorted (fd_subjects d) \<and> (length (judgments_of d s) < 2 ^ 64 - 1 \<longrightarrow>
     numbered (judgments_of d s) \<and>
     (case bt_get (fd_subjects d) s of None \<Rightarrow> judgments_of d s = []
      | Some r \<Rightarrow> in_ledger (fd_epoch d) (judgments_of d s) r)))"

lemma bt_sorted_map [simp]: "bt_sorted (map (\<lambda>(k, v). (k, g v)) m) = bt_sorted m"
  by (simp add: bt_sorted_def comp_def case_prod_beta)

text \<open>A sweep adds at most one judgment on a subject.\<close>

lemma filter_subject:
  assumes "distinct (map fst m)" "\<And>s r. dj_subject (mk s r) = s"
  shows "filter (\<lambda>j. dj_subject j = s) (map (\<lambda>(s, r). mk s r) (filter (\<lambda>(_, r). P r) m)) =
    (case bt_get m s of Some r \<Rightarrow> if P r then [mk s r] else [] | None \<Rightarrow> [])"
  using assms(1)
proof (induction m)
  case (Cons x m)
  obtain k r where x: "x = (k, r)" by (cases x)
  have "bt_get m k = None" using Cons.prems x by (simp add: bt_get_def map_of_eq_None_iff)
  then show ?case using Cons x by (auto simp: assms(2) bt_get_def split: option.split)
qed simp

lemma judgments_sweep:
  assumes "bt_sorted (fd_subjects d)" "fd_last_tick d \<le> now"
  shows "judgments_of (fst (sweep d now)) s = judgments_of d s @
    (case bt_get (fd_subjects d) s of Some r \<Rightarrow>
       if sr_dead_at r = None \<and> sr_dead_at (sweep_record (fd_config d) now r) \<noteq> None
       then [\<lparr>dj_subject = s, dj_epoch = sr_epoch r, dj_dead_at = now, dj_incarnation = sr_incarnation r\<rparr>] else []
     | None \<Rightarrow> [])"
  using assms(2) filter_subject [OF bt_sorted_distinct [OF assms(1)],
      of "\<lambda>s r. \<lparr>dj_subject = s, dj_epoch = sr_epoch r, dj_dead_at = now, dj_incarnation = sr_incarnation r\<rparr>" s
        "\<lambda>r. sr_dead_at r = None \<and> sr_dead_at (sweep_record (fd_config d) now r) \<noteq> None"]
  by (auto simp: judgments_of_def sweep_def observe_tick_def Let_def)

lemma sweep_record_sel [simp]:
  "sr_epoch (sweep_record c now r) = sr_epoch r" "sr_incarnation (sweep_record c now r) = sr_incarnation r"
  by (simp_all add: sweep_record_def Let_def)

lemma sweep_record_dead:
  "sr_dead_at r = Some t \<Longrightarrow> sweep_record c now r = r"
  "sr_dead_at r = None \<Longrightarrow> sr_dead_at (sweep_record c now r) = Some t \<Longrightarrow> t = now"
  by (auto simp: sweep_record_def Let_def split: if_splits)

lemma numbered_snoc:
  "numbered (js @ [j]) \<longleftrightarrow> numbered js \<and> unat (dj_incarnation j) = length js + 1 \<and>
     (\<forall>i\<in>set js. dj_epoch i < dj_epoch j)"
  by (auto simp: numbered_def sorted_wrt_append)

lemma judgments_heartbeat [simp]: "judgments_of (fst (record_heartbeat d subject now)) s = judgments_of d s"
  by (simp add: judgments_of_def record_heartbeat_def observe_tick_def split: option.split)

lemma ledger_heartbeat: "ledger_inv d s \<Longrightarrow> ledger_inv (fst (record_heartbeat d subject now)) s"
  unfolding ledger_inv_def judgments_heartbeat
  by (auto simp: record_heartbeat_def observe_tick_def in_ledger_def split: option.splits if_splits)

lemma ledger_sweep:
  assumes "ledger_inv d s"
  shows "ledger_inv (fst (sweep d now)) s"
proof (cases "now < fd_last_tick d")
  case True
  then show ?thesis using assms by (simp add: sweep_subjects(2))
next
  case False
  then have on: "fd_last_tick d \<le> now" by simp
  have sorted: "bt_sorted (fd_subjects d)" using assms by (simp add: ledger_inv_def)
  note js = judgments_sweep [OF sorted on, of s] and get = sweep_subjects(1) [OF on, of s]
  have kept: "bt_sorted (fd_subjects (fst (sweep d now)))" "fd_epoch (fst (sweep d now)) = fd_epoch d"
    using sorted by (simp_all add: sweep_def observe_tick_def Let_def)
  show ?thesis
  proof (cases "bt_get (fd_subjects d) s")
    case None
    then show ?thesis using assms js get kept by (simp add: ledger_inv_def)
  next
    case (Some r)
    let ?r = "sweep_record (fd_config d) now r"
    show ?thesis
    proof (cases "sr_dead_at r = None \<and> sr_dead_at ?r \<noteq> None")
      case True
      then obtain t where t: "sr_dead_at r = None" "sr_dead_at ?r = Some t" by auto
      with sweep_record_dead(2) have "t = now" by blast
      then show ?thesis
        using assms js get kept Some t by (auto simp: ledger_inv_def in_ledger_def numbered_snoc)
    next
      case False
      then have "judgments_of (fst (sweep d now)) s = judgments_of d s" "sr_dead_at ?r = sr_dead_at r"
        using js Some sweep_record_dead(1) [of r] by (cases "sr_dead_at r"; auto)+
      moreover from this(2) have "in_ledger e js ?r = in_ledger e js r" for e js
        by (simp add: in_ledger_def split: option.split)
      ultimately show ?thesis using assms get kept Some by (simp add: ledger_inv_def)
    qed
  qed
qed

lemma ledger_advance:
  assumes "ledger_inv d s"
  shows "ledger_inv (fst (detector_on_epoch_advanced d f)) s"
proof (cases "cf_identity f \<noteq> fd_identity d \<or> cf_epoch f \<le> fd_epoch d")
  case True
  then show ?thesis using assms by (auto simp: detector_on_epoch_advanced_def)
next
  case False
  then have up: "fd_epoch d < cf_epoch f" by auto
  let ?d = "fst (detector_on_epoch_advanced d f)"
  have kept: "bt_get (fd_subjects ?d) s = map_option (advance_record (cf_epoch f) (fd_last_tick d))
      (bt_get (fd_subjects d) s)" "fd_epoch ?d = cf_epoch f" "judgments_of ?d s = judgments_of d s"
    "bt_sorted (fd_subjects ?d) = bt_sorted (fd_subjects d)"
    using False by (auto simp: detector_on_epoch_advanced_def judgments_of_def bt_get_map)
  have "in_ledger (cf_epoch f) js (advance_record (cf_epoch f) t r)"
    if "in_ledger (fd_epoch d) js r" "numbered js" "length js < 2 ^ 64 - 1" for js r t
  proof (cases "sr_dead_at r")
    case None
    then show ?thesis using that up by (auto simp: in_ledger_def advance_record_def)
  next
    case (Some x)
    then have last: "js \<noteq> []" "dj_epoch (last js) = fd_epoch d" "unat (sr_incarnation r) = length js"
      using that(1) by (auto simp: in_ledger_def)
    then obtain ks where ks: "js = ks @ [last js]" by (metis append_butlast_last_id)
    have "\<forall>j\<in>set js. dj_epoch j \<le> fd_epoch d"
      using that(2) last(2) numbered_snoc [of ks "last js"] ks
      by (metis Un_iff empty_iff empty_set insert_iff list.simps(15) order.strict_implies_order order_refl set_append)
    then have "\<forall>j\<in>set js. dj_epoch j < cf_epoch f" using up by force
    moreover have "unat (saturating_add (sr_incarnation r) 1) = length js + 1"
      using last(3) that(3) by (simp add: unat_saturating_add)
    ultimately show ?thesis using Some by (simp add: in_ledger_def advance_record_def)
  qed
  then show ?thesis using assms kept by (auto simp: ledger_inv_def split: option.splits)
qed

lemma ledger_run: "ledger_inv d s \<Longrightarrow> ledger_inv (detector_run d ops) s"
proof (induction ops arbitrary: d)
  case (Cons op ops)
  have "ledger_inv (detector_apply d op) s"
    using Cons.prems ledger_heartbeat ledger_sweep ledger_advance by (cases op) simp_all
  then show ?case using Cons.IH by (simp del: detector_apply.simps)
qed simp

text \<open>C39: After any history of heartbeats, sweeps and epoch advances, the judgments on a subject carry the
  incarnations 1, 2, 3 and so on in strictly increasing epochs, so no incarnation is judged twice. The
  subject is dead precisely when its last judgment belongs to the current epoch, and its incarnation is the
  number of judgments, plus one unless it is dead.\<close>

theorem judgment_ledger:
  assumes "d = detector_run (detector_new f config) ops" "js = judgments_of d s" "length js < 2 ^ 64 - 1"
    "detector_liveness d s = Some v"
  shows "map (\<lambda>j. unat (dj_incarnation j)) js = [1 ..< length js + 1] \<and>
    sorted_wrt (\<lambda>i j. dj_epoch i < dj_epoch j) js \<and>
    (lv_liveness v = Dead \<longleftrightarrow> js \<noteq> [] \<and> dj_epoch (last js) = fd_epoch d) \<and>
    unat (lv_incarnation v) = length js + (if lv_liveness v = Dead then 0 else 1)"
proof -
  have "ledger_inv (detector_new f config) s"
    by (simp add: ledger_inv_def detector_new_def judgments_of_def numbered_def)
  from ledger_run [OF this, of ops] have inv: "ledger_inv d s" by (simp add: assms(1))
  obtain r where r: "bt_get (fd_subjects d) s = Some r" "lv_liveness v = record_liveness r"
    "lv_incarnation v = sr_incarnation r"
    using assms(4) by (auto simp: detector_liveness_def)
  have dead: "record_liveness r = Dead \<longleftrightarrow> sr_dead_at r \<noteq> None" by (simp add: record_liveness_def)
  have l: "numbered js" "in_ledger (fd_epoch d) js r"
    using inv r(1) assms(2,3) by (simp_all add: ledger_inv_def)
  have lower: "dj_epoch (last js) \<noteq> fd_epoch d" if "sr_dead_at r = None" "js \<noteq> []"
  proof -
    have "\<forall>j\<in>set js. dj_epoch j < fd_epoch d" using l(2) that(1) by (simp add: in_ledger_def)
    from bspec [OF this last_in_set [OF that(2)]] show ?thesis by simp
  qed
  have "(lv_liveness v = Dead \<longleftrightarrow> js \<noteq> [] \<and> dj_epoch (last js) = fd_epoch d) \<and>
      unat (lv_incarnation v) = length js + (if lv_liveness v = Dead then 0 else 1)"
    using l(2) r dead lower by (auto simp: in_ledger_def split: option.splits)
  then show ?thesis using l(1) by (simp add: numbered_def)
qed

theorem judgment_ledger_witness:
  "\<exists>d v. d = detector_run (detector_new \<lparr>cf_identity = 1, cf_node_boot_generation = 1, cf_epoch = 1,
      cf_fencing_token = 1\<rparr> \<lparr>suspect_after = 5, dead_after = 10\<rparr>)
      [Heartbeat (Fiber 3) 2, Sweep 12, AdvanceEpoch \<lparr>cf_identity = 1, cf_node_boot_generation = 1, cf_epoch = 2,
      cf_fencing_token = 2\<rparr>] \<and>
    detector_liveness d (Fiber 3) = Some v \<and> length (judgments_of d (Fiber 3)) = 1 \<and>
    unat (lv_incarnation v) = 2 \<and> map (\<lambda>j. unat (dj_incarnation j)) (judgments_of d (Fiber 3)) = [1]"
proof -
  let ?ops = "[Heartbeat (Fiber 3) 2, Sweep 12, AdvanceEpoch \<lparr>cf_identity = 1, cf_node_boot_generation = 1,
      cf_epoch = 2, cf_fencing_token = 2\<rparr>]"
  define d where "d = detector_run (detector_new \<lparr>cf_identity = 1, cf_node_boot_generation = 1, cf_epoch = 1,
      cf_fencing_token = 1\<rparr> \<lparr>suspect_after = 5, dead_after = 10\<rparr>) ?ops"
  have js: "judgments_of d (Fiber 3) = [\<lparr>dj_subject = Fiber 3, dj_epoch = 1, dj_dead_at = 12, dj_incarnation = 1\<rparr>]"
    and "\<exists>v. detector_liveness d (Fiber 3) = Some v \<and> lv_liveness v = Alive"
    unfolding d_def
    by (simp_all add: detector_new_def record_heartbeat_def sweep_def detector_on_epoch_advanced_def
        observe_tick_def judgments_of_def detector_liveness_def bt_get_def sweep_record_def silence_since_def
        advance_record_def record_liveness_def saturating_sub_def Let_def not_le)
  then obtain v where v: "detector_liveness d (Fiber 3) = Some v" "lv_liveness v = Alive" by blast
  from judgment_ledger [OF d_def refl _ v(1)] js v show ?thesis
    by (intro exI [of _ d] exI [of _ v]) (simp add: d_def)
qed

end
