(* ===== verification/NameCache.thy ===== *)
theory NameCache
  imports Cell BTree "HOL-Library.List_Lexorder" "HOL-Library.Char_ord"
begin

text \<open>
  The capability and name cache of \<open>nlos-cell/src/name_cache.rs\<close>. A path keeps at most one live handle and
  the generation through which it was invalidated. As the source does, an operation on an unseen path first
  stores an empty state for it, also when it fails afterwards.

  \<open>NameCacheProps\<close> gives the answer of a lookup in closed form from the history: the first handle of
  the newest generation that was presented in the current epoch and lies above every invalidation.
\<close>

section \<open>Data\<close>

type_synonym NamePath = string
type_synonym CapabilityId = bytes16

record CachedCapability =
  cc_capability :: CapabilityId
  cc_generation :: Generation

record CacheHit =
  ch_cached :: CachedCapability
  ch_inserted_epoch :: CellEpoch

datatype InsertOutcome = Inserted | Unchanged | Replaced CachedCapability

datatype InvalidationOutcome = Advanced Generation nat | Idempotent

record EpochInvalidation =
  ei_previous_epoch :: CellEpoch
  ei_new_epoch :: CellEpoch
  entries_fenced :: nat

datatype NameCacheError = InvalidPath string
  | StaleGeneration NamePath Generation Generation
  | StaleEntry NamePath Generation Generation
  | GenerationConflict NamePath CapabilityId CapabilityId Generation
  | StaleInvalidation NamePath Generation Generation
  | CacheEpochNotAdvanced CellEpoch CellEpoch
  | CacheIdentityMismatch CellIdentity CellIdentity

record PathState =
  ps_live :: "CachedCapability option"
  ps_inserted_epoch :: "CellEpoch option"
  ps_invalidated_through :: "Generation option"

record CapabilityNameCache =
  nc_identity :: CellIdentity
  nc_epoch :: CellEpoch
  nc_paths :: "(NamePath, PathState) btree"

section \<open>Operations\<close>

fun split_on :: "char \<Rightarrow> string \<Rightarrow> string list" where
  "split_on sep [] = [[]]"
| "split_on sep (c # cs) =
     (if c = sep then [] # split_on sep cs
      else case split_on sep cs of [] \<Rightarrow> [[c]] | part # parts \<Rightarrow> (c # part) # parts)"

definition slash :: char where
  "slash = CHR 0x2F"

definition name_path_new :: "string \<Rightarrow> (NameCacheError, NamePath) result" where
  "name_path_new path =
     (if path = [] \<or> hd path \<noteq> slash \<or> length path < 2 \<or> last path = slash then Inl (InvalidPath path)
      else if \<not> list_all (\<lambda>c. c = slash \<or> 0x21 \<le> code c \<and> code c \<le> 0x7E) path then Inl (InvalidPath path)
      else if [] \<in> set (split_on slash (tl path)) then Inl (InvalidPath path)
      else Inr path)"

definition empty_path_state :: PathState where
  "empty_path_state = \<lparr>ps_live = None, ps_inserted_epoch = None, ps_invalidated_through = None\<rparr>"

definition cache_new :: "CellFence \<Rightarrow> CapabilityNameCache" where
  "cache_new f = \<lparr>nc_identity = cf_identity f, nc_epoch = cf_epoch f, nc_paths = []\<rparr>"

definition invalidated_through :: "CapabilityNameCache \<Rightarrow> NamePath \<Rightarrow> Generation option" where
  "invalidated_through cache path = Option.bind (bt_get (nc_paths cache) path) ps_invalidated_through"

definition cache_get :: "CapabilityNameCache \<Rightarrow> NamePath \<Rightarrow> CacheHit option" where
  "cache_get cache path =
     Option.bind (bt_get (nc_paths cache) path) (\<lambda>state.
     Option.bind (ps_live state) (\<lambda>cached.
     Option.bind (ps_inserted_epoch state) (\<lambda>inserted_epoch.
       if inserted_epoch \<noteq> nc_epoch cache then None
       else Some \<lparr>ch_cached = cached, ch_inserted_epoch = inserted_epoch\<rparr>)))"

text \<open>\<open>entry(path).or_insert(..)\<close>: the state of the path and a way to store it back.\<close>

definition path_entry :: "CapabilityNameCache \<Rightarrow> NamePath \<Rightarrow> PathState" where
  "path_entry cache path = (case bt_get (nc_paths cache) path of Some state \<Rightarrow> state | None \<Rightarrow> empty_path_state)"

definition store_path :: "NamePath \<Rightarrow> PathState \<Rightarrow> CapabilityNameCache \<Rightarrow> CapabilityNameCache" where
  "store_path path state cache = cache\<lparr>nc_paths := bt_insert path state (nc_paths cache)\<rparr>"

definition fenced_at :: "Generation \<Rightarrow> PathState \<Rightarrow> Generation option" where
  "fenced_at generation state = (case ps_invalidated_through state of
     Some through \<Rightarrow> if generation \<le> through then Some through else None | None \<Rightarrow> None)"

definition cache_insert ::
  "CapabilityNameCache \<Rightarrow> NamePath \<Rightarrow> CapabilityId \<Rightarrow> Generation \<Rightarrow>
   CapabilityNameCache \<times> (NameCacheError, InsertOutcome) result" where
  "cache_insert cache path capability generation =
     (let state = path_entry cache path;
          kept = store_path path state cache;
          presented = \<lparr>cc_capability = capability, cc_generation = generation\<rparr>;
          stored = store_path path (state\<lparr>ps_live := Some presented,
            ps_inserted_epoch := Some (nc_epoch cache)\<rparr>) cache
      in case fenced_at generation state of
           Some through \<Rightarrow> (kept, Inl (StaleGeneration path generation through))
         | None \<Rightarrow>
             (case ps_live state of
                 Some current \<Rightarrow>
                   if generation < cc_generation current
                   then (kept, Inl (StaleEntry path generation (cc_generation current)))
                   else if generation = cc_generation current
                   then if cc_capability current = capability then (kept, Inr Unchanged)
                     else (kept, Inl (GenerationConflict path capability (cc_capability current) generation))
                   else (stored, Inr (Replaced current))
               | None \<Rightarrow> (stored, Inr Inserted)))"

definition invalidate ::
  "CapabilityNameCache \<Rightarrow> NamePath \<Rightarrow> Generation \<Rightarrow>
   CapabilityNameCache \<times> (NameCacheError, InvalidationOutcome) result" where
  "invalidate cache path through =
     (let state = path_entry cache path; kept = store_path path state cache;
          advanced = (case ps_live state of
             Some live \<Rightarrow>
               if cc_generation live \<le> through
               then (store_path path (state\<lparr>ps_invalidated_through := Some through, ps_live := None,
                       ps_inserted_epoch := None\<rparr>) cache, Inr (Advanced through 1))
               else (store_path path (state\<lparr>ps_invalidated_through := Some through\<rparr>) cache,
                     Inr (Advanced through 0))
           | None \<Rightarrow> (store_path path (state\<lparr>ps_invalidated_through := Some through\<rparr>) cache,
                       Inr (Advanced through 0)))
      in case ps_invalidated_through state of
           Some current \<Rightarrow>
             if through < current then (kept, Inl (StaleInvalidation path through current))
             else if through = current then (kept, Inr Idempotent)
             else advanced
         | None \<Rightarrow> advanced)"

definition fence_path :: "PathState \<Rightarrow> PathState" where
  "fence_path state = (if ps_live state \<noteq> None then state\<lparr>ps_live := None, ps_inserted_epoch := None\<rparr> else state)"

definition cache_on_epoch_advanced ::
  "CapabilityNameCache \<Rightarrow> CellFence \<Rightarrow> CapabilityNameCache \<times> (NameCacheError, EpochInvalidation) result" where
  "cache_on_epoch_advanced cache f =
     (if cf_identity f \<noteq> nc_identity cache
      then (cache, Inl (CacheIdentityMismatch (cf_identity f) (nc_identity cache)))
      else if cf_epoch f \<le> nc_epoch cache then (cache, Inl (CacheEpochNotAdvanced (cf_epoch f) (nc_epoch cache)))
      else (cache\<lparr>nc_paths := map (\<lambda>(path, state). (path, fence_path state)) (nc_paths cache), nc_epoch := cf_epoch f\<rparr>,
            Inr \<lparr>ei_previous_epoch = nc_epoch cache, ei_new_epoch = cf_epoch f,
              entries_fenced = length (filter (\<lambda>(_, state). ps_live state \<noteq> None) (nc_paths cache))\<rparr>))"

section \<open>Histories\<close>

datatype cache_op = Insert NamePath CapabilityId Generation | Invalidate NamePath Generation | Advance CellFence

fun cache_apply :: "CapabilityNameCache \<Rightarrow> cache_op \<Rightarrow> CapabilityNameCache" where
  "cache_apply cache (Insert path capability generation) = fst (cache_insert cache path capability generation)"
| "cache_apply cache (Invalidate path through) = fst (invalidate cache path through)"
| "cache_apply cache (Advance f) = fst (cache_on_epoch_advanced cache f)"

definition cache_run :: "CapabilityNameCache \<Rightarrow> cache_op list \<Rightarrow> CapabilityNameCache" where
  "cache_run cache ops = foldl cache_apply cache ops"

text \<open>What the history says about a path: the epoch in force, the handles presented in it, and the
  generations invalidated at any time.\<close>

fun accepts_fence :: "CellIdentity \<Rightarrow> CellEpoch \<Rightarrow> CellFence \<Rightarrow> bool" where
  "accepts_fence identity epoch f = (cf_identity f = identity \<and> epoch < cf_epoch f)"

fun presented_in :: "CellIdentity \<Rightarrow> NamePath \<Rightarrow> CellEpoch \<times> (CapabilityId \<times> Generation) list \<Rightarrow> cache_op \<Rightarrow>
    CellEpoch \<times> (CapabilityId \<times> Generation) list" where
  "presented_in identity path (epoch, entries) (Insert p c g) =
     (epoch, if p = path then entries @ [(c, g)] else entries)"
| "presented_in identity path (epoch, entries) (Invalidate p g) = (epoch, entries)"
| "presented_in identity path (epoch, entries) (Advance f) =
     (if accepts_fence identity epoch f then (cf_epoch f, []) else (epoch, entries))"

definition presented :: "CellFence \<Rightarrow> NamePath \<Rightarrow> cache_op list \<Rightarrow> CellEpoch \<times> (CapabilityId \<times> Generation) list" where
  "presented f path ops = foldl (presented_in (cf_identity f) path) (cf_epoch f, []) ops"

definition invalidations :: "NamePath \<Rightarrow> cache_op list \<Rightarrow> Generation list" where
  "invalidations path ops = concat (map (\<lambda>op. case op of
     Invalidate p g \<Rightarrow> if p = path then [g] else [] | _ \<Rightarrow> []) ops)"

text \<open>The first entry of the newest generation.\<close>

definition newer :: "('c \<times> Generation) option \<Rightarrow> 'c \<times> Generation \<Rightarrow> ('c \<times> Generation) option" where
  "newer best x = (case best of None \<Rightarrow> Some x | Some y \<Rightarrow> if snd y < snd x then Some x else Some y)"

definition newest :: "('c \<times> Generation) list \<Rightarrow> ('c \<times> Generation) option" where
  "newest entries = foldl newer None entries"

definition unfenced :: "Generation list \<Rightarrow> ('c \<times> Generation) list \<Rightarrow> ('c \<times> Generation) list" where
  "unfenced invalidated entries = filter (\<lambda>(_, g). list_all (\<lambda>h. h < g) invalidated) entries"

end
