(* ===== verification/NameCacheProps.thy ===== *)
theory NameCacheProps
  imports NameCache
begin

text \<open>
  The cache against its history. \<open>path_reflects\<close> says that the state of a path holds the newest unfenced entry
  of the current epoch and the highest invalidation; every operation keeps it.
\<close>

section \<open>Paths\<close>

definition joined :: "char \<Rightarrow> string list \<Rightarrow> string" where
  "joined sep parts = concat (map ((#) sep) parts)"

lemma split_on_ne [simp]: "split_on sep s \<noteq> []"
  by (induction s) (auto split: list.split)

lemma joined_split_on: "joined sep (split_on sep s) = sep # s"
proof (induction s)
  case (Cons c s)
  then show ?case by (cases "split_on sep s") (auto simp: joined_def)
qed (simp add: joined_def)

lemma split_on_parts: "part \<in> set (split_on sep s) \<Longrightarrow> sep \<notin> set part \<and> set part \<subseteq> set s"
proof (induction s arbitrary: part)
  case (Cons c s)
  then show ?case by (cases "split_on sep s") (fastforce split: if_splits)+
qed simp

lemma split_on_append:
  "sep \<notin> set part \<Longrightarrow> split_on sep (part @ joined sep parts) = part # parts" if "\<forall>p\<in>set parts. sep \<notin> set p"
  using that
proof (induction parts arbitrary: part)
  case Nil
  then show ?case by (induction part) (auto simp: joined_def)
next
  case (Cons p parts)
  have "split_on sep (sep # p @ joined sep parts) = [] # p # parts" using Cons by simp
  then show ?case using Cons.prems(1) by (induction part) (auto simp: joined_def)
qed

definition segment :: "string \<Rightarrow> bool" where
  "segment s = (s \<noteq> [] \<and> (\<forall>c\<in>set s. c \<noteq> slash \<and> 0x21 \<le> code c \<and> code c \<le> 0x7E))"

text \<open>The accepted paths are the non-empty sequences of non-empty printable segments.\<close>

lemma name_path_exact:
  "name_path_new path = Inr p \<longleftrightarrow>
     p = path \<and> (\<exists>segments. segments \<noteq> [] \<and> list_all segment segments \<and> path = joined slash segments)"
proof
  assume ok: "name_path_new path = Inr p"
  then obtain t where path: "path = slash # t" "p = path" "[] \<notin> set (split_on slash t)"
    "\<forall>c\<in>set t. c = slash \<or> 0x21 \<le> code c \<and> code c \<le> 0x7E"
    by (cases path) (auto simp: name_path_new_def list_all_iff split: if_splits)
  have "segment s" if "s \<in> set (split_on slash t)" for s
    using split_on_parts [OF that] path(3,4) that unfolding segment_def by fastforce
  then show "p = path \<and> (\<exists>segments. segments \<noteq> [] \<and> list_all segment segments \<and> path = joined slash segments)"
    using path(1,2) joined_split_on [of slash t]
    by (intro conjI exI [of _ "split_on slash t"]) (simp_all add: list_all_iff)
next
  assume "p = path \<and> (\<exists>segments. segments \<noteq> [] \<and> list_all segment segments \<and> path = joined slash segments)"
  then obtain s ss where p: "p = path" "list_all segment (s # ss)" "path = joined slash (s # ss)"
    by (metis neq_Nil_conv)
  have parts: "split_on slash (tl path) = s # ss"
    using p(2,3) split_on_append [of ss slash s] by (auto simp: joined_def list_all_iff segment_def)
  obtain init x where x: "s # ss = init @ [x]" by (metis append_butlast_last_id list.distinct(1))
  then have "segment x" using p(2) unfolding x by simp
  then have "path \<noteq> [] \<and> last path \<noteq> slash"
    using p(3) unfolding x by (simp add: joined_def segment_def)
  then show "name_path_new path = Inr p"
    using p parts by (auto simp: name_path_new_def joined_def list_all_iff segment_def Suc_le_eq)
qed

section \<open>The newest entry\<close>

lemma newest_simps [simp]: "newest [] = None" "newest (xs @ [x]) = newer (newest xs) x"
  by (simp_all add: newest_def)

lemma unfenced_simps [simp]:
  "unfenced hs [] = []"
  "unfenced hs (xs @ [(c, g)]) = unfenced hs xs @ (if list_all (\<lambda>h. h < g) hs then [(c, g)] else [])"
  by (simp_all add: unfenced_def)

lemma newest_above:
  "newest (filter (\<lambda>(_, g). t < g) xs) =
     (case newest xs of Some y \<Rightarrow> if t < snd y then Some y else None | None \<Rightarrow> None)"
proof (induction xs rule: rev_induct)
  case (snoc x xs)
  then show ?case
    by (cases x; cases "newest xs") (auto simp: newer_def)
qed simp

lemma unfenced_snoc: "unfenced (hs @ [t]) xs = filter (\<lambda>(_, g). t < g) (unfenced hs xs)"
  by (auto simp: unfenced_def intro!: filter_cong)

section \<open>The state of a path\<close>

definition highest :: "Generation list \<Rightarrow> Generation option \<Rightarrow> bool" where
  "highest hs high = (case high of None \<Rightarrow> hs = [] | Some h \<Rightarrow> h \<in> set hs \<and> (\<forall>x\<in>set hs. x \<le> h))"

definition cached :: "CapabilityId \<times> Generation \<Rightarrow> CachedCapability" where
  "cached x = \<lparr>cc_capability = fst x, cc_generation = snd x\<rparr>"

definition path_reflects :: "CellEpoch \<Rightarrow> (CapabilityId \<times> Generation) list \<Rightarrow> Generation list \<Rightarrow> PathState \<Rightarrow> bool" where
  "path_reflects epoch entries hs state = (highest hs (ps_invalidated_through state) \<and>
     ps_live state = map_option cached (newest (unfenced hs entries)) \<and>
     ps_inserted_epoch state = (if ps_live state = None then None else Some epoch))"

lemma highest_bound: "highest hs (Some h) \<Longrightarrow> list_all (\<lambda>x. x < g) hs \<longleftrightarrow> h < g"
  by (auto simp: highest_def list_all_iff)

lemma highest_none: "highest hs None \<longleftrightarrow> hs = []"
  by (simp add: highest_def)

lemma fenced_at_reflects:
  assumes "highest hs (ps_invalidated_through state)"
  shows "fenced_at g state = None \<longleftrightarrow> list_all (\<lambda>h. h < g) hs"
  using assms highest_bound
  by (auto simp: fenced_at_def highest_none not_le split: option.split if_splits)

lemma path_entry_store [simp]:
  "path_entry (store_path p st cache) q = (if q = p then st else path_entry cache q)"
  "nc_epoch (store_path p st cache) = nc_epoch cache" "nc_identity (store_path p st cache) = nc_identity cache"
  by (simp_all add: path_entry_def store_path_def)

lemma insert_other:
  "q \<noteq> p \<Longrightarrow> path_entry (fst (cache_insert cache p c g)) q = path_entry cache q"
  "nc_epoch (fst (cache_insert cache p c g)) = nc_epoch cache"
  "nc_identity (fst (cache_insert cache p c g)) = nc_identity cache"
  by (simp_all add: cache_insert_def Let_def split: option.split)

lemma insert_reflects:
  assumes "path_reflects (nc_epoch cache) entries hs (path_entry cache p)"
  shows "path_reflects (nc_epoch cache) (entries @ [(c, g)]) hs (path_entry (fst (cache_insert cache p c g)) p)"
proof -
  let ?st = "path_entry cache p"
  have top: "highest hs (ps_invalidated_through ?st)" using assms by (simp add: path_reflects_def)
  show ?thesis
  proof (cases "fenced_at g ?st")
    case (Some h)
    then have "\<not> list_all (\<lambda>h. h < g) hs" using fenced_at_reflects [OF top, of g] by simp
    then show ?thesis using assms Some by (simp add: path_reflects_def cache_insert_def Let_def)
  next
    case None
    then have "list_all (\<lambda>h. h < g) hs" using fenced_at_reflects [OF top, of g] by simp
    then show ?thesis
      using assms None
      by (cases "newest (unfenced hs entries)")
        (auto simp: path_reflects_def cache_insert_def Let_def newer_def cached_def)
  qed
qed

lemma invalidate_other:
  "q \<noteq> p \<Longrightarrow> path_entry (fst (invalidate cache p t)) q = path_entry cache q"
  "nc_epoch (fst (invalidate cache p t)) = nc_epoch cache"
  "nc_identity (fst (invalidate cache p t)) = nc_identity cache"
  by (simp_all add: invalidate_def Let_def split: option.split)

lemma invalidate_reflects:
  assumes "path_reflects (nc_epoch cache) entries hs (path_entry cache p)"
  shows "path_reflects (nc_epoch cache) entries (hs @ [t]) (path_entry (fst (invalidate cache p t)) p)"
proof -
  let ?st = "path_entry cache p"
  have high: "highest hs (ps_invalidated_through ?st)" using assms by (simp add: path_reflects_def)
  show ?thesis
  proof (cases "\<exists>h. ps_invalidated_through ?st = Some h \<and> t \<le> h")
    case True
    then obtain h where h: "ps_invalidated_through ?st = Some h" "t \<le> h" by blast
    have "list_all (\<lambda>x. x < g) (hs @ [t]) = list_all (\<lambda>x. x < g) hs" for g
      using highest_bound [of hs h g] high h by fastforce
    then have "unfenced (hs @ [t]) entries = unfenced hs entries" by (simp only: unfenced_def)
    moreover have "highest (hs @ [t]) (Some h)" using high h by (auto simp: highest_def)
    ultimately show ?thesis
      using assms h by (auto simp: path_reflects_def invalidate_def Let_def)
  next
    case False
    have "x \<le> t" if "x \<in> set hs" for x
      using high False that by (cases "ps_invalidated_through ?st") (auto simp: highest_def dest!: bspec)
    then have "highest (hs @ [t]) (Some t)" by (auto simp: highest_def)
    moreover have "ps_invalidated_through (path_entry (fst (invalidate cache p t)) p) = Some t"
      "ps_live (path_entry (fst (invalidate cache p t)) p) = (case ps_live ?st of None \<Rightarrow> None
         | Some live \<Rightarrow> if cc_generation live \<le> t then None else Some live)"
      "ps_inserted_epoch (path_entry (fst (invalidate cache p t)) p) =
         (if \<exists>live. ps_live ?st = Some live \<and> cc_generation live \<le> t then None else ps_inserted_epoch ?st)"
      using False by (auto simp: invalidate_def Let_def split: option.split)
    ultimately show ?thesis
      using assms unfolding path_reflects_def unfenced_snoc newest_above
      by (cases "newest (unfenced hs entries)") (auto simp: cached_def not_le)
  qed
qed

lemma advance_reflects:
  assumes "cf_identity f = nc_identity cache" "nc_epoch cache < cf_epoch f"
    "path_reflects (nc_epoch cache) entries hs (path_entry cache p)"
  shows "path_reflects (cf_epoch f) [] hs (path_entry (fst (cache_on_epoch_advanced cache f)) p)"
proof -
  have "bt_get (map (\<lambda>(path, state). (path, fence_path state)) m) p = map_option fence_path (bt_get m p)" for m
    by (induction m) (auto simp: bt_get_def)
  moreover have "fence_path empty_path_state = empty_path_state"
    by (simp add: fence_path_def empty_path_state_def)
  ultimately have "path_entry (fst (cache_on_epoch_advanced cache f)) p = fence_path (path_entry cache p)"
    using assms(1,2) by (simp add: cache_on_epoch_advanced_def path_entry_def not_le split: option.split)
  then show ?thesis using assms(3) by (auto simp: path_reflects_def fence_path_def)
qed

lemma run_reflects:
  assumes "cache = cache_run (cache_new f) ops" "presented f p ops = (epoch, entries)"
  shows "nc_identity cache = cf_identity f \<and> nc_epoch cache = epoch \<and>
    path_reflects epoch entries (invalidations p ops) (path_entry cache p)"
  using assms
proof (induction ops arbitrary: cache epoch entries rule: rev_induct)
  case Nil
  then show ?case
    by (auto simp: cache_run_def cache_new_def presented_def invalidations_def path_reflects_def path_entry_def
        empty_path_state_def highest_def)
next
  case (snoc op ops)
  let ?c = "cache_run (cache_new f) ops"
  obtain e es where before: "presented f p ops = (e, es)" by (cases "presented f p ops")
  from snoc.IH [OF refl before] have ih: "nc_identity ?c = cf_identity f" "nc_epoch ?c = e"
    "path_reflects (nc_epoch ?c) es (invalidations p ops) (path_entry ?c p)" by simp_all
  have cache: "cache = cache_apply ?c op" using snoc.prems(1) by (simp add: cache_run_def)
  have now: "presented_in (cf_identity f) p (e, es) op = (epoch, entries)"
    using snoc.prems(2) before by (simp add: presented_def)
  have inv: "invalidations p (ops @ [op]) = invalidations p ops @ invalidations p [op]"
    by (simp add: invalidations_def)
  show ?case
  proof (cases op)
    case (Insert q c g)
    have same: "invalidations p (ops @ [op]) = invalidations p ops" by (simp add: inv Insert invalidations_def)
    have "path_reflects e (if q = p then es @ [(c, g)] else es) (invalidations p ops) (path_entry cache p)"
      using ih insert_reflects [OF ih(3), of c g] insert_other(1) [of p q ?c c g]
      by (cases "q = p") (simp_all add: cache Insert)
    then show ?thesis using now ih(1,2) by (simp add: same) (simp add: cache Insert insert_other(2,3))
  next
    case (Invalidate q t)
    have hs: "invalidations p (ops @ [op]) = invalidations p ops @ (if q = p then [t] else [])"
      by (simp add: inv Invalidate invalidations_def)
    have "path_reflects e es (invalidations p ops @ (if q = p then [t] else [])) (path_entry cache p)"
      using ih invalidate_reflects [OF ih(3), of t] invalidate_other(1) [of p q ?c t]
      by (cases "q = p") (simp_all add: cache Invalidate)
    then show ?thesis using now ih(1,2) unfolding hs
      by (simp add: cache Invalidate invalidate_other(2,3) split del: if_split)
  next
    case (Advance g)
    have same: "invalidations p (ops @ [op]) = invalidations p ops" by (simp add: inv Advance invalidations_def)
    show ?thesis
    proof (cases "accepts_fence (cf_identity f) e g")
      case True
      then have "path_reflects (cf_epoch g) [] (invalidations p ops) (path_entry cache p)"
        using advance_reflects [OF _ _ ih(3), of g] ih(1,2) by (simp add: cache Advance)
      moreover have "nc_epoch cache = cf_epoch g" "nc_identity cache = cf_identity f"
        using True ih(1,2) by (auto simp: cache Advance cache_on_epoch_advanced_def dest: leD)
      moreover have "epoch = cf_epoch g" "entries = []" using True now Advance by simp_all
      ultimately show ?thesis by (simp add: same)
    next
      case False
      then have "cache = ?c" using ih(1,2) by (auto simp: cache Advance cache_on_epoch_advanced_def)
      moreover have "epoch = e" "entries = es" using False now Advance by (auto split: if_splits)
      ultimately show ?thesis using ih by (simp add: same)
    qed
  qed
qed

text \<open>C40: After any history of insertions, invalidations and epoch advances, accepted or not, a lookup answers
  with the first handle of the newest generation among those presented for the path in the current epoch
  with a generation above every invalidation ever presented for the path, and misses when there is none.\<close>

theorem cache_serves_newest:
  assumes "presented f p ops = (epoch, entries)"
  shows "cache_get (cache_run (cache_new f) ops) p =
    map_option (\<lambda>(c, g). \<lparr>ch_cached = \<lparr>cc_capability = c, cc_generation = g\<rparr>, ch_inserted_epoch = epoch\<rparr>)
      (newest (unfenced (invalidations p ops) entries))"
proof -
  let ?c = "cache_run (cache_new f) ops"
  note r = run_reflects [OF refl assms]
  have "cache_get ?c p = Option.bind (ps_live (path_entry ?c p)) (\<lambda>x. Option.bind (ps_inserted_epoch (path_entry ?c p))
      (\<lambda>e. if e \<noteq> nc_epoch ?c then None else Some \<lparr>ch_cached = x, ch_inserted_epoch = e\<rparr>))"
    by (simp add: cache_get_def path_entry_def empty_path_state_def split: option.split)
  then show ?thesis
    using r by (cases "newest (unfenced (invalidations p ops) entries)") (auto simp: path_reflects_def cached_def)
qed

theorem cache_serves_newest_witness:
  "cache_get (cache_run (cache_new \<lparr>cf_identity = 1, cf_node_boot_generation = 1, cf_epoch = 1, cf_fencing_token = 1\<rparr>)
     [Insert ''/a'' 5 2, Insert ''/a'' 6 4, Invalidate ''/a'' 3, Insert ''/a'' 7 3]) ''/a'' =
   Some \<lparr>ch_cached = \<lparr>cc_capability = 6, cc_generation = 4\<rparr>, ch_inserted_epoch = 1\<rparr>"
proof -
  let ?f = "\<lparr>cf_identity = 1, cf_node_boot_generation = 1, cf_epoch = 1, cf_fencing_token = 1\<rparr>"
  let ?ops = "[Insert ''/a'' 5 2, Insert ''/a'' 6 4, Invalidate ''/a'' 3, Insert ''/a'' 7 3]"
  have "presented ?f ''/a'' ?ops = (1, [(5, 2), (6, 4), (7, 3)])" by (simp add: presented_def)
  from cache_serves_newest [OF this] show ?thesis
    by (simp add: invalidations_def unfenced_def newest_def newer_def)
qed

end
