(* ===== verification/Spec2Isabelle.thy ===== *)
theory Spec2Isabelle
  imports SnapshotCodec RaftCompaction StoreProps SingleNodeProps DriverProps ClusterProps RaftRepair
    CellFencing FailureDetectorProps NameCacheProps
begin

text \<open>
  Verification of the replicated control plane (\<open>src/crates/nlos-consensus/src\<close>) and of the cells it runs on
  (\<open>src/crates/nlos-cell/src\<close>).

  The program keeps a small set of control tables (cell directory, quota and capacity leases, device
  heads) identical on a roster of voters. A client command is a \<open>ControlPlaneProposal\<close>; the Raft core
  orders proposals in a log; the store makes the log, the vote and the commit index durable before any
  message leaves; committed entries are applied to the state machine, which is summarised in snapshots.
  The single-host node and the multi-host driver put core, store and state machine together; the driver
  exchanges checksummed frames with its peers.

  \<^bold>\<open>Shared.\<close> \<open>Prelude\<close>, \<open>BTree\<close>, \<open>Bytes\<close>: results, ordered maps and big-endian bytes used by all parts.

  \<^bold>\<open>State machine (\<open>state_machine.rs\<close>).\<close>
  \<^item> \<open>Commands\<close>, \<open>CommandCodec\<close>: commands, their digest, the body and frame codec. A frame is accepted
    exactly when it is the encoding of the proposal returned.
  \<^item> \<open>ControlPlane\<close>, \<open>ControlPlaneInv\<close>, \<open>ControlPlaneEvolution\<close>, \<open>ControlPlaneGrowth\<close>,
    \<open>ControlPlaneProps\<close>: the tables and \<open>apply_committed_entry\<close>; conservation of quota, bounds of capacity,
    fencing tokens, the device automaton, exactly-once application, the frame of a rejection, growth by
    one row per entry.
  \<^item> \<open>Snapshot\<close>, \<open>SnapshotCodec\<close>: the canonical state body and its round trip.
  \<^item> \<open>EndpointHints\<close>: neither codec writes the flow label and the scope id of an IPv6 endpoint hint. The
    theory shows that states and proposals without them follow those with them, which gives the round
    trip of snapshots for all states. The round trips of commands, log rows and messages, and the
    properties of single node and store that rest on them, are for proposals without the two.

  \<^bold>\<open>Raft core (\<open>core.rs\<close>).\<close> \<open>RaftCore\<close> has the roster, timing, log entries and the transition
  \<open>core_step\<close> with every handler. \<open>RaftFrames\<close> rewrites the helpers as record updates and gives case
  rules, \<open>RaftLog\<close> shows the log invariant, \<open>RaftCommit\<close> the commit rule, \<open>RaftVotes\<close> where the ballots of
  a step come from, \<open>RaftRepair\<close> that the repair of a follower's log ends, \<open>RaftExec\<close> is symbolic
  execution of concrete runs. \<open>RaftProps\<close> and \<open>RaftCompaction\<close> have the properties over all runs of one
  core, for arbitrary and even hostile messages: \<open>RaftProps\<close> what a commit effect says and when it is
  emitted, \<open>RaftCompaction\<close> the shape of the log and that committed entries stay, with the compactions the
  driver and the single node do. Partial compaction with several voters, which neither does, is shown to
  misplace the retained entries.

  \<^bold>\<open>Store (\<open>store.rs\<close>).\<close> \<open>Store\<close> has the SQLite tables with constraints and triggers, the store
  operations, the transaction of one step's effects, and recovery. \<open>StoreRows\<close> shows that rows read back
  exactly, \<open>StoreEvolution\<close> how the tables may change (votes, terms, committed rows), \<open>StoreReplay\<close> that
  the tables implement the abstract durable state, \<open>StoreRecovery\<close> that loading returns it. \<open>RaftDurable\<close>
  shows that the effects of a step describe the change of the core, \<open>StoreProps\<close> that a step, its
  transaction and a crash lose nothing.

  \<^bold>\<open>Single-host node (\<open>single_node.rs\<close>).\<close> \<open>SingleNode\<close> has the operations, \<open>SingleNodeInv\<close> relates
  them to the list of accepted proposals, \<open>SingleNodeProps\<close> shows that every history of
  operations and restarts without failing transactions refines that list, that a proposal commits, and what
  a failing transaction or an all-zero cell breaks.

  \<^bold>\<open>Multi-host driver (\<open>net_driver.rs\<close>).\<close> \<open>RaftWire\<close> is the message codec. \<open>Driver\<close> has the shared engine:
  a step with its transaction before any message or receipt, the handlers of requests and replies,
  waiters, folding of outbound batches, opening and local snapshots. \<open>DriverProps\<close> has the properties that
  need one node only.

  \<^bold>\<open>Cluster.\<close> \<open>Cluster\<close> composes the engines of a roster over a network that may lose, repeat and reorder
  frames; nodes crash, restart from their store, and have transactions rolled back. \<open>ElectionSafety\<close> shows
  by induction over its steps that every counted vote is in a store; \<open>ClusterRun\<close> has the steps
  without faults and relates them to runs of the cores alone, so that concrete runs are computed; \<open>ClusterProps\<close> states that a term
  has at most one leader, and that two nodes can commit different entries at one index.

  \<^bold>\<open>Cell (\<open>src/crates/nlos-cell/src\<close>).\<close> The replicas are cells. \<open>Cell\<close> has identities, fences, the process claim
  and the boot generation in the data directory (\<open>lib.rs\<close>), \<open>CellFencing\<close> shows that a fence is never
  admitted again once a newer one was issued. \<open>FailureDetector\<close> (\<open>failure_detector.rs\<close>) and \<open>NameCache\<close>
  (\<open>name_cache.rs\<close>) are two components fenced by the epochs; \<open>FailureDetectorProps\<close> and \<open>NameCacheProps\<close>
  give their answers in closed form from the history, and the ledger of closed judgments.

  Integers of the control plane and of the cell are machine words. Terms, indices and rounds of the Raft core are
  naturals with saturating addition at \<open>u64::MAX\<close> written out; columns of the store are integers with
  the \<open>i64\<close> bound written out. SHA-256 is a parameter of the model, with no assumption except where a
  property names one. A transaction takes an optional fault: when it is given, SQLite rolls back and
  returns it. Panics are values. All functions are total, so no fuel is used.

  Not modelled: sockets, TLS, timeouts and the tasks of the driver, whose interleavings are the steps of
  \<open>Cluster\<close>; the set-up of the SQLite connection and the WAL checkpoint; accessors; the clock, federation and
  partition modules of the cell; and the other crates of the repository, which do not take part in the
  replication protocol. The cell model has one process at a time on a data directory.
\<close>

end
